(* ===== verification/Go_Prelude.thy ===== *)
theory Go_Prelude
  imports Main "HOL-Library.Word" "HOL-Library.Multiset" "HOL-Library.AList"
begin

text \<open>
  Shared vocabulary of the development: the Go types that the components use (bytes, machine
  integers, addresses and hashes, the unbounded \<open>*big.Int\<close>), the result type for calls that
  can fail or panic, and generic facts on lists, maps and words.  The three collections
  \<open>frame\<close>, \<open>inv_intro\<close> and \<open>go_simps\<close> gather, respectively, the
  facts that an operation leaves a field alone, that it keeps an invariant, and the unfolding
  rules of small accessors.
\<close>

named_theorems frame "an operation leaves a field or an observation unchanged"
named_theorems inv_intro "an operation preserves an invariant"
named_theorems go_simps "unfolding rules of small accessors"

unbundle bit_operations_syntax

subsection \<open>Types\<close>

type_synonym byte = "8 word"
type_synonym u32 = "32 word"
type_synonym u64 = "64 word"
type_synonym i32 = "32 word"
type_synonym u256 = "256 word"
type_synonym bytes = "byte list"
type_synonym address = "160 word"   \<comment> \<open>\<open>common.Address\<close>, a [20]byte array\<close>
type_synonym hash = "256 word"      \<comment> \<open>\<open>common.Hash\<close>, a [32]byte array\<close>
type_synonym bigint = int           \<comment> \<open>\<open>*big.Int\<close>\<close>

abbreviation max_u64 :: u64 where
  "max_u64 \<equiv> 18446744073709551615"

subsection \<open>Swapping two elements of a slice\<close>

definition swap :: "'a list \<Rightarrow> nat \<Rightarrow> nat \<Rightarrow> 'a list" where
  "swap xs i j = xs[i := xs ! j, j := xs ! i]"

lemma length_swap [simp]: "length (swap xs i j) = length xs"
  by (simp add: swap_def)

lemma nth_swap:
  "i < length xs \<Longrightarrow> j < length xs \<Longrightarrow> k < length xs \<Longrightarrow>
   swap xs i j ! k = (if k = j then xs ! i else if k = i then xs ! j else xs ! k)"
  by (auto simp: swap_def nth_list_update)

lemma mset_swap_slice [simp]:
  "i < length xs \<Longrightarrow> j < length xs \<Longrightarrow> mset (swap xs i j) = mset xs"
  unfolding swap_def by (rule Multiset.mset_swap)

lemma nth_swap_other:
  "k \<noteq> i \<Longrightarrow> k \<noteq> j \<Longrightarrow> swap xs i j ! k = xs ! k"
  by (simp add: swap_def)

subsection \<open>Lists and multisets\<close>

lemma mset_take_last:
  "xs \<noteq> [] \<Longrightarrow> mset xs = add_mset (xs ! (length xs - 1)) (mset (take (length xs - 1) xs))"
  by (cases xs rule: rev_cases) simp_all

lemma sorted_distinct_strict:
  "sorted xs \<Longrightarrow> distinct xs \<Longrightarrow> i < j \<Longrightarrow> j < length xs \<Longrightarrow> xs ! i < xs ! j"
  using sorted_nth_mono[of xs i j] nth_eq_iff_index_eq[of xs i j] by (simp add: order.strict_iff_order)

subsection \<open>Go maps\<close>

text \<open>
  A Go map is an association list without duplicate keys; the order of the list stands for the
  unspecified iteration order of \<open>range\<close>, and no result about a component depends on it.
\<close>

type_synonym ('k, 'v) gomap = "('k \<times> 'v) list"

abbreviation gm_get :: "('k, 'v) gomap \<Rightarrow> 'k \<Rightarrow> 'v option" where
  "gm_get m k \<equiv> map_of m k"

abbreviation gm_set :: "'k \<Rightarrow> 'v \<Rightarrow> ('k, 'v) gomap \<Rightarrow> ('k, 'v) gomap" where
  "gm_set k v m \<equiv> AList.update k v m"

abbreviation gm_del :: "'k \<Rightarrow> ('k, 'v) gomap \<Rightarrow> ('k, 'v) gomap" where
  "gm_del k m \<equiv> AList.delete k m"

abbreviation gm_keys :: "('k, 'v) gomap \<Rightarrow> 'k list" where
  "gm_keys m \<equiv> map fst m"

abbreviation gm_wf :: "('k, 'v) gomap \<Rightarrow> bool" where
  "gm_wf m \<equiv> distinct (map fst m)"

lemma gm_get_set: "gm_get (gm_set k v m) = (gm_get m)(k \<mapsto> v)"
  by (rule update_conv')

lemma gm_get_del: "gm_get (gm_del k m) = (gm_get m)(k := None)"
  by (rule delete_conv')

lemma gm_keys_del: "gm_keys (gm_del k m) = filter (\<lambda>j. j \<noteq> k) (gm_keys m)"
  by (induction m) auto

lemma gm_wf_set [simp]: "gm_wf m \<Longrightarrow> gm_wf (gm_set k v m)"
  by (rule distinct_update)

lemma gm_wf_del [simp]: "gm_wf m \<Longrightarrow> gm_wf (gm_del k m)"
  by (rule distinct_delete)

lemma gm_get_None: "gm_get m k = None \<longleftrightarrow> k \<notin> set (gm_keys m)"
  by (simp add: map_of_eq_None_iff)

lemma gm_keys_set_new: "gm_get m k = None \<Longrightarrow> gm_keys (gm_set k v m) = gm_keys m @ [k]"
  by (induction m) auto

lemma gm_keys_set_old: "gm_get m k \<noteq> None \<Longrightarrow> gm_keys (gm_set k v m) = gm_keys m"
  by (induction m) auto

lemma gm_set_new: "gm_get m k = None \<Longrightarrow> gm_set k v m = m @ [(k, v)]"
  by (induction m) auto

lemma gm_set_subset: "set (gm_set k v m) \<subseteq> insert (k, v) (set m)"
  by (induction m) auto

lemma gm_get_iff: "gm_wf m \<Longrightarrow> gm_get m k = Some v \<longleftrightarrow> (k, v) \<in> set m"
  by (simp add: map_of_eq_Some_iff)

lemma gm_filter_get:
  "gm_wf m \<Longrightarrow> gm_get (filter (\<lambda>(k, v). P k v) m) k =
     (case gm_get m k of None \<Rightarrow> None | Some v \<Rightarrow> if P k v then Some v else None)"
  by (induction m) (auto simp: map_of_eq_None_iff split: option.splits)

lemma gm_wf_filter [simp]: "gm_wf m \<Longrightarrow> gm_wf (filter P m)"
  by (induction m) auto

subsection \<open>Words\<close>

lemma unat_u64_lt: "unat (w :: u64) < 2 ^ 64"
  using unsigned_less[where 'a = nat, of w] by simp

lemma unat_u256_lt: "unat (w :: u256) < 2 ^ 256"
  using unsigned_less[where 'a = nat, of w] by simp

lemma unat_byte_lt: "unat (w :: byte) < 256"
  using unsigned_less[where 'a = nat, of w] by simp

subsection \<open>Binary search\<close>

text \<open>\<open>sort.Search\<close> of the standard library.\<close>

function sort_search_loop :: "(nat \<Rightarrow> bool) \<Rightarrow> nat \<Rightarrow> nat \<Rightarrow> nat" where
  "sort_search_loop f i j =
     (if i < j then let h = (i + j) div 2 in if \<not> f h then sort_search_loop f (h + 1) j else sort_search_loop f i h
      else i)"
  by pat_completeness auto
termination
  by (relation "measure (\<lambda>(f, i, j). j - i)") auto

declare sort_search_loop.simps [simp del]

definition sort_search :: "nat \<Rightarrow> (nat \<Rightarrow> bool) \<Rightarrow> nat" where
  "sort_search n f = sort_search_loop f 0 n"

lemma sort_search_loop_correct:
  assumes "\<And>k l. f k \<Longrightarrow> k \<le> l \<Longrightarrow> l < n \<Longrightarrow> f l"
  shows "i \<le> j \<Longrightarrow> j \<le> n \<Longrightarrow> (\<forall>k < i. \<not> f k) \<Longrightarrow> (\<forall>k. j \<le> k \<longrightarrow> k < n \<longrightarrow> f k) \<Longrightarrow>
    sort_search_loop f i j \<le> n \<and> (\<forall>k < sort_search_loop f i j. \<not> f k) \<and>
    (\<forall>k. sort_search_loop f i j \<le> k \<longrightarrow> k < n \<longrightarrow> f k)"
proof (induction "j - i" arbitrary: i j rule: less_induct)
  case less
  note unf = sort_search_loop.simps[of f i j]
  show ?case
  proof (cases "i < j")
    case False
    then have "sort_search_loop f i j = i" by (simp add: unf)
    then show ?thesis using less.prems False by auto
  next
    case True
    define h where "h = (i + j) div 2"
    have h: "i \<le> h" "h < j" using True by (auto simp: h_def)
    show ?thesis
    proof (cases "f h")
      case False
      have low: "\<forall>k < h + 1. \<not> f k"
      proof (intro allI impI notI)
        fix k assume "k < h + 1" "f k"
        then have "f h" using assms[of k h] h less.prems(2) by simp
        then show False using False by simp
      qed
      have "sort_search_loop f i j = sort_search_loop f (h + 1) j" using True False by (simp add: unf h_def Let_def)
      then show ?thesis using less.hyps[of j "h + 1"] low less.prems h by simp
    next
      case ft: True
      have up: "\<forall>k. h \<le> k \<longrightarrow> k < n \<longrightarrow> f k" using ft assms by blast
      have "sort_search_loop f i j = sort_search_loop f i h" using True ft by (simp add: unf h_def Let_def)
      then show ?thesis using less.hyps[of h i] up less.prems h by simp
    qed
  qed
qed

lemma sort_search_correct:
  assumes "\<And>k l. f k \<Longrightarrow> k \<le> l \<Longrightarrow> l < n \<Longrightarrow> f l"
  shows "sort_search n f \<le> n" and "k < sort_search n f \<Longrightarrow> \<not> f k" and "sort_search n f \<le> k \<Longrightarrow> k < n \<Longrightarrow> f k"
proof -
  have "sort_search_loop f 0 n \<le> n \<and> (\<forall>k < sort_search_loop f 0 n. \<not> f k) \<and>
    (\<forall>k. sort_search_loop f 0 n \<le> k \<longrightarrow> k < n \<longrightarrow> f k)"
    by (rule sort_search_loop_correct) (use assms in simp_all)
  then show "sort_search n f \<le> n" and "k < sort_search n f \<Longrightarrow> \<not> f k" and "sort_search n f \<le> k \<Longrightarrow> k < n \<Longrightarrow> f k"
    unfolding sort_search_def by blast+
qed

end
