(* ===== verification/Common_Math.thy ===== *)
theory Common_Math
  imports Go_Prelude
begin

text \<open>
  Package \<open>common/math\<close>: 64-bit arithmetic with overflow flags (\<open>integer.go\<close>) and the
  256-bit helpers over \<open>*big.Int\<close> (\<open>big.go\<close>).  A \<open>*big.Int\<close> is an \<open>int\<close>; of the
  standard library's \<open>math/big\<close> the code uses \<open>BitLen\<close>, \<open>Uint64\<close>, \<open>Bit\<close>,
  \<open>Bits\<close> (the little-endian 64-bit words of the absolute value) and \<open>Bytes\<close> (its
  big-endian bytes without leading zeros), which come first.
\<close>

subsection \<open>The standard library's big integers\<close>

fun nat_bitlen :: "nat \<Rightarrow> nat" where
  "nat_bitlen n = (if n = 0 then 0 else Suc (nat_bitlen (n div 2)))"

declare nat_bitlen.simps [simp del]

definition BitLen :: "bigint \<Rightarrow> nat" where
  "BitLen x = nat_bitlen (nat \<bar>x\<bar>)"

definition Uint64 :: "bigint \<Rightarrow> u64" where
  "Uint64 x = word_of_int \<bar>x\<bar>"

fun nat_words :: "nat \<Rightarrow> u64 list" where
  "nat_words n = (if n = 0 then [] else word_of_nat n # nat_words (n div 2 ^ 64))"

declare nat_words.simps [simp del]

definition Bits :: "bigint \<Rightarrow> u64 list" where
  "Bits x = nat_words (nat \<bar>x\<bar>)"

fun nat_bytes :: "nat \<Rightarrow> bytes" where
  "nat_bytes n = (if n = 0 then [] else nat_bytes (n div 256) @ [word_of_nat n])"

declare nat_bytes.simps [simp del]

definition Bytes :: "bigint \<Rightarrow> bytes" where
  "Bytes x = nat_bytes (nat \<bar>x\<bar>)"

text \<open>\<open>SetBytes\<close> reads a byte slice as a big-endian unsigned integer.\<close>

definition SetBytes :: "bytes \<Rightarrow> bigint" where
  "SetBytes bs = foldl (\<lambda>acc b. acc * 256 + uint b) 0 bs"

text \<open>\<open>Cmp\<close> returns -1, 0 or +1.\<close>

definition Cmp :: "bigint \<Rightarrow> bigint \<Rightarrow> int" where
  "Cmp x y = (if x < y then -1 else if x = y then 0 else 1)"

subsection \<open>integer.go\<close>

definition SafeSub :: "u64 \<Rightarrow> u64 \<Rightarrow> u64 \<times> bool" where
  "SafeSub x y = (x - y, x < y)"

definition SafeAdd :: "u64 \<Rightarrow> u64 \<Rightarrow> u64 \<times> bool" where
  "SafeAdd x y = (x + y, y > max_u64 - x)"

definition SafeMul :: "u64 \<Rightarrow> u64 \<Rightarrow> u64 \<times> bool" where
  "SafeMul x y = (if x = 0 \<or> y = 0 then (0, False) else (x * y, y > max_u64 div x))"

subsection \<open>big.go\<close>

abbreviation tt255 :: bigint where "tt255 \<equiv> 2 ^ 255"
abbreviation tt256 :: bigint where "tt256 \<equiv> 2 ^ 256"
abbreviation tt256m1 :: bigint where "tt256m1 \<equiv> 2 ^ 256 - 1"

definition BigMax :: "bigint \<Rightarrow> bigint \<Rightarrow> bigint" where
  "BigMax x y = (if Cmp x y < 0 then y else x)"

definition BigMin :: "bigint \<Rightarrow> bigint \<Rightarrow> bigint" where
  "BigMin x y = (if Cmp x y > 0 then y else x)"

text \<open>The loop of \<open>FirstBitSet\<close>, from index \<open>i\<close>.\<close>

function FirstBitSet_loop :: "bigint \<Rightarrow> nat \<Rightarrow> nat" where
  "FirstBitSet_loop v i =
     (if i < BitLen v then if bit v i then i else FirstBitSet_loop v (Suc i) else BitLen v)"
  by pat_completeness auto
termination
  by (relation "measure (\<lambda>(v, i). BitLen v - i)") auto

declare FirstBitSet_loop.simps [simp del]

definition FirstBitSet :: "bigint \<Rightarrow> nat" where
  "FirstBitSet v = FirstBitSet_loop v 0"

text \<open>
  The two loops of \<open>ReadBits\<close>: \<open>read_word\<close> writes up to eight bytes of one word, from
  index \<open>i\<close> downwards, and \<open>ReadBits\<close> does so for every word of the number.
\<close>

primrec read_word :: "nat \<Rightarrow> u64 \<Rightarrow> bytes \<times> nat \<Rightarrow> bytes \<times> nat" where
  "read_word 0 d s = s"
| "read_word (Suc k) d s =
     (let (buf, i) = s in
      if 0 < i then read_word k (drop_bit 8 d) (buf[i - 1 := ucast d], i - 1) else (buf, i))"

primrec read_words :: "u64 list \<Rightarrow> bytes \<times> nat \<Rightarrow> bytes \<times> nat" where
  "read_words [] s = s"
| "read_words (d # ds) s = read_words ds (read_word 8 d s)"

definition ReadBits :: "bigint \<Rightarrow> bytes \<Rightarrow> bytes" where
  "ReadBits x buf = fst (read_words (Bits x) (buf, length buf))"

definition PaddedBigBytes :: "bigint \<Rightarrow> nat \<Rightarrow> bytes" where
  "PaddedBigBytes x n =
     (if n \<le> BitLen x div 8 then Bytes x else ReadBits x (replicate n 0))"

definition bigEndianByteAt :: "bigint \<Rightarrow> nat \<Rightarrow> byte" where
  "bigEndianByteAt x n =
     (let words = Bits x; i = n div 8 in
      if length words \<le> i then 0 else ucast (drop_bit (8 * (n mod 8)) (words ! i)))"

text \<open>The index is a Go \<open>int\<close>; a negative one is not below the pad length only after the
  subtraction, so the callers' range \<open>0 \<le> n\<close> is the domain of the model.\<close>

definition Byte :: "bigint \<Rightarrow> nat \<Rightarrow> nat \<Rightarrow> byte" where
  "Byte x padlength n = (if padlength \<le> n then 0 else bigEndianByteAt x (padlength - 1 - n))"

definition U256 :: "bigint \<Rightarrow> bigint" where
  "U256 x = x AND tt256m1"

definition S256 :: "bigint \<Rightarrow> bigint" where
  "S256 x = (if Cmp x tt255 < 0 then x else x - tt256)"

text \<open>
  Square-and-multiply over the words of the exponent.  The code works in place on \<open>base\<close>,
  so the model returns the caller's base as well: \<open>(result, base)\<close>.
\<close>

primrec exp_word :: "nat \<Rightarrow> u64 \<Rightarrow> bigint \<times> bigint \<Rightarrow> bigint \<times> bigint" where
  "exp_word 0 w s = s"
| "exp_word (Suc k) w s =
     (let (result, base) = s;
          result' = (if w AND 1 = 1 then U256 (result * base) else result)
      in exp_word k (drop_bit 1 w) (result', U256 (base * base)))"

primrec exp_words :: "u64 list \<Rightarrow> bigint \<times> bigint \<Rightarrow> bigint \<times> bigint" where
  "exp_words [] s = s"
| "exp_words (w # ws) s = exp_words ws (exp_word 64 w s)"

definition Exp :: "bigint \<Rightarrow> bigint \<Rightarrow> bigint \<times> bigint" where
  "Exp base exponent = exp_words (Bits exponent) (1, base)"

subsection \<open>Facts on the big integers\<close>

lemma nat_bitlen_le: "nat_bitlen n \<le> k \<longleftrightarrow> n < 2 ^ k"
proof (induction n arbitrary: k rule: nat_bitlen.induct)
  case (1 n)
  show ?case
  proof (cases "n = 0")
    case True
    then show ?thesis by (simp add: nat_bitlen.simps[of 0])
  next
    case False
    then have "nat_bitlen n = Suc (nat_bitlen (n div 2))" by (simp add: nat_bitlen.simps[of n])
    then show ?thesis using 1[OF False] False by (cases k) (auto simp: div_less_iff_less_mult mult.commute)
  qed
qed

lemma BitLen_le: "BitLen x \<le> k \<longleftrightarrow> \<bar>x\<bar> < 2 ^ k"
  by (simp add: BitLen_def nat_bitlen_le nat_less_iff)

lemma BitLen_gt: "k < BitLen x \<longleftrightarrow> 2 ^ k \<le> \<bar>x\<bar>"
  using BitLen_le[of x k] by auto

lemma uint_Uint64: "uint (Uint64 x) = \<bar>x\<bar> mod 2 ^ 64"
  by (simp add: Uint64_def uint_word_of_int)

lemma Uint64_small: "\<bar>x\<bar> < 2 ^ 64 \<Longrightarrow> uint (Uint64 x) = \<bar>x\<bar>"
  by (simp add: uint_Uint64)

fun words_value :: "u64 list \<Rightarrow> nat" where
  "words_value [] = 0"
| "words_value (w # ws) = unat w + 2 ^ 64 * words_value ws"

lemma words_value_nat_words: "words_value (nat_words n) = n"
proof (induction n rule: nat_words.induct)
  case (1 n)
  then show ?case
    by (cases "n = 0") (simp_all add: nat_words.simps[of n] nat_words.simps[of 0] unat_of_nat)
qed

lemma words_value_Bits: "0 \<le> x \<Longrightarrow> words_value (Bits x) = nat x"
  by (simp add: Bits_def words_value_nat_words)

lemma U256_mod: "U256 x = x mod 2 ^ 256"
  by (simp only: U256_def take_bit_eq_mod[symmetric] take_bit_eq_mask mask_eq_exp_minus_1)

lemma U256_bounds: "0 \<le> U256 x" "U256 x < 2 ^ 256"
  by (simp_all add: U256_mod)

lemma U256_id: "0 \<le> x \<Longrightarrow> x < 2 ^ 256 \<Longrightarrow> U256 x = x"
  by (simp add: U256_mod)

text \<open>The overflow flags say exactly that the mathematical result does not fit.\<close>

lemma SafeSub_spec: "SafeSub x y = (x - y, unat x < unat y)"
  by (simp add: SafeSub_def word_less_nat_alt)

lemma SafeAdd_spec: "SafeAdd x y = (x + y, 2 ^ 64 \<le> unat x + unat y)"
proof -
  have "unat (max_u64 - x) = 2 ^ 64 - 1 - unat x"
    using unat_u64_lt[of x] by (subst unat_sub) (simp_all add: word_le_nat_alt)
  then show ?thesis
    using unat_u64_lt[of x] by (auto simp: SafeAdd_def word_less_nat_alt)
qed

lemma SafeAdd_value: "SafeAdd x y = (z, False) \<Longrightarrow> unat z = unat x + unat y"
  by (auto simp: SafeAdd_spec unat_word_ariths)

lemma SafeMul_spec: "SafeMul x y = (x * y, 2 ^ 64 \<le> unat x * unat y)"
proof (cases "x = 0 \<or> y = 0")
  case True
  then show ?thesis by (auto simp: SafeMul_def)
next
  case False
  then have x: "0 < unat x" by (auto simp: unat_gt_0)
  have "unat (max_u64 div x) = (2 ^ 64 - 1) div unat x"
    by (simp add: unat_div)
  then have "(y > max_u64 div x) = ((2 ^ 64 - 1) div unat x < unat y)"
    by (simp add: word_less_nat_alt)
  also have "\<dots> = (2 ^ 64 - 1 < unat y * unat x)"
    using x by (rule div_less_iff_less_mult)
  finally show ?thesis using False by (auto simp: SafeMul_def mult.commute)
qed

lemma SafeMul_value: "SafeMul x y = (z, False) \<Longrightarrow> unat z = unat x * unat y"
  by (auto simp: SafeMul_spec unat_word_ariths)

subsection \<open>Exponentiation\<close>

lemma exp_word_value:
  assumes "k \<le> 64" and "unat w < 2 ^ k" and "0 \<le> r" and "r < 2 ^ 256"
  shows "fst (exp_word k w (r, b)) = r * b ^ unat w mod 2 ^ 256 \<and>
         snd (exp_word k w (r, b)) mod 2 ^ 256 = b ^ (2 ^ k) mod 2 ^ 256"
  using assms
proof (induction k arbitrary: w r b)
  case 0
  then show ?case by simp
next
  case (Suc k)
  let ?w = "drop_bit 1 w" and ?r = "if w AND 1 = 1 then U256 (r * b) else r" and ?b = "U256 (b * b)"
  have even_word_unat_iff: "even w \<longleftrightarrow> even (unat w)" by transfer (simp add: even_nat_iff)
  have w2: "unat ?w = unat w div 2" by (simp add: drop_bit_Suc unat_div)
  have odd: "w AND 1 = 1 \<longleftrightarrow> odd (unat w)"
    by (simp add: and_one_eq odd_iff_mod_2_eq_one[symmetric] even_word_unat_iff)
  have r: "0 \<le> ?r" "?r < 2 ^ 256" using Suc.prems U256_bounds by auto
  have IH: "fst (exp_word k ?w (?r, ?b)) = ?r * ?b ^ unat ?w mod 2 ^ 256 \<and>
      snd (exp_word k ?w (?r, ?b)) mod 2 ^ 256 = ?b ^ (2 ^ k) mod 2 ^ 256"
    using Suc.IH[of ?w ?r ?b] Suc.prems r w2 by auto
  have sq: "?b ^ n mod 2 ^ 256 = b ^ (2 * n) mod 2 ^ 256" for n
    by (simp add: U256_mod power_mod power_mult power2_eq_square)
  have "?r * ?b ^ unat ?w mod 2 ^ 256 = ?r * b ^ (2 * (unat w div 2)) mod 2 ^ 256"
    using sq[of "unat ?w"] w2 by (metis mod_mult_right_eq)
  also have "\<dots> = r * b ^ unat w mod 2 ^ 256"
  proof (cases "odd (unat w)")
    case True
    then have "unat w = Suc (2 * (unat w div 2))" by presburger
    then have eq: "r * b ^ unat w = (r * b) * b ^ (2 * (unat w div 2))"
      by (metis power_Suc mult.assoc)
    have "?r = r * b mod 2 ^ 256" using True odd by (simp only: if_True U256_mod simp_thms)
    then show ?thesis by (simp only: eq mod_mult_left_eq)
  next
    case False
    then have "2 * (unat w div 2) = unat w" by presburger
    then show ?thesis using False odd by simp
  qed
  finally have res: "?r * ?b ^ unat ?w mod 2 ^ 256 = r * b ^ unat w mod 2 ^ 256" .
  have bas: "?b ^ (2 ^ k) mod 2 ^ 256 = b ^ (2 ^ Suc k) mod 2 ^ 256"
    by (simp only: sq power_Suc)
  have step: "exp_word (Suc k) w (r, b) = exp_word k ?w (?r, ?b)"
    by (simp only: exp_word.simps Let_def prod.case)
  show ?case
    using IH unfolding step res bas .
qed

lemma exp_words_value:
  "0 \<le> r \<Longrightarrow> r < 2 ^ 256 \<Longrightarrow> fst (exp_words ws (r, b)) = r * b ^ words_value ws mod 2 ^ 256"
proof (induction ws arbitrary: r b)
  case Nil
  then show ?case by simp
next
  case (Cons w ws)
  obtain r' b' where e: "exp_word 64 w (r, b) = (r', b')" by fastforce
  have "unat w < 2 ^ 64" using unat_u64_lt[of w] by simp
  with exp_word_value[of 64 w r b] Cons.prems e
  have r': "r' = r * b ^ unat w mod 2 ^ 256" and b': "b' mod 2 ^ 256 = b ^ 2 ^ 64 mod 2 ^ 256" by auto
  have "fst (exp_words ws (r', b')) = r' * b' ^ words_value ws mod 2 ^ 256"
    using r' by (intro Cons.IH) simp_all
  also have "\<dots> = r * b ^ unat w * (b ^ 2 ^ 64) ^ words_value ws mod 2 ^ 256"
  proof -
    have p: "b' ^ n mod 2 ^ 256 = (b ^ 2 ^ 64) ^ n mod 2 ^ 256" for n
      by (simp only: power_mod[of b', symmetric] power_mod[of "b ^ 2 ^ 64", symmetric] b')
    have "(r * b ^ unat w mod 2 ^ 256) * b' ^ words_value ws mod 2 ^ 256 =
        r * b ^ unat w * (b' ^ words_value ws mod 2 ^ 256) mod 2 ^ 256"
      by (simp only: mod_mult_left_eq mod_mult_right_eq)
    then show ?thesis by (simp only: r' p mod_mult_right_eq)
  qed
  also have "\<dots> = r * b ^ words_value (w # ws) mod 2 ^ 256"
    by (simp add: power_add power_mult mult.assoc)
  finally show ?case by (simp add: e)
qed

theorem Exp_correct: "0 \<le> e \<Longrightarrow> fst (Exp b e) = b ^ nat e mod 2 ^ 256"
  using exp_words_value[of 1 "Bits e" b] words_value_Bits[of e] by (simp add: Exp_def)

subsection \<open>Byte encodings\<close>

lemma SetBytes_snoc: "SetBytes (bs @ [b]) = SetBytes bs * 256 + uint b"
  by (simp add: SetBytes_def)

lemma SetBytes_Nil [simp]: "SetBytes [] = 0"
  by (simp add: SetBytes_def)

lemma SetBytes_append: "SetBytes (xs @ ys) = SetBytes xs * 256 ^ length ys + SetBytes ys"
  by (induction ys rule: rev_induct)
    (simp_all add: SetBytes_snoc append_assoc[symmetric] algebra_simps del: append_assoc)

lemma SetBytes_replicate_0 [simp]: "SetBytes (replicate n 0) = 0"
  by (induction n) (simp_all add: SetBytes_def)

lemma SetBytes_bounds: "0 \<le> SetBytes bs" "SetBytes bs < 256 ^ length bs"
proof -
  have "0 \<le> SetBytes bs \<and> SetBytes bs < 256 ^ length bs"
  proof (induction bs rule: rev_induct)
    case Nil
    then show ?case by simp
  next
    case (snoc b bs)
    have "uint b < 256" using uint_lt2p[of b] by simp
    moreover have "SetBytes bs + 1 \<le> 256 ^ length bs" using snoc by simp
    ultimately show ?case using snoc by (simp add: SetBytes_snoc)
  qed
  then show "0 \<le> SetBytes bs" "SetBytes bs < 256 ^ length bs" by auto
qed

lemma SetBytes_Bytes: "0 \<le> x \<Longrightarrow> SetBytes (Bytes x) = x"
proof -
  have "SetBytes (nat_bytes n) = int n" for n
  proof (induction n rule: nat_bytes.induct)
    case (1 n)
    show ?case
    proof (cases "n = 0")
      case True
      then show ?thesis by (simp add: nat_bytes.simps[of 0])
    next
      case False
      then show ?thesis
        using 1 by (simp add: nat_bytes.simps[of n] SetBytes_snoc unsigned_of_nat take_bit_eq_mod zdiv_int zmod_int)
    qed
  qed
  then show "0 \<le> x \<Longrightarrow> SetBytes (Bytes x) = x" by (simp add: Bytes_def)
qed

text \<open>The low \<open>m\<close> bytes of a word, most significant first.\<close>

primrec be_word :: "nat \<Rightarrow> u64 \<Rightarrow> bytes" where
  "be_word 0 d = []"
| "be_word (Suc m) d = be_word m (drop_bit 8 d) @ [ucast d]"

lemma length_be_word [simp]: "length (be_word m d) = m"
  by (induction m arbitrary: d) auto

lemma SetBytes_be_word: "SetBytes (be_word m d) = uint d mod 256 ^ m"
proof (induction m arbitrary: d)
  case 0
  then show ?case by simp
next
  case (Suc m)
  have "uint (drop_bit 8 d) = uint d div 256"
    by (simp add: drop_bit_eq_div uint_div)
  moreover have "uint (ucast d :: byte) = uint d mod 256"
    by (simp add: unsigned_ucast_eq take_bit_eq_mod)
  ultimately show ?case
    by (simp add: Suc SetBytes_snoc zmod_zmult2_eq)
qed

lemma read_word_replicate:
  "read_word k d (replicate i 0 @ ts, i) = (replicate (i - k) 0 @ be_word (min k i) d @ ts, i - k)"
proof (induction k arbitrary: d i ts)
  case 0
  then show ?case by simp
next
  case (Suc k)
  show ?case
  proof (cases i)
    case 0
    then show ?thesis by simp
  next
    case i: (Suc j)
    have "replicate (Suc j) 0 @ ts = replicate j 0 @ (0 :: byte) # ts"
      by (simp add: replicate_append_same[symmetric])
    then have "(replicate (Suc j) 0 @ ts)[j := ucast d] = replicate j 0 @ ucast d # ts"
      by (simp add: list_update_append del: replicate_Suc)
    then show ?thesis
      using Suc.IH[of "drop_bit 8 d" j "ucast d # ts"] i by (simp del: replicate_Suc)
  qed
qed

lemma mod_split_words:
  fixes a b :: int
  assumes "(8::nat) \<le> i"
  shows "(a + 2 ^ 64 * b) mod 256 ^ i = a mod 2 ^ 64 + 2 ^ 64 * ((a div 2 ^ 64 + b) mod 256 ^ (i - 8))"
proof -
  have "(256::int) ^ i = 256 ^ (8 + (i - 8))" using assms by simp
  then have "(256::int) ^ i = 2 ^ 64 * 256 ^ (i - 8)" by (simp only: power_add) simp
  then show ?thesis
    by (simp add: zmod_zmult2_eq add.commute)
qed

lemma mod_low_word: "i < (8::nat) \<Longrightarrow> (a + 2 ^ 64 * b) mod 256 ^ i = a mod 256 ^ i" for a b :: int
proof -
  assume "i < 8"
  then have "(2::int) ^ 64 = 256 ^ (i + (8 - i))" by simp
  then have "(2::int) ^ 64 = 256 ^ i * 256 ^ (8 - i)" by (simp only: power_add)
  then have "2 ^ 64 * b = 256 ^ i * (256 ^ (8 - i) * b)" by simp
  then show ?thesis by (metis mod_mult_self2)
qed

lemma read_words_value:
  "SetBytes (fst (read_words ws (replicate i 0 @ ts, i))) =
     SetBytes ts + 256 ^ length ts * (int (words_value ws) mod 256 ^ i) \<and>
   length (fst (read_words ws (replicate i 0 @ ts, i))) = i + length ts"
proof (induction ws arbitrary: i ts)
  case Nil
  then show ?case by (simp add: SetBytes_append)
next
  case (Cons w ws)
  let ?ts = "be_word (min 8 i) w @ ts" and ?v = "int (words_value ws)"
  have IH: "SetBytes (fst (read_words ws (replicate (i - 8) 0 @ ?ts, i - 8))) =
      SetBytes ?ts + 256 ^ length ?ts * (?v mod 256 ^ (i - 8))"
    "length (fst (read_words ws (replicate (i - 8) 0 @ ?ts, i - 8))) = i - 8 + length ?ts"
    using Cons.IH by blast+
  have val: "SetBytes ?ts + 256 ^ length ?ts * (?v mod 256 ^ (i - 8)) =
      SetBytes ts + 256 ^ length ts * (int (words_value (w # ws)) mod 256 ^ i)"
  proof (cases "8 \<le> i")
    case True
    have w: "uint w mod 2 ^ 64 = uint w" "uint w div 2 ^ 64 = 0"
      using uint_lt2p[of w] by simp_all
    have "int (words_value (w # ws)) = uint w + 2 ^ 64 * ?v" by simp
    then have "int (words_value (w # ws)) mod 256 ^ i = uint w + 2 ^ 64 * (?v mod 256 ^ (i - 8))"
      using mod_split_words[OF True, of "uint w" ?v] w by (simp only: add_0)
    then show ?thesis
      using True w by (simp add: SetBytes_append SetBytes_be_word power_add algebra_simps)
  next
    case False
    have "int (words_value (w # ws)) = uint w + 2 ^ 64 * ?v" by simp
    then have "int (words_value (w # ws)) mod 256 ^ i = uint w mod 256 ^ i"
      using mod_low_word[of i "uint w" ?v] False by (simp only: not_le)
    then show ?thesis
      using False by (simp add: SetBytes_append SetBytes_be_word algebra_simps)
  qed
  have "i - 8 + length ?ts = i + length ts" by simp
  with IH show ?case by (simp only: read_words.simps read_word_replicate val)
qed

theorem ReadBits_value:
  assumes "0 \<le> x"
  shows "SetBytes (ReadBits x (replicate n 0)) = x mod 256 ^ n" and "length (ReadBits x (replicate n 0)) = n"
  using read_words_value[of "Bits x" n "[]"] assms by (simp_all add: ReadBits_def words_value_Bits)

lemma nth_nat_words:
  "(if i < length (nat_words n) then unat (nat_words n ! i) else 0) = n div 2 ^ (64 * i) mod 2 ^ 64"
proof (induction n arbitrary: i rule: nat_words.induct)
  case (1 n)
  show ?case
  proof (cases "n = 0")
    case True
    then show ?thesis by (simp add: nat_words.simps[of 0])
  next
    case False
    show ?thesis
    proof (cases i)
      case 0
      then show ?thesis using False by (simp add: nat_words.simps[of n] unsigned_of_nat take_bit_eq_mod)
    next
      case (Suc j)
      have "n div 2 ^ (64 * Suc j) = n div 2 ^ 64 div 2 ^ (64 * j)"
        by (simp only: div_mult2_eq[symmetric] power_add[symmetric] mult_Suc_right)
      then show ?thesis using 1[OF False, of j] False Suc by (simp add: nat_words.simps[of n] split: if_splits)
    qed
  qed
qed

theorem bigEndianByteAt_value:
  assumes "0 \<le> x"
  shows "uint (bigEndianByteAt x n) = x div 256 ^ n mod 256"
proof -
  let ?i = "n div 8" and ?s = "8 * (n mod 8)"
  have "8 * ?i + n mod 8 = n" "n mod 8 < 8" by simp_all
  then have n: "64 * ?i + ?s = 8 * n" and s: "?s + 8 \<le> 64" by linarith+
  define w where "w = nat x div 2 ^ (64 * ?i) mod 2 ^ 64"
  have w: "w = take_bit 64 (drop_bit (64 * ?i) (nat x))"
    by (simp only: w_def take_bit_eq_mod drop_bit_eq_div)
  have nw: "(if ?i < length (Bits x) then unat (Bits x ! ?i) else 0) = w"
    using nth_nat_words[of ?i "nat x"] assms by (simp only: w_def Bits_def abs_of_nonneg)
  have tw: "take_bit 64 w = w" by (simp add: w)
  have "unat (bigEndianByteAt x n) = take_bit 8 (drop_bit ?s w)"
  proof (cases "?i < length (Bits x)")
    case True
    then have "unat (Bits x ! ?i) = w" using nw by simp
    then show ?thesis using True tw
      by (simp add: bigEndianByteAt_def Let_def unsigned_ucast_eq unsigned_drop_bit_eq)
  next
    case False
    then have "w = 0" using nw by simp
    then show ?thesis using False by (simp add: bigEndianByteAt_def Let_def)
  qed
  also have "\<dots> = take_bit 8 (drop_bit (8 * n) (nat x))"
    unfolding w n[symmetric] using s
    by (intro bit_eqI) (auto simp: bit_take_bit_iff bit_drop_bit_eq add.assoc add.commute)
  also have "\<dots> = nat x div 256 ^ n mod 256"
    by (simp add: take_bit_eq_mod drop_bit_eq_div power_mult)
  finally have "int (unat (bigEndianByteAt x n)) = int (nat x div 256 ^ n mod 256)" by simp
  then show ?thesis using assms by (simp add: zdiv_int zmod_int)
qed

end
