(* ===== verification/Tx_Types.thy ===== *)
theory Tx_Types
  imports Common_Math
begin

text \<open>
  Transactions and messages (\<open>core/types/transaction.go\<close>) and the signer rules
  (\<open>core/types/transaction_signing.go\<close>).  A \<open>Transaction\<close> is its \<open>txdata\<close>; the atomic
  caches of its hash, size and sender hold nothing that is not computed from it.  Hashing an
  RLP encoding and recovering a public key are cryptography outside the model: they are the
  arguments \<open>sighash\<close> and \<open>ecrecover\<close> of the definitions that use them.
\<close>

subsection \<open>transaction.go\<close>

record transaction =
  AccountNonce :: u64
  Price :: bigint
  GasLimit :: u64
  Recipient :: "address option"
  Amount :: bigint
  Payload :: bytes
  sigV :: bigint
  sigR :: bigint
  sigS :: bigint

definition newTransaction ::
  "u64 \<Rightarrow> address option \<Rightarrow> bigint option \<Rightarrow> u64 \<Rightarrow> bigint option \<Rightarrow> bytes \<Rightarrow> transaction" where
  "newTransaction nonce rcpt amount gasLimit gasPrice data =
     \<lparr>AccountNonce = nonce, Price = (case gasPrice of None \<Rightarrow> 0 | Some p \<Rightarrow> p), GasLimit = gasLimit,
      Recipient = rcpt, Amount = (case amount of None \<Rightarrow> 0 | Some a \<Rightarrow> a), Payload = data,
      sigV = 0, sigR = 0, sigS = 0\<rparr>"

definition NewTransaction ::
  "u64 \<Rightarrow> address \<Rightarrow> bigint option \<Rightarrow> u64 \<Rightarrow> bigint option \<Rightarrow> bytes \<Rightarrow> transaction" where
  "NewTransaction nonce rcpt amount gasLimit gasPrice data =
     newTransaction nonce (Some rcpt) amount gasLimit gasPrice data"

definition NewContractCreation ::
  "u64 \<Rightarrow> bigint option \<Rightarrow> u64 \<Rightarrow> bigint option \<Rightarrow> bytes \<Rightarrow> transaction" where
  "NewContractCreation nonce amount gasLimit gasPrice data =
     newTransaction nonce None amount gasLimit gasPrice data"

definition isProtectedV :: "bigint \<Rightarrow> bool" where
  "isProtectedV v = (if BitLen v \<le> 8 then Uint64 v \<noteq> 27 \<and> Uint64 v \<noteq> 28 else True)"

definition Protected :: "transaction \<Rightarrow> bool" where
  "Protected tx = isProtectedV (sigV tx)"

definition Cost :: "transaction \<Rightarrow> bigint" where
  "Cost tx = Price tx * uint (GasLimit tx) + Amount tx"

text \<open>The transactions of \<open>a\<close> whose hash is not the hash of one in \<open>b\<close>.\<close>

definition TxDifference ::
  "(transaction \<Rightarrow> hash) \<Rightarrow> transaction list \<Rightarrow> transaction list \<Rightarrow> transaction list" where
  "TxDifference txHash a b =
     (let remove = map txHash b in filter (\<lambda>tx. txHash tx \<notin> set remove) a)"

record message =
  msg_to :: "address option"
  msg_from :: address
  msg_nonce :: u64
  msg_amount :: bigint
  msg_gasLimit :: u64
  msg_gasPrice :: bigint
  msg_data :: bytes
  msg_checkNonce :: bool

subsection \<open>transaction_signing.go\<close>

definition deriveChainId :: "bigint \<Rightarrow> bigint" where
  "deriveChainId v =
     (if BitLen v \<le> 64
      then let w = Uint64 v in if w = 27 \<or> w = 28 then 0 else uint ((w - 35) div 2)
      else (v - 35) div 2)"

datatype signer = EIP155Signer bigint bigint | HomesteadSigner | FrontierSigner

definition NewEIP155Signer :: "bigint option \<Rightarrow> signer" where
  "NewEIP155Signer chainId =
     (let c = (case chainId of None \<Rightarrow> 0 | Some c \<Rightarrow> c) in EIP155Signer c (c * 2))"

fun signer_Equal :: "signer \<Rightarrow> signer \<Rightarrow> bool" where
  "signer_Equal (EIP155Signer c _) s2 = (case s2 of EIP155Signer c2 _ \<Rightarrow> Cmp c2 c = 0 | _ \<Rightarrow> False)"
| "signer_Equal HomesteadSigner s2 = (s2 = HomesteadSigner)"
| "signer_Equal FrontierSigner s2 = (s2 = FrontierSigner)"

datatype sig_error = ErrInvalidSig | ErrInvalidChainId | ErrInvalidPublicKey | ErrEcrecover

text \<open>The order of the secp256k1 group and half of it.\<close>

definition secp256k1N :: bigint where
  "secp256k1N = 115792089237316195423570985008687907852837564279074904382605163141518161494337"

definition secp256k1halfN :: bigint where
  "secp256k1halfN = secp256k1N div 2"

definition ValidateSignatureValues :: "byte \<Rightarrow> bigint \<Rightarrow> bigint \<Rightarrow> bool \<Rightarrow> bool" where
  "ValidateSignatureValues v r s homestead =
     (if Cmp r 1 < 0 \<or> Cmp s 1 < 0 then False
      else if homestead \<and> Cmp s secp256k1halfN > 0 then False
      else Cmp r secp256k1N < 0 \<and> Cmp s secp256k1N < 0 \<and> (v = 0 \<or> v = 1))"

text \<open>
  \<open>ecrecover\<close> and \<open>keccak\<close> are the cryptographic primitives: the first returns the
  uncompressed public key of a 65-byte signature over a hash, or fails.
\<close>

definition recoverPlain ::
  "(hash \<Rightarrow> bytes \<Rightarrow> bytes option) \<Rightarrow> (bytes \<Rightarrow> hash) \<Rightarrow> hash \<Rightarrow> bigint \<Rightarrow> bigint \<Rightarrow> bigint \<Rightarrow> bool \<Rightarrow>
   sig_error + address" where
  "recoverPlain ecrecover keccak sighash r s vb homestead =
     (if 8 < BitLen vb then Inl ErrInvalidSig
      else let v = (ucast (Uint64 vb - 27) :: byte) in
        if \<not> ValidateSignatureValues v r s homestead then Inl ErrInvalidSig
        else let sig = replicate (32 - length (Bytes r)) 0 @ Bytes r @
                       replicate (32 - length (Bytes s)) 0 @ Bytes s @ [v] in
          case ecrecover sighash sig of
            None \<Rightarrow> Inl ErrEcrecover
          | Some pub \<Rightarrow>
              (case pub of
                 [] \<Rightarrow> Inl ErrInvalidPublicKey
               | b # key \<Rightarrow> if b \<noteq> 4 then Inl ErrInvalidPublicKey else Inr (ucast (keccak key))))"

text \<open>
  What a signer signs: \<open>sighash None\<close> hashes the six transaction fields (Frontier and
  Homestead), \<open>sighash (Some c)\<close> the six fields followed by the chain id and two zeros.
\<close>

fun signer_Sender ::
  "(hash \<Rightarrow> bytes \<Rightarrow> bytes option) \<Rightarrow> (bytes \<Rightarrow> hash) \<Rightarrow> (bigint option \<Rightarrow> transaction \<Rightarrow> hash) \<Rightarrow>
   signer \<Rightarrow> transaction \<Rightarrow> sig_error + address" where
  "signer_Sender ec kc sh FrontierSigner tx =
     recoverPlain ec kc (sh None tx) (sigR tx) (sigS tx) (sigV tx) False"
| "signer_Sender ec kc sh HomesteadSigner tx =
     recoverPlain ec kc (sh None tx) (sigR tx) (sigS tx) (sigV tx) True"
| "signer_Sender ec kc sh (EIP155Signer chainId chainIdMul) tx =
     (if \<not> Protected tx
      then recoverPlain ec kc (sh None tx) (sigR tx) (sigS tx) (sigV tx) True
      else if Cmp (deriveChainId (sigV tx)) chainId \<noteq> 0 then Inl ErrInvalidChainId
      else recoverPlain ec kc (sh (Some chainId) tx) (sigR tx) (sigS tx) (sigV tx - chainIdMul - 8) True)"

text \<open>\<open>SignatureValues\<close> panics on a signature that is not 65 bytes long: \<open>None\<close>.\<close>

definition frontier_SignatureValues :: "bytes \<Rightarrow> (bigint \<times> bigint \<times> bigint) option" where
  "frontier_SignatureValues sig =
     (if length sig \<noteq> 65 then None
      else Some (SetBytes (take 32 sig), SetBytes (take 32 (drop 32 sig)), SetBytes [sig ! 64 + 27]))"

fun signer_SignatureValues :: "signer \<Rightarrow> bytes \<Rightarrow> (bigint \<times> bigint \<times> bigint) option" where
  "signer_SignatureValues FrontierSigner sig = frontier_SignatureValues sig"
| "signer_SignatureValues HomesteadSigner sig = frontier_SignatureValues sig"
| "signer_SignatureValues (EIP155Signer chainId chainIdMul) sig =
     (case frontier_SignatureValues sig of
        None \<Rightarrow> None
      | Some (r, s, v) \<Rightarrow>
          Some (r, s, if chainId \<noteq> 0 then uint (sig ! 64 + 35) + chainIdMul else v))"

definition WithSignature :: "transaction \<Rightarrow> signer \<Rightarrow> bytes \<Rightarrow> transaction option" where
  "WithSignature tx s sig =
     (case signer_SignatureValues s sig of
        None \<Rightarrow> None
      | Some (r, sv, v) \<Rightarrow> Some (tx\<lparr>sigR := r, sigS := sv, sigV := v\<rparr>))"

definition AsMessage ::
  "(transaction \<Rightarrow> sig_error + address) \<Rightarrow> transaction \<Rightarrow> sig_error + message" where
  "AsMessage sender tx =
     (case sender tx of
        Inl e \<Rightarrow> Inl e
      | Inr from \<Rightarrow>
          Inr \<lparr>msg_to = Recipient tx, msg_from = from, msg_nonce = AccountNonce tx,
               msg_amount = Amount tx, msg_gasLimit = GasLimit tx, msg_gasPrice = Price tx,
               msg_data = Payload tx, msg_checkNonce = True\<rparr>)"

subsection \<open>Facts\<close>

lemma Uint64_eq_numeral:
  "0 \<le> v \<Longrightarrow> v < 2 ^ 64 \<Longrightarrow> Uint64 v = word_of_int k \<longleftrightarrow> v = k mod 2 ^ 64"
  by (simp add: word_uint_eq_iff uint_Uint64 uint_word_of_int)

lemma isProtectedV_iff: "0 \<le> v \<Longrightarrow> isProtectedV v \<longleftrightarrow> v \<noteq> 27 \<and> v \<noteq> 28"
proof -
  assume v: "0 \<le> v"
  show ?thesis
  proof (cases "BitLen v \<le> 8")
    case True
    then have "v < 2 ^ 64" using v by (simp add: BitLen_le)
    then show ?thesis
      using True v Uint64_eq_numeral[of v 27] Uint64_eq_numeral[of v 28] by (simp add: isProtectedV_def)
  next
    case False
    then show ?thesis using v by (auto simp: isProtectedV_def BitLen_le)
  qed
qed

lemma deriveChainId_eip155:
  assumes "0 < c" and "0 \<le> b" and "b < 2"
  shows "deriveChainId (b + 35 + 2 * c) = c"
proof (cases "BitLen (b + 35 + 2 * c) \<le> 64")
  case True
  let ?v = "b + 35 + 2 * c"
  have v: "?v < 2 ^ 64" "0 \<le> ?v" using True assms by (auto simp: BitLen_le)
  have ne: "Uint64 ?v \<noteq> 27" "Uint64 ?v \<noteq> 28"
    using Uint64_eq_numeral[OF v(2,1), of 27] Uint64_eq_numeral[OF v(2,1), of 28] assms by auto
  have "uint (Uint64 ?v) = ?v" using v by (simp add: Uint64_small)
  moreover have "uint (Uint64 ?v - 35) = uint (Uint64 ?v) - 35"
    using v calculation assms by (simp add: uint_word_ariths)
  ultimately have "uint ((Uint64 ?v - 35) div 2) = (b + 2 * c) div 2"
    by (simp add: uint_div)
  then show ?thesis using True ne assms by (simp add: deriveChainId_def Let_def)
next
  case False
  then show ?thesis using assms by (simp add: deriveChainId_def)
qed

lemma uint_byte_add: "uint a + uint b < 256 \<Longrightarrow> uint (a + b) = uint a + uint b" for a b :: byte
  by (simp add: uint_word_ariths)

text \<open>
  Signing for a chain and recovering with the same signer hands the recovery routine exactly
  the signature's recovery id, and the chain id check passes.
\<close>

lemma eip155_sign_recover:
  assumes "0 < c" and "length sig = 65" and "sig ! 64 < 2"
    and "WithSignature tx (NewEIP155Signer (Some c)) sig = Some tx'"
  shows "deriveChainId (sigV tx') = c"
    and "signer_Sender ec kc sh (NewEIP155Signer (Some c)) tx' =
         recoverPlain ec kc (sh (Some c) tx') (SetBytes (take 32 sig)) (SetBytes (take 32 (drop 32 sig)))
           (uint (sig ! 64) + 27) True"
proof -
  let ?b = "uint (sig ! 64)"
  have b: "0 \<le> ?b" "?b < 2" using assms(3) by (simp_all add: word_less_def)
  have v: "uint (sig ! 64 + 35) = ?b + 35" using b by (simp add: uint_byte_add)
  have tx': "tx' = tx\<lparr>sigR := SetBytes (take 32 sig), sigS := SetBytes (take 32 (drop 32 sig)),
      sigV := ?b + 35 + 2 * c\<rparr>"
    using assms(1,2,4) v
    by (simp add: WithSignature_def NewEIP155Signer_def frontier_SignatureValues_def Let_def mult.commute)
  then show chain: "deriveChainId (sigV tx') = c"
    using deriveChainId_eip155[OF assms(1) b] by simp
  have "sigV tx' = ?b + 35 + 2 * c" using tx' by simp
  moreover have "0 \<le> ?b + 35 + 2 * c" "?b + 35 + 2 * c \<noteq> 27" "?b + 35 + 2 * c \<noteq> 28"
    using b assms(1) by linarith+
  ultimately have "Protected tx'" by (simp only: Protected_def isProtectedV_iff) simp
  then show "signer_Sender ec kc sh (NewEIP155Signer (Some c)) tx' =
         recoverPlain ec kc (sh (Some c) tx') (SetBytes (take 32 sig)) (SetBytes (take 32 (drop 32 sig)))
           (?b + 27) True"
    using chain tx' by (simp add: NewEIP155Signer_def Cmp_def Let_def algebra_simps)
qed

lemma TxDifference_set:
  "set (TxDifference h a b) = {tx \<in> set a. \<forall>t \<in> set b. h t \<noteq> h tx}"
  by (fastforce simp: TxDifference_def Let_def image_iff)

end
