(* ===== verification/Go_Heap.thy ===== *)
theory Go_Heap
  imports Go_Prelude
begin

text \<open>
  The heap of Go's standard library, \<open>container/heap\<close>, over a slice and a \<open>Less\<close>
  function: the program keeps its nonce heaps, price heaps and the miner's transaction heads
  in it.  \<open>heap_up\<close> and \<open>heap_down\<close> are the library's two sifting loops, and
  \<open>heap_init\<close>, \<open>heap_push\<close>, \<open>heap_pop\<close> and \<open>heap_remove\<close> the
  operations built on them.  The locale \<open>weak_order\<close> states what a \<open>Less\<close> function has
  to satisfy; inside it the operations are shown to keep the heap order and the multiset of
  elements, and popping to return a least element.
\<close>

subsection \<open>Definitions\<close>

definition parent :: "nat \<Rightarrow> nat" where
  "parent k = (k - 1) div 2"

lemma parent_less [simp]: "0 < k \<Longrightarrow> parent k < k"
  by (auto simp: parent_def)

lemma parent_eq_iff: "parent k = k \<longleftrightarrow> k = 0"
  by (auto simp: parent_def)

lemma parent_child: "0 < k \<Longrightarrow> parent k = i \<longleftrightarrow> k = 2 * i + 1 \<or> k = 2 * i + 2"
  by (auto simp: parent_def)

lemma parent_le [simp]: "parent k \<le> k"
  by (simp add: parent_def)

function heap_up :: "('a \<Rightarrow> 'a \<Rightarrow> bool) \<Rightarrow> 'a list \<Rightarrow> nat \<Rightarrow> 'a list" where
  "heap_up lt xs j =
     (let i = parent j in
      if i = j \<or> \<not> lt (xs ! j) (xs ! i) then xs
      else heap_up lt (swap xs i j) i)"
  by pat_completeness auto
termination
  by (relation "measure (\<lambda>(lt, xs, j). j)") (auto simp: parent_eq_iff)

function heap_down :: "('a \<Rightarrow> 'a \<Rightarrow> bool) \<Rightarrow> 'a list \<Rightarrow> nat \<Rightarrow> nat \<Rightarrow> 'a list \<times> nat" where
  "heap_down lt xs i n =
     (let j1 = 2 * i + 1 in
      if n \<le> j1 then (xs, i)
      else let j = (if j1 + 1 < n \<and> lt (xs ! (j1 + 1)) (xs ! j1) then j1 + 1 else j1) in
           if \<not> lt (xs ! j) (xs ! i) then (xs, i)
           else heap_down lt (swap xs i j) j n)"
  by pat_completeness auto
termination
  by (relation "measure (\<lambda>(lt, xs, i, n). n - i)") (auto split: if_splits)

declare heap_up.simps [simp del] heap_down.simps [simp del]

text \<open>\<open>heap_init_loop lt n k\<close> runs the loop of \<open>heap.Init\<close> for the indices \<open>k-1, ..., 0\<close>.\<close>

primrec heap_init_loop :: "('a \<Rightarrow> 'a \<Rightarrow> bool) \<Rightarrow> nat \<Rightarrow> nat \<Rightarrow> 'a list \<Rightarrow> 'a list" where
  "heap_init_loop lt n 0 xs = xs"
| "heap_init_loop lt n (Suc k) xs = heap_init_loop lt n k (fst (heap_down lt xs k n))"

definition heap_init :: "('a \<Rightarrow> 'a \<Rightarrow> bool) \<Rightarrow> 'a list \<Rightarrow> 'a list" where
  "heap_init lt xs = heap_init_loop lt (length xs) (length xs div 2) xs"

definition heap_push :: "('a \<Rightarrow> 'a \<Rightarrow> bool) \<Rightarrow> 'a list \<Rightarrow> 'a \<Rightarrow> 'a list" where
  "heap_push lt xs x = heap_up lt (xs @ [x]) (length xs)"

text \<open>Popping an empty heap and removing out of range panic with an index error: \<open>None\<close>.\<close>

definition heap_pop :: "('a \<Rightarrow> 'a \<Rightarrow> bool) \<Rightarrow> 'a list \<Rightarrow> ('a \<times> 'a list) option" where
  "heap_pop lt xs =
     (if xs = [] then None
      else let n = length xs - 1;
               ys = fst (heap_down lt (swap xs 0 n) 0 n)
           in Some (ys ! n, take n ys))"

definition heap_remove :: "('a \<Rightarrow> 'a \<Rightarrow> bool) \<Rightarrow> 'a list \<Rightarrow> nat \<Rightarrow> ('a \<times> 'a list) option" where
  "heap_remove lt xs i =
     (if length xs \<le> i then None
      else let n = length xs - 1;
               zs = (if n \<noteq> i
                     then let (ys, k) = heap_down lt (swap xs i n) i n
                          in if i < k then ys else heap_up lt ys i
                     else xs)
           in Some (zs ! n, take n zs))"

text \<open>The heap order on the first \<open>n\<close> elements, for parents at index \<open>m\<close> or above.\<close>

definition heap_from :: "('a \<Rightarrow> 'a \<Rightarrow> bool) \<Rightarrow> nat \<Rightarrow> nat \<Rightarrow> 'a list \<Rightarrow> bool" where
  "heap_from lt m n xs \<longleftrightarrow>
     (\<forall>k. 0 < k \<and> k < n \<and> m \<le> parent k \<longrightarrow> \<not> lt (xs ! k) (xs ! parent k))"

abbreviation is_heap :: "('a \<Rightarrow> 'a \<Rightarrow> bool) \<Rightarrow> 'a list \<Rightarrow> bool" where
  "is_heap lt xs \<equiv> heap_from lt 0 (length xs) xs"

text \<open>
  The order with a hole at index \<open>i\<close>: nothing is known of \<open>i\<close> against its parent and its
  children, but the parent of \<open>i\<close> is in order with the children of \<open>i\<close>.
\<close>

definition heap_hole :: "('a \<Rightarrow> 'a \<Rightarrow> bool) \<Rightarrow> nat \<Rightarrow> nat \<Rightarrow> nat \<Rightarrow> 'a list \<Rightarrow> bool" where
  "heap_hole lt m n i xs \<longleftrightarrow>
     (\<forall>k. 0 < k \<and> k < n \<and> m \<le> parent k \<and> parent k \<noteq> i \<and> k \<noteq> i \<longrightarrow>
          \<not> lt (xs ! k) (xs ! parent k)) \<and>
     (\<forall>k. 0 < k \<and> k < n \<and> parent k = i \<and> 0 < i \<and> m \<le> parent i \<longrightarrow>
          \<not> lt (xs ! k) (xs ! parent i))"

definition heap_children :: "('a \<Rightarrow> 'a \<Rightarrow> bool) \<Rightarrow> nat \<Rightarrow> nat \<Rightarrow> 'a list \<Rightarrow> bool" where
  "heap_children lt n i xs \<longleftrightarrow> (\<forall>k. 0 < k \<and> k < n \<and> parent k = i \<longrightarrow> \<not> lt (xs ! k) (xs ! i))"

subsection \<open>Shape and contents are kept\<close>

lemma heap_up_stop:
  "j = 0 \<or> \<not> lt (xs ! j) (xs ! parent j) \<Longrightarrow> heap_up lt xs j = xs"
  by (subst heap_up.simps) (auto simp: Let_def parent_eq_iff)

lemma heap_up_move:
  "0 < j \<Longrightarrow> lt (xs ! j) (xs ! parent j) \<Longrightarrow> heap_up lt xs j = heap_up lt (swap xs (parent j) j) (parent j)"
  by (subst heap_up.simps) (auto simp: Let_def parent_eq_iff)

lemma heap_up_induct [case_names stop move]:
  assumes "\<And>xs j. j = 0 \<or> \<not> lt (xs ! j) (xs ! parent j) \<Longrightarrow> P xs j"
    and "\<And>xs j. 0 < j \<Longrightarrow> lt (xs ! j) (xs ! parent j) \<Longrightarrow> P (swap xs (parent j) j) (parent j) \<Longrightarrow> P xs j"
  shows "P xs j"
proof (induction j arbitrary: xs rule: less_induct)
  case (less j)
  show ?case
  proof (cases "j = 0 \<or> \<not> lt (xs ! j) (xs ! parent j)")
    case True
    then show ?thesis by (rule assms(1))
  next
    case False
    then have j: "0 < j" "lt (xs ! j) (xs ! parent j)" by auto
    then have "parent j < j" by simp
    then have "P (swap xs (parent j) j) (parent j)" by (rule less)
    with j show ?thesis by (rule assms(2))
  qed
qed

lemma length_heap_up [simp]: "length (heap_up lt xs j) = length xs"
  by (induction xs j rule: heap_up_induct[where lt = lt]) (simp_all add: heap_up_stop heap_up_move)

lemma mset_heap_up [simp]: "j < length xs \<Longrightarrow> mset (heap_up lt xs j) = mset xs"
proof (induction xs j rule: heap_up_induct[where lt = lt])
  case (move xs j)
  moreover have "parent j < length xs" using move.prems parent_le[of j] by linarith
  ultimately show ?case by (simp add: heap_up_move)
qed (simp add: heap_up_stop)

lemma heap_up_above: "j < k \<Longrightarrow> heap_up lt xs j ! k = xs ! k"
proof (induction xs j rule: heap_up_induct[where lt = lt])
  case (move xs j)
  moreover have "parent j < k" using move.prems parent_le[of j] by linarith
  ultimately show ?case by (simp add: heap_up_move nth_swap_other)
qed (simp add: heap_up_stop)

text \<open>The child that \<open>heap.down\<close> compares with, and the loop in terms of it.\<close>

definition heap_child :: "('a \<Rightarrow> 'a \<Rightarrow> bool) \<Rightarrow> 'a list \<Rightarrow> nat \<Rightarrow> nat \<Rightarrow> nat" where
  "heap_child lt xs i n =
     (if 2 * i + 2 < n \<and> lt (xs ! (2 * i + 2)) (xs ! (2 * i + 1)) then 2 * i + 2 else 2 * i + 1)"

lemma heap_down_stop:
  "n \<le> 2 * i + 1 \<or> \<not> lt (xs ! heap_child lt xs i n) (xs ! i) \<Longrightarrow> heap_down lt xs i n = (xs, i)"
  by (subst heap_down.simps) (auto simp: Let_def heap_child_def)

lemma heap_down_move:
  "2 * i + 1 < n \<Longrightarrow> lt (xs ! heap_child lt xs i n) (xs ! i) \<Longrightarrow>
   heap_down lt xs i n = heap_down lt (swap xs i (heap_child lt xs i n)) (heap_child lt xs i n) n"
  by (subst heap_down.simps) (auto simp: Let_def heap_child_def)

lemma heap_child_bounds:
  "2 * i + 1 < n \<Longrightarrow> i < heap_child lt xs i n \<and> heap_child lt xs i n < n \<and> parent (heap_child lt xs i n) = i"
  by (auto simp: heap_child_def parent_def)

lemma heap_down_induct [case_names stop move]:
  assumes "\<And>xs i. n \<le> 2 * i + 1 \<or> \<not> lt (xs ! heap_child lt xs i n) (xs ! i) \<Longrightarrow> P xs i"
    and "\<And>xs i. 2 * i + 1 < n \<Longrightarrow> lt (xs ! heap_child lt xs i n) (xs ! i) \<Longrightarrow>
           P (swap xs i (heap_child lt xs i n)) (heap_child lt xs i n) \<Longrightarrow> P xs i"
  shows "P xs i"
proof (induction "n - i" arbitrary: xs i rule: less_induct)
  case less
  show ?case
  proof (cases "n \<le> 2 * i + 1 \<or> \<not> lt (xs ! heap_child lt xs i n) (xs ! i)")
    case True
    then show ?thesis by (rule assms(1))
  next
    case False
    then have i: "2 * i + 1 < n" "lt (xs ! heap_child lt xs i n) (xs ! i)" by auto
    from heap_child_bounds[OF i(1)] have "n - heap_child lt xs i n < n - i"
      by (metis diff_less_mono2 less_trans)
    then have "P (swap xs i (heap_child lt xs i n)) (heap_child lt xs i n)" by (rule less)
    with i show ?thesis by (rule assms(2))
  qed
qed

lemma heap_down_props:
  "n \<le> length xs \<Longrightarrow> i < n \<or> n = 0 \<Longrightarrow>
   length (fst (heap_down lt xs i n)) = length xs \<and>
   mset (fst (heap_down lt xs i n)) = mset xs \<and>
   (\<forall>k. n \<le> k \<longrightarrow> fst (heap_down lt xs i n) ! k = xs ! k) \<and>
   i \<le> snd (heap_down lt xs i n)"
proof (induction xs i rule: heap_down_induct[where lt = lt and n = n])
  case (stop xs i)
  then show ?case by (simp add: heap_down_stop)
next
  case (move xs i)
  have eq: "heap_down lt xs i n = heap_down lt (swap xs i (heap_child lt xs i n)) (heap_child lt xs i n) n"
    using move.hyps by (rule heap_down_move)
  note b = heap_child_bounds[OF move.hyps(1), of lt xs]
  have "i < length xs" "heap_child lt xs i n < length xs" using b move.prems by auto
  moreover have "swap xs i (heap_child lt xs i n) ! k = xs ! k" if "n \<le> k" for k
    using that b by (intro nth_swap_other) auto
  moreover have "i \<le> heap_child lt xs i n" "heap_child lt xs i n < n" using b by simp_all
  ultimately show ?case
    using move.IH move.prems(1) unfolding eq by simp
qed

lemma length_heap_down [simp]:
  "n \<le> length xs \<Longrightarrow> i < n \<or> n = 0 \<Longrightarrow> length (fst (heap_down lt xs i n)) = length xs"
  using heap_down_props[of n xs i lt] by simp

lemma mset_heap_down [simp]:
  "n \<le> length xs \<Longrightarrow> i < n \<or> n = 0 \<Longrightarrow> mset (fst (heap_down lt xs i n)) = mset xs"
  using heap_down_props[of n xs i lt] by simp

lemma heap_down_above:
  "n \<le> length xs \<Longrightarrow> i < n \<or> n = 0 \<Longrightarrow> n \<le> k \<Longrightarrow> fst (heap_down lt xs i n) ! k = xs ! k"
  using heap_down_props[of n xs i lt] by simp

lemma heap_down_ge:
  "n \<le> length xs \<Longrightarrow> i < n \<or> n = 0 \<Longrightarrow> i \<le> snd (heap_down lt xs i n)"
  using heap_down_props[of n xs i lt] by simp

lemma heap_pop_shrinks: "heap_pop lt xs = Some (x, ys) \<Longrightarrow> length ys < length xs"
  by (cases xs) (auto simp: heap_pop_def Let_def min_less_iff_disj)

subsection \<open>The heap order\<close>

lemma heap_holeD1:
  "heap_hole lt m n i xs \<Longrightarrow> 0 < k \<Longrightarrow> k < n \<Longrightarrow> m \<le> parent k \<Longrightarrow> parent k \<noteq> i \<Longrightarrow> k \<noteq> i \<Longrightarrow>
   \<not> lt (xs ! k) (xs ! parent k)"
  unfolding heap_hole_def by blast

lemma heap_holeD2:
  "heap_hole lt m n i xs \<Longrightarrow> 0 < k \<Longrightarrow> k < n \<Longrightarrow> parent k = i \<Longrightarrow> 0 < i \<Longrightarrow> m \<le> parent i \<Longrightarrow>
   \<not> lt (xs ! k) (xs ! parent i)"
  unfolding heap_hole_def by blast

lemma heap_fill:
  assumes "heap_hole lt m n i xs" and "heap_children lt n i xs"
    and "i = 0 \<or> parent i < m \<or> \<not> lt (xs ! i) (xs ! parent i)"
  shows "heap_from lt m n xs"
  unfolding heap_from_def
proof (intro allI impI; elim conjE)
  fix k assume k: "0 < k" "k < n" "m \<le> parent k"
  consider "parent k = i" | "k = i" | "parent k \<noteq> i" "k \<noteq> i" by blast
  then show "\<not> lt (xs ! k) (xs ! parent k)"
  proof cases
    case 1
    then show ?thesis using assms(2) k unfolding heap_children_def by blast
  next
    case 2
    then show ?thesis using assms(3) k by auto
  next
    case 3
    then show ?thesis using assms(1) k unfolding heap_hole_def by blast
  qed
qed

text \<open>What a \<open>Less\<close> function promises: a strict weak order.\<close>

locale weak_order =
  fixes lt :: "'a \<Rightarrow> 'a \<Rightarrow> bool"
  assumes asym: "lt x y \<Longrightarrow> \<not> lt y x"
    and ntrans: "\<not> lt x y \<Longrightarrow> \<not> lt y z \<Longrightarrow> \<not> lt x z"
begin

lemma irrefl: "\<not> lt x x"
  using asym by blast

lemma strict_trans: "lt x y \<Longrightarrow> lt y z \<Longrightarrow> lt x z"
  using asym ntrans by blast

lemma root_least: "heap_from lt 0 n xs \<Longrightarrow> k < n \<Longrightarrow> \<not> lt (xs ! k) (xs ! 0)"
proof (induction k rule: less_induct)
  case (less k)
  show ?case
  proof (cases "k = 0")
    case True
    then show ?thesis by (simp add: irrefl)
  next
    case False
    then have p: "parent k < k" by simp
    have "\<not> lt (xs ! k) (xs ! parent k)"
      using less.prems False by (simp add: heap_from_def)
    moreover have "\<not> lt (xs ! parent k) (xs ! 0)"
      using less p by simp
    ultimately show ?thesis by (rule ntrans)
  qed
qed

lemma heap_up_move_hole:
  assumes hole: "heap_hole lt 0 n j xs" and j: "0 < j" "j < n" "n \<le> length xs"
    and lt: "lt (xs ! j) (xs ! parent j)"
  defines "p \<equiv> parent j"
  shows "heap_hole lt 0 n p (swap xs p j)" and "heap_children lt n p (swap xs p j)"
proof -
  have p: "p < j" using j by (simp add: p_def)
  have ys: "swap xs p j ! k = (if k = j then xs ! p else if k = p then xs ! j else xs ! k)" if "k < n" for k
    using that j p by (intro nth_swap) auto
  have jp: "\<not> lt (xs ! p) (xs ! j)" using lt unfolding p_def by (rule asym)
  have sib: "\<not> lt (xs ! k) (xs ! p)" if "0 < k" "k < n" "parent k = p" "k \<noteq> j" for k
    using heap_holeD1[OF hole that(1,2)] that p by auto
  show "heap_hole lt 0 n p (swap xs p j)"
    unfolding heap_hole_def
  proof (intro conjI allI impI; elim conjE)
    fix k assume k: "0 < k" "k < n" "parent k \<noteq> p" "k \<noteq> p"
    have kj: "k \<noteq> j" using k by (auto simp: p_def)
    have pk: "parent k < n" using parent_less[OF k(1)] k(2) by linarith
    show "\<not> lt (swap xs p j ! k) (swap xs p j ! parent k)"
    proof (cases "parent k = j")
      case True
      have "\<not> lt (xs ! k) (xs ! p)"
        unfolding p_def using k True j by (intro heap_holeD2[OF hole]) auto
      then show ?thesis using True k kj ys[OF k(2)] ys[OF j(2)] by simp
    next
      case False
      have "\<not> lt (xs ! k) (xs ! parent k)"
        using k False kj by (intro heap_holeD1[OF hole]) auto
      then show ?thesis using False k kj ys[OF k(2)] ys[OF pk] by simp
    qed
  next
    fix k assume k: "0 < k" "k < n" "parent k = p" "0 < p"
    have pp: "parent p < p" "parent p < n" "parent p \<noteq> j" using parent_less[OF k(4)] p j by auto
    have gp: "\<not> lt (xs ! p) (xs ! parent p)"
      using k p pp j by (intro heap_holeD1[OF hole]) auto
    have kp: "k \<noteq> p" using k parent_less[OF k(1)] by auto
    show "\<not> lt (swap xs p j ! k) (swap xs p j ! parent p)"
    proof (cases "k = j")
      case True
      then show ?thesis using gp pp ys[OF j(2)] ys[OF pp(2)] by simp
    next
      case False
      from ntrans[OF sib gp] k False show ?thesis
        using kp pp ys[OF k(2)] ys[OF pp(2)] by simp
    qed
  qed
  show "heap_children lt n p (swap xs p j)"
    unfolding heap_children_def
  proof (intro allI impI; elim conjE)
    fix k assume k: "0 < k" "k < n" "parent k = p"
    have kp: "k \<noteq> p" using k parent_less[OF k(1)] by auto
    have pn: "p < n" using p j by simp
    show "\<not> lt (swap xs p j ! k) (swap xs p j ! p)"
    proof (cases "k = j")
      case True
      then show ?thesis using jp p ys[OF j(2)] ys[OF pn] by simp
    next
      case False
      from ntrans[OF sib jp] k False show ?thesis
        using kp p ys[OF k(2)] ys[OF pn] by simp
    qed
  qed
qed

lemma heap_up_restores:
  "heap_hole lt 0 n j xs \<Longrightarrow> heap_children lt n j xs \<Longrightarrow> j < n \<Longrightarrow> n \<le> length xs \<Longrightarrow>
   heap_from lt 0 n (heap_up lt xs j)"
proof (induction xs j rule: heap_up_induct[where lt = lt])
  case (stop xs j)
  then have "heap_from lt 0 n xs"
    by (intro heap_fill[where i = j]) auto
  then show ?case using stop.hyps by (simp add: heap_up_stop)
next
  case (move xs j)
  have eq: "heap_up lt xs j = heap_up lt (swap xs (parent j) j) (parent j)"
    using move.hyps by (rule heap_up_move)
  have "parent j < n" using parent_less[OF move.hyps(1)] move.prems by linarith
  then show ?case
    unfolding eq
    using heap_up_move_hole[OF move.prems(1) move.hyps(1) move.prems(3,4) move.hyps(2)] move.prems(4)
    by (intro move.IH) simp_all
qed

text \<open>
  One move of \<open>heap.down\<close>: the hole travels from \<open>i\<close> to the chosen child, and the new
  value at \<open>i\<close> is in order with everything around it.
\<close>

lemma heap_down_move_hole:
  assumes "heap_hole lt m n i xs" and "m \<le> i" and "2 * i + 1 < n" and "n \<le> length xs"
    and "lt (xs ! heap_child lt xs i n) (xs ! i)"
  defines "j \<equiv> heap_child lt xs i n"
  shows "heap_hole lt m n j (swap xs i j)"
    and "\<not> lt (swap xs i j ! j) (swap xs i j ! parent j)"
proof -
  have j: "i < j" "j < n" "parent j = i"
    using heap_child_bounds[OF assms(3), of lt xs] by (auto simp: j_def)
  have ys: "swap xs i j ! k = (if k = j then xs ! i else if k = i then xs ! j else xs ! k)" if "k < n" for k
    using that j assms(4) by (intro nth_swap) auto
  have ij: "\<not> lt (xs ! i) (xs ! j)" using assms(5) unfolding j_def by (rule asym)
  have sib: "\<not> lt (xs ! k) (xs ! j)" if "0 < k" "k < n" "parent k = i" for k
  proof -
    have "k = 2 * i + 1 \<or> k = 2 * i + 2" using that by (simp add: parent_child)
    then show ?thesis using that irrefl asym unfolding j_def heap_child_def by auto
  qed
  show "heap_hole lt m n j (swap xs i j)"
    unfolding heap_hole_def
  proof (intro conjI allI impI; elim conjE)
    fix k assume k: "0 < k" "k < n" "m \<le> parent k" "parent k \<noteq> j" "k \<noteq> j"
    have pk: "parent k < n" "parent k \<noteq> k" using k parent_less[OF k(1)] by auto
    consider "parent k = i" | "k = i" | "parent k \<noteq> i" "k \<noteq> i" by blast
    then show "\<not> lt (swap xs i j ! k) (swap xs i j ! parent k)"
    proof cases
      case 1
      then show ?thesis using sib k pk ys by auto
    next
      case 2
      have "\<not> lt (xs ! j) (xs ! parent i)"
        using heap_holeD2[OF assms(1), of j] j k 2 by simp
      then show ?thesis using 2 k pk ys j by auto
    next
      case 3
      then have "\<not> lt (xs ! k) (xs ! parent k)"
        using assms(1) k unfolding heap_hole_def by blast
      then show ?thesis using 3 k pk ys by auto
    qed
  next
    fix k assume k: "0 < k" "k < n" "parent k = j" "0 < j" "m \<le> parent j"
    have "k \<noteq> i" "k \<noteq> j" using k j parent_less[OF k(1)] by auto
    moreover have "\<not> lt (xs ! k) (xs ! j)"
      using heap_holeD1[OF assms(1), of k] assms(2) k j \<open>k \<noteq> i\<close> by simp
    ultimately show "\<not> lt (swap xs i j ! k) (swap xs i j ! parent j)"
      using k j ys by auto
  qed
  show "\<not> lt (swap xs i j ! j) (swap xs i j ! parent j)"
    using ij j ys by auto
qed

lemma heap_down_restores:
  "heap_hole lt m n i xs \<Longrightarrow> m \<le> i \<Longrightarrow> i < n \<Longrightarrow> n \<le> length xs \<Longrightarrow>
   (if snd (heap_down lt xs i n) = i
    then fst (heap_down lt xs i n) = xs \<and> heap_children lt n i xs
    else heap_from lt m n (fst (heap_down lt xs i n)))"
proof (induction xs i rule: heap_down_induct[where lt = lt and n = n])
  case (stop xs i)
  have "heap_children lt n i xs"
    unfolding heap_children_def
  proof (intro allI impI; elim conjE)
    fix k assume k: "0 < k" "k < n" "parent k = i"
    then have "k = 2 * i + 1 \<or> k = 2 * i + 2" and "2 * i + 1 < n" by (auto simp: parent_child)
    moreover from this stop.hyps have "\<not> lt (xs ! heap_child lt xs i n) (xs ! i)" by auto
    ultimately show "\<not> lt (xs ! k) (xs ! i)"
      using k(2) unfolding heap_child_def by (auto split: if_splits dest: strict_trans ntrans)
  qed
  then show ?case using stop.hyps by (simp add: heap_down_stop)
next
  case (move xs i)
  let ?j = "heap_child lt xs i n"
  have eq: "heap_down lt xs i n = heap_down lt (swap xs i ?j) ?j n"
    using move.hyps by (rule heap_down_move)
  have j: "i < ?j" "?j < n" "m \<le> ?j"
    using heap_child_bounds[OF move.hyps(1), of lt xs] move.prems(2) by auto
  note hole = heap_down_move_hole[OF move.prems(1,2) move.hyps(1) move.prems(4) move.hyps(2)]
  have IH: "if snd (heap_down lt xs i n) = ?j
      then fst (heap_down lt xs i n) = swap xs i ?j \<and> heap_children lt n ?j (swap xs i ?j)
      else heap_from lt m n (fst (heap_down lt xs i n))"
    unfolding eq by (rule move.IH) (use hole j move.prems in simp_all)
  have "i < snd (heap_down lt xs i n)"
    unfolding eq using heap_down_ge[of n "swap xs i ?j" ?j lt] j move.prems by simp
  moreover have "heap_from lt m n (fst (heap_down lt xs i n))"
  proof (cases "snd (heap_down lt xs i n) = ?j")
    case True
    then have "heap_children lt n ?j (swap xs i ?j)" "fst (heap_down lt xs i n) = swap xs i ?j"
      using IH by auto
    then show ?thesis using heap_fill[OF hole(1)] hole(2) by simp
  next
    case False
    then show ?thesis using IH by simp
  qed
  ultimately show ?case by simp
qed

subsection \<open>The operations\<close>

lemma heap_push_correct:
  assumes "is_heap lt xs"
  shows "is_heap lt (heap_push lt xs x)" and "mset (heap_push lt xs x) = add_mset x (mset xs)"
proof -
  let ?n = "length xs" and ?ys = "xs @ [x]"
  have pl: "parent k < ?n" if "0 < k" "k < Suc ?n" for k
    using parent_less[OF that(1)] that(2) by linarith
  have "heap_hole lt 0 (Suc ?n) ?n ?ys"
    unfolding heap_hole_def
  proof (intro conjI allI impI; elim conjE)
    fix k assume k: "0 < k" "k < Suc ?n" "k \<noteq> ?n"
    then have "\<not> lt (xs ! k) (xs ! parent k)" using assms by (simp add: heap_from_def)
    then show "\<not> lt (?ys ! k) (?ys ! parent k)" using k pl[of k] by (simp add: nth_append)
  next
    fix k assume k: "0 < k" "k < Suc ?n" "parent k = ?n"
    then have False using pl[OF k(1,2)] by linarith
    then show "\<not> lt (?ys ! k) (?ys ! parent ?n)" ..
  qed
  moreover have "heap_children lt (Suc ?n) ?n ?ys"
    unfolding heap_children_def using pl by (metis less_irrefl)
  ultimately have "heap_from lt 0 (Suc ?n) (heap_up lt ?ys ?n)"
    by (rule heap_up_restores) simp_all
  then show "is_heap lt (heap_push lt xs x)" by (simp add: heap_push_def)
  show "mset (heap_push lt xs x) = add_mset x (mset xs)"
    by (simp add: heap_push_def)
qed

lemma heap_init_loop_correct:
  "heap_from lt k n xs \<Longrightarrow> k \<le> n \<Longrightarrow> n = length xs \<Longrightarrow>
   heap_from lt 0 n (heap_init_loop lt n k xs) \<and> mset (heap_init_loop lt n k xs) = mset xs"
proof (induction k arbitrary: xs)
  case 0
  then show ?case by simp
next
  case (Suc k)
  let ?ys = "fst (heap_down lt xs k n)"
  have "heap_hole lt k n k xs"
    unfolding heap_hole_def
  proof (intro conjI allI impI; elim conjE)
    fix j assume "0 < j" "j < n" "k \<le> parent j" "parent j \<noteq> k"
    then show "\<not> lt (xs ! j) (xs ! parent j)" using Suc.prems(1) by (simp add: heap_from_def)
  next
    fix j assume "0 < k" "k \<le> parent k"
    then show "\<not> lt (xs ! j) (xs ! parent k)" using parent_less[of k] by linarith
  qed
  note hole = this
  note down = heap_down_restores[OF hole order.refl]
  have "heap_from lt k n ?ys"
  proof (cases "snd (heap_down lt xs k n) = k")
    case True
    then have "heap_children lt n k xs" "?ys = xs" using down Suc.prems by auto
    moreover have "k = 0 \<or> parent k < k" by (cases k) simp_all
    ultimately show ?thesis using heap_fill[OF hole] by auto
  next
    case False
    then show ?thesis using down Suc.prems by simp
  qed
  then show ?case
    using Suc.IH[of ?ys] Suc.prems by simp
qed

lemma heap_init_correct:
  "is_heap lt (heap_init lt xs)" "mset (heap_init lt xs) = mset xs"
proof -
  have "heap_from lt (length xs div 2) (length xs) xs"
    unfolding heap_from_def parent_def by auto
  from heap_init_loop_correct[OF this]
  have *: "heap_from lt 0 (length xs) (heap_init lt xs) \<and> mset (heap_init lt xs) = mset xs"
    by (simp add: heap_init_def)
  then have "length (heap_init lt xs) = length xs" by (metis size_mset)
  with * show "is_heap lt (heap_init lt xs)" "mset (heap_init lt xs) = mset xs" by simp_all
qed

lemma heap_swap_out:
  assumes "is_heap lt xs" and "i < length xs" and "n = length xs - 1"
  shows "heap_hole lt 0 n i (swap xs i n)"
  unfolding heap_hole_def
proof (intro conjI allI impI; elim conjE)
  fix k assume k: "0 < k" "k < n" "parent k \<noteq> i" "k \<noteq> i"
  have "parent k < n" using parent_less[OF k(1)] k(2) by linarith
  moreover have "\<not> lt (xs ! k) (xs ! parent k)"
    using assms k by (simp add: heap_from_def)
  ultimately show "\<not> lt (swap xs i n ! k) (swap xs i n ! parent k)"
    using k by (simp add: nth_swap_other)
next
  fix k assume k: "0 < k" "k < n" "parent k = i" "0 < i"
  have i: "parent i < i" "i < k" using parent_less[OF k(4)] parent_less[OF k(1)] k by auto
  have "\<not> lt (xs ! k) (xs ! i)" "\<not> lt (xs ! i) (xs ! parent i)"
    using assms k i by (auto simp: heap_from_def)
  then have "\<not> lt (xs ! k) (xs ! parent i)" by (rule ntrans)
  then show "\<not> lt (swap xs i n ! k) (swap xs i n ! parent i)"
    using k i by (simp add: nth_swap_other)
qed

lemma heap_take:
  "heap_from lt 0 n xs \<Longrightarrow> n \<le> length xs \<Longrightarrow> is_heap lt (take n xs)"
  unfolding heap_from_def using parent_less by (auto simp: min_absorb2)
    (metis parent_less less_trans nth_take)

lemma heap_remove_correct:
  assumes "is_heap lt xs" and "i < length xs"
  obtains ys where "heap_remove lt xs i = Some (xs ! i, ys)"
    and "is_heap lt ys" and "add_mset (xs ! i) (mset ys) = mset xs"
proof -
  let ?n = "length xs - 1"
  define zs where "zs = (if ?n \<noteq> i
     then let (ys, k) = heap_down lt (swap xs i ?n) i ?n in if i < k then ys else heap_up lt ys i
     else xs)"
  have "length zs = length xs \<and> zs ! ?n = xs ! i \<and> mset zs = mset xs \<and> heap_from lt 0 ?n zs"
  proof (cases "?n = i")
    case True
    then show ?thesis using assms by (simp add: zs_def heap_from_def)
  next
    case False
    then have i: "i < ?n" using assms by simp
    let ?xs = "swap xs i ?n" and ?d = "heap_down lt (swap xs i ?n) i ?n"
    have hole: "heap_hole lt 0 ?n i ?xs" using assms by (intro heap_swap_out) simp_all
    have len: "?n \<le> length ?xs" "i < length ?xs" by (use assms in simp_all)
    have last: "?xs ! ?n = xs ! i" using assms i by (simp add: nth_swap)
    note down = heap_down_restores[OF hole _ i len(1)]
    have ge: "i \<le> snd ?d" using heap_down_ge[OF len(1)] i by blast
    show ?thesis
    proof (cases "snd ?d = i")
      case True
      then have *: "fst ?d = ?xs" "heap_children lt ?n i ?xs" using down by auto
      have "zs = heap_up lt ?xs i" using True *(1) False by (simp add: zs_def split_beta Let_def)
      then show ?thesis
        using heap_up_restores[OF hole *(2) i len(1)] heap_up_above[OF i, of lt ?xs] last assms(2) by simp
    next
      case False': False
      then have "zs = fst ?d" using ge False by (simp add: zs_def split_beta Let_def)
      then show ?thesis
        using False' down heap_down_above[OF len(1), of i ?n lt] last i assms(2) by simp
    qed
  qed
  note zs = this
  have "heap_remove lt xs i = Some (xs ! i, take ?n zs)"
  proof -
    have "heap_remove lt xs i = Some (zs ! ?n, take ?n zs)"
      using assms(2) unfolding heap_remove_def zs_def Let_def by simp
    then show ?thesis using zs by simp
  qed
  moreover have "is_heap lt (take ?n zs)" using heap_take zs by simp
  moreover have "add_mset (xs ! i) (mset (take ?n zs)) = mset xs"
    using zs mset_take_last[of zs] assms(2) by (metis list.size(3) not_less_zero)
  ultimately show ?thesis by (rule that)
qed

lemma heap_pop_correct:
  assumes "is_heap lt xs" and "xs \<noteq> []"
  obtains ys where "heap_pop lt xs = Some (xs ! 0, ys)"
    and "is_heap lt ys" and "add_mset (xs ! 0) (mset ys) = mset xs"
proof (cases "length xs = 1")
  case True
  then obtain a where "xs = [a]" by (cases xs) auto
  then show ?thesis using that[of "[]"]
    by (simp add: heap_pop_def heap_down_stop swap_def heap_from_def)
next
  case False
  then have n: "0 < length xs - 1" "0 < length xs" using assms(2) by (cases xs; auto)+
  let ?n = "length xs - 1"
  let ?d = "heap_down lt (swap xs 0 ?n) 0 ?n"
  have hole: "heap_hole lt 0 ?n 0 (swap xs 0 ?n)" using assms n by (intro heap_swap_out) simp_all
  have len: "?n \<le> length (swap xs 0 ?n)" by simp
  note down = heap_down_restores[OF hole order.refl n(1) len]
  have "heap_from lt 0 ?n (fst ?d)"
  proof (cases "snd ?d = 0")
    case True
    then show ?thesis using down heap_fill[OF hole] by auto
  next
    case False
    then show ?thesis using down by simp
  qed
  moreover have "length (fst ?d) = length xs" "mset (fst ?d) = mset xs" "fst ?d ! ?n = xs ! 0"
    using n len heap_down_above[OF len, of 0 ?n lt] by (simp_all add: nth_swap)
  moreover from this(1) have "fst ?d \<noteq> []" using n(2) by (metis list.size(3) less_irrefl)
  ultimately show ?thesis
    using that[of "take ?n (fst ?d)"] assms(2) heap_take[of ?n "fst ?d"] mset_take_last[of "fst ?d"] n
    by (auto simp: heap_pop_def Let_def)
qed

end

end
