(* ===== verification/Tx_Sorted_Map.thy ===== *)
theory Tx_Sorted_Map
  imports Go_Heap Tx_Types
begin

text \<open>
  \<open>core/tx_list.go\<close>: the nonce-indexed transaction map \<open>txSortedMap\<close>, a Go map with a heap of
  its nonces and a cache of the sorted contents.  A list of \<open>*Transaction\<close> that the code reads
  out of a map by key is a list of options, since a missing key yields a nil pointer; panics
  (slicing or indexing out of range, popping an empty heap) are \<open>None\<close>.  The invariant
  \<open>tsm_inv\<close> says that the heap holds exactly the keys of the map and that a present cache is the
  sorted contents; every operation keeps it and computes what the abstract map
  \<open>tsm_contents\<close> prescribes.  The locale \<open>nonce_map\<close> is the contract on which the account lists
  of the transaction pool rest.
\<close>

subsection \<open>txSortedMap\<close>

abbreviation nonce_less :: "u64 \<Rightarrow> u64 \<Rightarrow> bool" where
  "nonce_less \<equiv> (<)"

record txSortedMap =
  items :: "(u64, transaction) gomap"
  index :: "u64 list"
  cache :: "transaction list option"

definition newTxSortedMap :: txSortedMap where
  "newTxSortedMap = \<lparr>items = [], index = [], cache = None\<rparr>"

definition tsm_Get :: "txSortedMap \<Rightarrow> u64 \<Rightarrow> transaction option" where
  "tsm_Get m nonce = gm_get (items m) nonce"

definition tsm_Put :: "txSortedMap \<Rightarrow> transaction \<Rightarrow> txSortedMap" where
  "tsm_Put m tx =
     (let nonce = AccountNonce tx;
          m' = (if gm_get (items m) nonce = None
                then m\<lparr>index := heap_push nonce_less (index m) nonce\<rparr> else m)
      in m'\<lparr>items := gm_set nonce tx (items m'), cache := None\<rparr>)"

text \<open>The loop of \<open>Forward\<close>: pop nonces off the heap while they are below the threshold.\<close>

function tsm_forward_loop ::
  "u64 \<Rightarrow> u64 list \<Rightarrow> (u64, transaction) gomap \<Rightarrow> transaction option list \<Rightarrow>
   (u64 list \<times> (u64, transaction) gomap \<times> transaction option list)" where
  "tsm_forward_loop threshold idx its removed =
     (if idx \<noteq> [] \<and> idx ! 0 < threshold
      then case heap_pop nonce_less idx of
             None \<Rightarrow> (idx, its, removed)
           | Some (nonce, idx') \<Rightarrow>
               tsm_forward_loop threshold idx' (gm_del nonce its) (removed @ [gm_get its nonce])
      else (idx, its, removed))"
  by pat_completeness auto
termination
  by (relation "measure (\<lambda>(t, idx, its, rm). length idx)")
     (auto dest: heap_pop_shrinks)

declare tsm_forward_loop.simps [simp del]

definition tsm_Forward :: "txSortedMap \<Rightarrow> u64 \<Rightarrow> (txSortedMap \<times> transaction option list) option" where
  "tsm_Forward m threshold =
     (let (idx, its, removed) = tsm_forward_loop threshold (index m) (items m) [] in
      case cache m of
        None \<Rightarrow> Some (m\<lparr>index := idx, items := its\<rparr>, removed)
      | Some c \<Rightarrow>
          if length c < length removed then None
          else Some (m\<lparr>index := idx, items := its, cache := Some (drop (length removed) c)\<rparr>, removed))"

definition tsm_Filter :: "txSortedMap \<Rightarrow> (transaction \<Rightarrow> bool) \<Rightarrow> txSortedMap \<times> transaction list" where
  "tsm_Filter m flt =
     (let removed = map snd (filter (\<lambda>(n, tx). flt tx) (items m));
          its = filter (\<lambda>(n, tx). \<not> flt tx) (items m)
      in (if removed \<noteq> []
          then \<lparr>items = its, index = heap_init nonce_less (gm_keys its), cache = None\<rparr>
          else m\<lparr>items := its\<rparr>, removed))"

text \<open>The loop of \<open>Cap\<close>, for \<open>size = n, ..., threshold + 1\<close> over the sorted index.\<close>

fun tsm_cap_loop ::
  "nat \<Rightarrow> nat \<Rightarrow> u64 list \<Rightarrow> (u64, transaction) gomap \<Rightarrow> transaction option list \<Rightarrow>
   ((u64, transaction) gomap \<times> transaction option list) option" where
  "tsm_cap_loop threshold sz idx its drops =
     (if threshold < sz
      then if length idx < sz then None
           else tsm_cap_loop threshold (sz - 1) idx (gm_del (idx ! (sz - 1)) its)
                  (drops @ [gm_get its (idx ! (sz - 1))])
      else Some (its, drops))"

declare tsm_cap_loop.simps [simp del]

definition tsm_Cap :: "txSortedMap \<Rightarrow> int \<Rightarrow> (txSortedMap \<times> transaction option list) option" where
  "tsm_Cap m threshold =
     (if int (length (items m)) \<le> threshold then Some (m, [])
      else if threshold < 0 then None
      else let idx = sort (index m) in
        case tsm_cap_loop (nat threshold) (length (items m)) idx (items m) [] of
          None \<Rightarrow> None
        | Some (its, drops) \<Rightarrow>
            let m' = m\<lparr>items := its, index := heap_init nonce_less (take (nat threshold) idx)\<rparr> in
            (case cache m of
               None \<Rightarrow> Some (m', drops)
             | Some c \<Rightarrow>
                 if length c < length drops then None
                 else Some (m'\<lparr>cache := Some (take (length c - length drops) c)\<rparr>, drops)))"

text \<open>The scan of \<open>Remove\<close> for the heap position of a nonce.\<close>

fun find_index :: "u64 \<Rightarrow> u64 list \<Rightarrow> nat option" where
  "find_index n [] = None"
| "find_index n (x # xs) = (if x = n then Some 0 else map_option Suc (find_index n xs))"

definition tsm_Remove :: "txSortedMap \<Rightarrow> u64 \<Rightarrow> txSortedMap \<times> bool" where
  "tsm_Remove m nonce =
     (case gm_get (items m) nonce of
        None \<Rightarrow> (m, False)
      | Some _ \<Rightarrow>
          let idx = (case find_index nonce (index m) of
                       None \<Rightarrow> index m
                     | Some i \<Rightarrow> (case heap_remove nonce_less (index m) i of
                                    None \<Rightarrow> index m | Some (_, idx') \<Rightarrow> idx'))
          in (\<lparr>items = gm_del nonce (items m), index = idx, cache = None\<rparr>, True))"

function tsm_ready_loop ::
  "u64 \<Rightarrow> u64 list \<Rightarrow> (u64, transaction) gomap \<Rightarrow> transaction option list \<Rightarrow>
   (u64 list \<times> (u64, transaction) gomap \<times> transaction option list)" where
  "tsm_ready_loop nxt idx its ready =
     (if idx \<noteq> [] \<and> idx ! 0 = nxt
      then case heap_pop nonce_less idx of
             None \<Rightarrow> (idx, its, ready)
           | Some (_, idx') \<Rightarrow> tsm_ready_loop (nxt + 1) idx' (gm_del nxt its) (ready @ [gm_get its nxt])
      else (idx, its, ready))"
  by pat_completeness auto
termination
  by (relation "measure (\<lambda>(t, idx, its, rm). length idx)")
     (auto dest: heap_pop_shrinks)

declare tsm_ready_loop.simps [simp del]

definition tsm_Ready :: "txSortedMap \<Rightarrow> u64 \<Rightarrow> txSortedMap \<times> transaction option list" where
  "tsm_Ready m start =
     (if index m = [] \<or> start < index m ! 0 then (m, [])
      else let (idx, its, ready) = tsm_ready_loop (index m ! 0) (index m) (items m) []
           in (\<lparr>items = its, index = idx, cache = None\<rparr>, ready))"

definition tsm_Len :: "txSortedMap \<Rightarrow> nat" where
  "tsm_Len m = length (items m)"

definition tsm_Flatten :: "txSortedMap \<Rightarrow> txSortedMap \<times> transaction list" where
  "tsm_Flatten m =
     (case cache m of
        Some c \<Rightarrow> (m, c)
      | None \<Rightarrow> let c = sort_key AccountNonce (map snd (items m)) in (m\<lparr>cache := Some c\<rparr>, c))"

subsection \<open>The invariant of txSortedMap\<close>

declare mset_map [simp del] mset_filter [simp del]

interpretation nonce_order: weak_order nonce_less
  by unfold_locales auto

definition tsm_contents :: "txSortedMap \<Rightarrow> u64 \<rightharpoonup> transaction" where
  "tsm_contents m = gm_get (items m)"

definition index_ok :: "u64 list \<Rightarrow> (u64, transaction) gomap \<Rightarrow> bool" where
  "index_ok idx its \<longleftrightarrow>
     gm_wf its \<and> is_heap nonce_less idx \<and> mset idx = mset (gm_keys its) \<and>
     (\<forall>(n, tx) \<in> set its. AccountNonce tx = n)"

definition cache_ok :: "transaction list option \<Rightarrow> (u64, transaction) gomap \<Rightarrow> bool" where
  "cache_ok c its \<longleftrightarrow>
     (case c of None \<Rightarrow> True | Some l \<Rightarrow> sorted (map AccountNonce l) \<and> mset l = mset (map snd its))"

definition tsm_inv :: "txSortedMap \<Rightarrow> bool" where
  "tsm_inv m \<longleftrightarrow> index_ok (index m) (items m) \<and> cache_ok (cache m) (items m)"

lemma index_ok_mset: "index_ok idx its \<Longrightarrow> mset idx = mset (gm_keys its)"
  unfolding index_ok_def by (elim conjE)

lemma index_ok_set: "index_ok idx its \<Longrightarrow> set idx = set (gm_keys its)"
  by (drule index_ok_mset) (rule mset_eq_setD)

lemma index_ok_length: "index_ok idx its \<Longrightarrow> length idx = length its"
  using mset_eq_length[OF index_ok_mset] by fastforce

lemma index_ok_distinct: "index_ok idx its \<Longrightarrow> distinct idx"
  using mset_eq_imp_distinct_iff[OF index_ok_mset, of idx its] by (simp add: index_ok_def)

lemma index_ok_min: "index_ok idx its \<Longrightarrow> n \<in> set (gm_keys its) \<Longrightarrow> idx ! 0 \<le> n"
proof -
  assume ok: "index_ok idx its" and "n \<in> set (gm_keys its)"
  then obtain k where "k < length idx" "idx ! k = n" using index_ok_set[OF ok] by (metis in_set_conv_nth)
  then show "idx ! 0 \<le> n" using nonce_order.root_least[of "length idx" idx k] ok by (auto simp: index_ok_def)
qed

lemma index_ok_filter:
  "gm_wf its \<Longrightarrow> (\<forall>(n, tx) \<in> set its. AccountNonce tx = n) \<Longrightarrow>
   index_ok (heap_init nonce_less (gm_keys (filter P its))) (filter P its)"
  by (auto simp: index_ok_def nonce_order.heap_init_correct)

lemma index_ok_pop:
  assumes "index_ok idx its" and "idx \<noteq> []"
  obtains idx' where "heap_pop nonce_less idx = Some (idx ! 0, idx')"
    and "index_ok idx' (gm_del (idx ! 0) its)" and "idx ! 0 \<in> set (gm_keys its)"
proof -
  have h: "is_heap nonce_less idx" using assms by (simp add: index_ok_def)
  obtain idx' where p: "heap_pop nonce_less idx = Some (idx ! 0, idx')" "is_heap nonce_less idx'"
      "add_mset (idx ! 0) (mset idx') = mset idx"
    using nonce_order.heap_pop_correct[OF h assms(2)] by blast
  have mem: "idx ! 0 \<in> set (gm_keys its)"
    using index_ok_set[OF assms(1)] assms(2) by (metis length_greater_0_conv nth_mem)
  have d: "distinct (gm_keys its)" using assms(1) by (simp add: index_ok_def)
  have "mset (gm_keys (gm_del (idx ! 0) its)) = mset (gm_keys its) - {#idx ! 0#}"
    using d by (simp add: gm_keys_del distinct_remove1_removeAll[symmetric] removeAll_filter_not_eq[symmetric]
        eq_commute[of _ "idx ! 0"] flip: mset_remove1)
  also have "\<dots> = mset idx'" using p(3) index_ok_mset[OF assms(1)] by (metis add_mset_remove_trivial)
  finally have "mset idx' = mset (gm_keys (gm_del (idx ! 0) its))" by simp
  moreover have "\<forall>(n, tx) \<in> set (gm_del (idx ! 0) its). AccountNonce tx = n"
    using assms(1) by (auto simp: index_ok_def AList.delete_eq)
  ultimately show ?thesis
    using that p mem assms(1) by (simp add: index_ok_def)
qed

subsection \<open>Each operation against the abstract map\<close>

lemma tsm_inv_new: "tsm_inv newTxSortedMap"
  by (simp add: tsm_inv_def newTxSortedMap_def index_ok_def cache_ok_def heap_from_def)

lemma tsm_Put_spec:
  assumes "tsm_inv m"
  shows "tsm_inv (tsm_Put m tx)"
    and "tsm_contents (tsm_Put m tx) = (tsm_contents m)(AccountNonce tx \<mapsto> tx)"
proof -
  let ?n = "AccountNonce tx"
  have ok: "index_ok (index m) (items m)" using assms by (simp add: tsm_inv_def)
  have heap: "is_heap nonce_less (index m)" using ok by (simp add: index_ok_def)
  have vals: "\<forall>(n, t) \<in> set (gm_set ?n tx (items m)). AccountNonce t = n"
    using ok by (auto simp: index_ok_def dest!: subsetD[OF gm_set_subset])
  have "index_ok (index (tsm_Put m tx)) (gm_set ?n tx (items m))"
  proof (cases "gm_get (items m) ?n")
    case None
    then show ?thesis
      using ok vals nonce_order.heap_push_correct[OF heap, of ?n] gm_get_None[of "items m" ?n]
      by (simp add: tsm_Put_def Let_def index_ok_def gm_keys_set_new)
  next
    case (Some t)
    then show ?thesis
      using ok vals gm_keys_set_old[of "items m" ?n tx]
      by (simp add: tsm_Put_def Let_def index_ok_def)
  qed
  then show "tsm_inv (tsm_Put m tx)"
    by (auto simp: tsm_inv_def cache_ok_def tsm_Put_def Let_def)
  show "tsm_contents (tsm_Put m tx) = (tsm_contents m)(?n \<mapsto> tx)"
    by (rule ext) (auto simp: tsm_contents_def tsm_Put_def Let_def gm_get_set)
qed

lemma sort_Cons_min:
  assumes "distinct xs" and "x \<in> set xs" and "\<forall>y \<in> set xs. x \<le> y"
  shows "sort xs = x # sort (filter (\<lambda>y. y \<noteq> x) xs)"
proof (rule properties_for_sort)
  show "mset (x # sort (filter (\<lambda>y. y \<noteq> x) xs)) = mset xs"
  proof -
    have "mset (filter (\<lambda>y. y \<noteq> x) xs) = mset xs - {#x#}"
      using assms(1) by (simp add: distinct_remove1_removeAll removeAll_filter_not_eq eq_commute
          flip: mset_remove1)
    then show ?thesis using assms(2) by simp
  qed
  show "sorted (x # sort (filter (\<lambda>y. y \<noteq> x) xs))" using assms(3) by simp
qed

lemma tsm_forward_loop_spec:
  "index_ok idx its \<Longrightarrow>
   (case tsm_forward_loop t idx its rm of (idx', its', rm') \<Rightarrow>
      index_ok idx' its' \<and> its' = filter (\<lambda>(n, tx). \<not> n < t) its \<and>
      rm' = rm @ map (gm_get its) (sort (filter (\<lambda>n. n < t) (gm_keys its))))"
proof (induction t idx its rm rule: tsm_forward_loop.induct)
  case (1 t idx its rm)
  show ?case
  proof (cases "idx \<noteq> [] \<and> idx ! 0 < t")
    case True
    then obtain idx' where pop: "heap_pop nonce_less idx = Some (idx ! 0, idx')"
      and ok: "index_ok idx' (gm_del (idx ! 0) its)" and mem: "idx ! 0 \<in> set (gm_keys its)"
      using index_ok_pop[OF "1.prems"] by blast
    let ?x = "idx ! 0" and ?its = "gm_del (idx ! 0) its"
    let ?K = "filter (\<lambda>n. n < t) (gm_keys its)"
    have IH: "case tsm_forward_loop t idx' ?its (rm @ [gm_get its ?x]) of (i, s, r) \<Rightarrow>
      index_ok i s \<and> s = filter (\<lambda>(n, tx). \<not> n < t) ?its \<and>
      r = (rm @ [gm_get its ?x]) @ map (gm_get ?its) (sort (filter (\<lambda>n. n < t) (gm_keys ?its)))"
      by (rule "1.IH"[OF True pop refl ok])
    have fil: "filter (\<lambda>(n, tx). \<not> n < t) ?its = filter (\<lambda>(n, tx). \<not> n < t) its"
      using True by (auto simp: AList.delete_eq intro!: filter_cong)
    have keys: "filter (\<lambda>n. n < t) (gm_keys ?its) = filter (\<lambda>y. y \<noteq> ?x) ?K"
      by (simp add: gm_keys_del conj_commute)
    have "sort ?K = ?x # sort (filter (\<lambda>y. y \<noteq> ?x) ?K)"
      using "1.prems" mem True index_ok_min[OF "1.prems"]
      by (intro sort_Cons_min) (auto simp: index_ok_def)
    moreover have "map (gm_get ?its) (sort (filter (\<lambda>y. y \<noteq> ?x) ?K)) =
        map (gm_get its) (sort (filter (\<lambda>y. y \<noteq> ?x) ?K))"
      by (auto simp: gm_get_del)
    ultimately show ?thesis
      using IH True pop fil keys by (subst tsm_forward_loop.simps) (auto split: prod.splits)
  next
    case False
    have "\<forall>n \<in> set (gm_keys its). \<not> n < t"
    proof
      fix n assume n: "n \<in> set (gm_keys its)"
      then have "idx \<noteq> []" using index_ok_set[OF "1.prems"] by auto
      then show "\<not> n < t" using False index_ok_min[OF "1.prems" n] by auto
    qed
    then have "filter (\<lambda>(n, tx). \<not> n < t) its = its" "filter (\<lambda>n. n < t) (gm_keys its) = []"
      by (auto simp: filter_id_conv filter_empty_conv)
    then show ?thesis using False "1.prems" by (subst tsm_forward_loop.simps) auto
  qed
qed

lemma sorted_key_split:
  fixes f :: "'a \<Rightarrow> 'k::linorder"
  assumes "sorted (map f c)" and "k = length (filter (\<lambda>x. f x < t) c)"
  shows "filter (\<lambda>x. f x < t) c = take k c" and "filter (\<lambda>x. \<not> f x < t) c = drop k c"
proof -
  have tw: "filter (\<lambda>x. f x < t) c = takeWhile (\<lambda>x. f x < t) c"
    using assms(1)
  proof (induction c)
    case (Cons a c)
    show ?case
    proof (cases "f a < t")
      case False
      then have "\<forall>x \<in> set c. \<not> f x < t" using Cons.prems by auto
      then have "filter (\<lambda>x. f x < t) c = []" by (simp add: filter_empty_conv)
      then show ?thesis using False by simp
    qed (use Cons in simp)
  qed simp
  then show "filter (\<lambda>x. f x < t) c = take k c"
    using assms(2) by (metis takeWhile_eq_take)
  have dw: "filter (\<lambda>x. \<not> f x < t) c = dropWhile (\<lambda>x. f x < t) c"
    using assms(1)
  proof (induction c)
    case (Cons a c)
    show ?case
    proof (cases "f a < t")
      case False
      then have "\<forall>x \<in> set c. \<not> f x < t" using Cons.prems by auto
      then have "filter (\<lambda>x. \<not> f x < t) c = c" by (simp add: filter_id_conv)
      then show ?thesis using False by simp
    qed (use Cons in simp)
  qed simp
  then show "filter (\<lambda>x. \<not> f x < t) c = drop k c"
    using assms(2) tw by (metis dropWhile_eq_drop)
qed

lemma cache_ok_nonces:
  assumes "cache_ok (Some c) its" and "\<forall>(n, tx) \<in> set its. AccountNonce tx = n"
  shows "mset (map AccountNonce c) = mset (gm_keys its)"
proof -
  have "mset (map AccountNonce c) = image_mset AccountNonce (mset (map snd its))"
    using assms(1) by (simp add: cache_ok_def mset_map)
  also have "\<dots> = mset (map (\<lambda>p. AccountNonce (snd p)) its)"
    by (simp add: mset_map comp_def multiset.map_comp)
  also have "map (\<lambda>p. AccountNonce (snd p)) its = gm_keys its"
    using assms(2) by (auto intro: map_cong)
  finally show ?thesis .
qed

text \<open>Dropping the entries below a nonce from the map and the front of the cache agree.\<close>

lemma cache_ok_forward:
  assumes ok: "cache_ok (Some c) its" and vals: "\<forall>(n, tx) \<in> set its. AccountNonce tx = n"
    and k: "k = length (filter (\<lambda>n. n < t) (gm_keys its))"
  shows "k \<le> length c" and "cache_ok (Some (drop k c)) (filter (\<lambda>(n, tx). \<not> n < t) its)"
    and "cache_ok (Some (take k c)) (filter (\<lambda>(n, tx). n < t) its)"
proof -
  have c: "sorted (map AccountNonce c)" "mset c = mset (map snd its)"
    using ok by (simp_all add: cache_ok_def)
  have "length (filter (\<lambda>x. AccountNonce x < t) c) = length (filter (\<lambda>n. n < t) (map AccountNonce c))"
    by (simp add: filter_map comp_def)
  also have "\<dots> = size (filter_mset (\<lambda>n. n < t) (mset (map AccountNonce c)))"
    by (metis mset_filter size_mset)
  also have "\<dots> = k"
    unfolding cache_ok_nonces[OF ok vals] k by (metis mset_filter size_mset)
  finally have k': "k = length (filter (\<lambda>x. AccountNonce x < t) c)" by simp
  note split = sorted_key_split[OF c(1) k']
  show "k \<le> length c" using k' by simp
  have fil: "mset (filter (\<lambda>x. P (AccountNonce x)) c) = mset (map snd (filter (\<lambda>(n, tx). P n) its))" for P
  proof -
    have "filter (\<lambda>(n, tx). P n) its = filter (\<lambda>p. P (AccountNonce (snd p))) its"
      using vals by (intro filter_cong) auto
    then have "map snd (filter (\<lambda>(n, tx). P n) its) = filter (\<lambda>x. P (AccountNonce x)) (map snd its)"
      by (simp add: filter_map comp_def)
    then show ?thesis using c(2) by (simp add: mset_filter)
  qed
  show "cache_ok (Some (drop k c)) (filter (\<lambda>(n, tx). \<not> n < t) its)"
    using c(1) fil[of "\<lambda>n. \<not> n < t"] split(2) by (simp add: cache_ok_def drop_map[symmetric] sorted_wrt_drop)
  show "cache_ok (Some (take k c)) (filter (\<lambda>(n, tx). n < t) its)"
    using c(1) fil[of "\<lambda>n. n < t"] split(1) by (simp add: cache_ok_def take_map[symmetric] sorted_wrt_take)
qed

lemma tsm_Forward_spec:
  assumes "tsm_inv m"
  obtains m' where "tsm_Forward m t =
      Some (m', map (tsm_contents m) (sort (filter (\<lambda>n. n < t) (gm_keys (items m)))))"
    and "tsm_inv m'" and "items m' = filter (\<lambda>(n, tx). \<not> n < t) (items m)"
proof -
  have ok: "index_ok (index m) (items m)" and ca: "cache_ok (cache m) (items m)"
    using assms by (simp_all add: tsm_inv_def)
  obtain idx its rm where loop: "tsm_forward_loop t (index m) (items m) [] = (idx, its, rm)"
    by (metis prod.exhaust)
  have "index_ok idx its \<and> its = filter (\<lambda>(n, tx). \<not> n < t) (items m) \<and>
      rm = map (gm_get (items m)) (sort (filter (\<lambda>n. n < t) (gm_keys (items m))))"
    using tsm_forward_loop_spec[OF ok, of t "[]"] unfolding loop prod.case append_Nil .
  then have r: "index_ok idx its" "its = filter (\<lambda>(n, tx). \<not> n < t) (items m)"
    "rm = map (tsm_contents m) (sort (filter (\<lambda>n. n < t) (gm_keys (items m))))"
    unfolding tsm_contents_def by blast+
  have len: "length rm = length (filter (\<lambda>n. n < t) (gm_keys (items m)))" using r(3) by simp
  have vals: "\<forall>(n, tx) \<in> set (items m). AccountNonce tx = n" using ok by (simp add: index_ok_def)
  show ?thesis
  proof (cases "cache m")
    case None
    then show ?thesis using that[of "m\<lparr>index := idx, items := its\<rparr>"] loop r
      by (simp add: tsm_Forward_def tsm_inv_def cache_ok_def)
  next
    case (Some c)
    then have c: "cache_ok (Some c) (items m)" using ca by simp
    note fw = cache_ok_forward[OF c vals len]
    show ?thesis
      using that[of "m\<lparr>index := idx, items := its, cache := Some (drop (length rm) c)\<rparr>"] loop r fw Some
      by (simp add: tsm_Forward_def tsm_inv_def)
  qed
qed

lemma tsm_Filter_spec:
  assumes "tsm_inv m"
  shows "tsm_inv (fst (tsm_Filter m flt))"
    and "items (fst (tsm_Filter m flt)) = filter (\<lambda>(n, tx). \<not> flt tx) (items m)"
    and "snd (tsm_Filter m flt) = map snd (filter (\<lambda>(n, tx). flt tx) (items m))"
proof -
  let ?its = "filter (\<lambda>(n, tx). \<not> flt tx) (items m)"
  have ok: "gm_wf (items m)" "\<forall>(n, tx) \<in> set (items m). AccountNonce tx = n"
    using assms by (simp_all add: tsm_inv_def index_ok_def)
  show items: "items (fst (tsm_Filter m flt)) = ?its"
    by (simp add: tsm_Filter_def Let_def)
  show "snd (tsm_Filter m flt) = map snd (filter (\<lambda>(n, tx). flt tx) (items m))"
    by (simp add: tsm_Filter_def Let_def)
  show "tsm_inv (fst (tsm_Filter m flt))"
  proof (cases "filter (\<lambda>(n, tx). flt tx) (items m) = []")
    case True
    then have "?its = items m" by (auto simp: filter_empty_conv filter_id_conv)
    then show ?thesis using True assms by (simp add: tsm_Filter_def Let_def tsm_inv_def)
  next
    case False
    then show ?thesis
      using index_ok_filter[OF ok, of "\<lambda>(n, tx). \<not> flt tx"]
      by (simp add: tsm_Filter_def Let_def tsm_inv_def cache_ok_def)
  qed
qed

lemma tsm_cap_loop_spec:
  "t \<le> sz \<Longrightarrow> sz \<le> length idx \<Longrightarrow> distinct idx \<Longrightarrow>
   tsm_cap_loop t sz idx its drops =
     Some (filter (\<lambda>(n, tx). n \<notin> set (drop t (take sz idx))) its,
           drops @ map (gm_get its) (rev (drop t (take sz idx))))"
proof (induction "sz - t" arbitrary: sz its drops)
  case 0
  then have "sz = t" by simp
  then show ?case by (subst tsm_cap_loop.simps) (simp add: filter_id_conv)
next
  case (Suc k)
  then obtain s where sz: "sz = Suc s" "t \<le> s" "s < length idx" by (cases sz) auto
  let ?x = "idx ! s"
  have tk: "drop t (take sz idx) = drop t (take s idx) @ [?x]"
    using sz by (simp add: take_Suc_conv_app_nth)
  have x: "?x \<notin> set (drop t (take s idx))"
    using Suc.prems(3) sz(3) by (metis id_take_nth_drop distinct_append disjoint_insert(1) in_set_dropD list.set(2))
  have "tsm_cap_loop t sz idx its drops =
      tsm_cap_loop t s idx (gm_del ?x its) (drops @ [gm_get its ?x])"
    using sz Suc.prems by (subst tsm_cap_loop.simps) simp
  also have "\<dots> = Some (filter (\<lambda>(n, tx). n \<notin> set (drop t (take s idx))) (gm_del ?x its),
      (drops @ [gm_get its ?x]) @ map (gm_get (gm_del ?x its)) (rev (drop t (take s idx))))"
    using Suc sz by (intro Suc.hyps(1)) auto
  also have "filter (\<lambda>(n, tx). n \<notin> set (drop t (take s idx))) (gm_del ?x its) =
      filter (\<lambda>(n, tx). n \<notin> set (drop t (take sz idx))) its"
    by (auto simp: AList.delete_eq tk intro!: filter_cong)
  also have "map (gm_get (gm_del ?x its)) (rev (drop t (take s idx))) =
      map (gm_get its) (rev (drop t (take s idx)))"
    using x by (auto simp: gm_get_del)
  finally show ?case by (simp add: tk)
qed

lemma filter_less_sorted:
  fixes ks :: "'a::linorder list"
  assumes "sorted ks" and "distinct ks" and "t < length ks"
  shows "filter (\<lambda>n. n < ks ! t) ks = take t ks"
proof -
  have "filter (\<lambda>n. n < ks ! t) (take t ks) = take t ks"
    using assms sorted_distinct_strict[OF assms(1,2)] by (auto simp: filter_id_conv in_set_conv_nth)
  moreover have "filter (\<lambda>n. n < ks ! t) (drop t ks) = []"
    using assms sorted_nth_mono[OF assms(1)] by (auto simp: filter_empty_conv in_set_conv_nth not_less)
  ultimately show ?thesis
    by (metis append_take_drop_id filter_append append_Nil2)
qed

lemma tsm_Cap_spec:
  assumes inv: "tsm_inv m" and thr: "0 \<le> threshold"
  defines "ks \<equiv> sort (gm_keys (items m))" and "t \<equiv> nat threshold"
  obtains m' where "tsm_Cap m threshold = Some (m', map (tsm_contents m) (rev (drop t ks)))"
    and "tsm_inv m'" and "items m' = filter (\<lambda>(n, tx). n \<in> set (take t ks)) (items m)"
proof (cases "int (length (items m)) \<le> threshold")
  case True
  then have "length ks \<le> t" by (simp add: ks_def t_def)
  then have "tsm_Cap m threshold = Some (m, map (tsm_contents m) (rev (drop t ks)))"
    "filter (\<lambda>(n, tx). n \<in> set (take t ks)) (items m) = items m"
    using True by (auto simp: tsm_Cap_def ks_def filter_id_conv intro: rev_image_eqI)
  then show ?thesis using that[of m] inv by simp
next
  case False
  have ok: "index_ok (index m) (items m)" and ca: "cache_ok (cache m) (items m)"
    using inv by (simp_all add: tsm_inv_def)
  have ks: "sorted ks" "distinct ks" "length ks = length (items m)" "t < length ks"
    using ok False thr by (auto simp: ks_def t_def index_ok_def)
  have idx: "sort (index m) = ks"
    unfolding ks_def using index_ok_mset[OF ok] by (intro properties_for_sort) simp_all
  let ?its = "filter (\<lambda>(n, tx). n < ks ! t) (items m)"
  have tk: "set (take t ks) = {n \<in> set ks. n < ks ! t}"
    using filter_less_sorted[OF ks(1,2,4)] by (metis set_filter)
  have kept: "filter (\<lambda>(n, tx). n \<notin> set (drop t ks)) (items m) = ?its"
    "filter (\<lambda>(n, tx). n \<in> set (take t ks)) (items m) = ?its"
  proof -
    have "n \<notin> set (drop t ks) \<longleftrightarrow> n \<in> set (take t ks)" if "n \<in> set ks" for n
      using that ks(2) by (metis append_take_drop_id distinct_append disjoint_iff Un_iff set_append)
    then have *: "(n \<notin> set (drop t ks) \<longleftrightarrow> n < ks ! t) \<and> (n \<in> set (take t ks) \<longleftrightarrow> n < ks ! t)"
      if "(n, tx) \<in> set (items m)" for n tx
      using that tk by (force simp: ks_def)
    show "filter (\<lambda>(n, tx). n \<notin> set (drop t ks)) (items m) = ?its"
      "filter (\<lambda>(n, tx). n \<in> set (take t ks)) (items m) = ?its"
      using * by (auto intro!: filter_cong)
  qed
  have "gm_keys ?its = filter (\<lambda>n. n < ks ! t) (gm_keys (items m))"
    by (simp add: filter_map comp_def case_prod_unfold)
  then have "mset (gm_keys ?its) = mset (filter (\<lambda>n. n < ks ! t) ks)"
    by (simp add: mset_filter ks_def)
  then have mk: "mset (gm_keys ?its) = mset (take t ks)" by (simp only: filter_less_sorted[OF ks(1,2,4)])
  have ok': "index_ok (heap_init nonce_less (take t ks)) ?its"
    using ok by (auto simp: index_ok_def nonce_order.heap_init_correct mk)
  have len: "t = length (filter (\<lambda>n. n < ks ! t) (gm_keys (items m)))"
    using mset_eq_length[OF mk] ks(4) by (simp add: filter_map comp_def case_prod_unfold)
  have loop: "tsm_cap_loop t (length (items m)) ks (items m) [] =
      Some (?its, map (tsm_contents m) (rev (drop t ks)))"
    using tsm_cap_loop_spec[of t "length (items m)" ks "items m" "[]"] ks kept
    by (simp add: tsm_contents_def)
  have vals: "\<forall>(n, tx) \<in> set (items m). AccountNonce tx = n" using ok by (simp add: index_ok_def)
  show ?thesis
  proof (cases "cache m")
    case None
    then show ?thesis
      using that[of "m\<lparr>items := ?its, index := heap_init nonce_less (take t ks)\<rparr>"] False thr loop idx ok' kept
      by (simp add: tsm_Cap_def t_def[symmetric] tsm_inv_def cache_ok_def)
  next
    case (Some c)
    then have c: "cache_ok (Some c) (items m)" using ca by simp
    have lc: "length c = length (items m)"
      using c mset_eq_length[of c "map snd (items m)"] by (simp add: cache_ok_def)
    have tt: "length c - length (drop t ks) = t" using lc ks by simp
    show ?thesis
      using that[of "\<lparr>items = ?its, index = heap_init nonce_less (take t ks), cache = Some (take t c)\<rparr>"]
        False thr loop idx ok' kept Some tt lc ks(3) cache_ok_forward(3)[OF c vals len]
      by (simp add: tsm_Cap_def t_def[symmetric] tsm_inv_def)
  qed
qed

lemma find_index_Some: "n \<in> set xs \<Longrightarrow> \<exists>i. find_index n xs = Some i \<and> i < length xs \<and> xs ! i = n"
  by (induction xs) (auto simp: nth_Cons split: nat.splits)

lemma tsm_Remove_spec:
  assumes "tsm_inv m"
  shows "tsm_inv (fst (tsm_Remove m nonce))"
    and "items (fst (tsm_Remove m nonce)) = gm_del nonce (items m)"
    and "snd (tsm_Remove m nonce) = (tsm_contents m nonce \<noteq> None)"
proof -
  have ok: "index_ok (index m) (items m)" using assms by (simp add: tsm_inv_def)
  have "tsm_inv (fst (tsm_Remove m nonce)) \<and> items (fst (tsm_Remove m nonce)) = gm_del nonce (items m) \<and>
      snd (tsm_Remove m nonce) = (tsm_contents m nonce \<noteq> None)"
  proof (cases "gm_get (items m) nonce")
    case None
    then have "gm_del nonce (items m) = items m" by (simp add: map_of_eq_None_iff)
    then show ?thesis using None assms by (simp add: tsm_Remove_def tsm_contents_def)
  next
    case (Some tx)
    then have mem: "nonce \<in> set (gm_keys (items m))" by (metis gm_get_None option.distinct(1))
    then obtain i where i: "find_index nonce (index m) = Some i" "i < length (index m)" "index m ! i = nonce"
      using find_index_Some index_ok_set[OF ok] by metis
    have heap: "is_heap nonce_less (index m)" using ok by (simp add: index_ok_def)
    obtain idx where r: "heap_remove nonce_less (index m) i = Some (nonce, idx)"
        "is_heap nonce_less idx" "add_mset nonce (mset idx) = mset (index m)"
      using nonce_order.heap_remove_correct[OF heap i(2)] i(3) by metis
    have "mset (gm_keys (gm_del nonce (items m))) = mset (gm_keys (items m)) - {#nonce#}"
      using ok by (simp add: index_ok_def gm_keys_del distinct_remove1_removeAll[symmetric]
          removeAll_filter_not_eq[symmetric] eq_commute[of _ nonce] flip: mset_remove1)
    then have "mset idx = mset (gm_keys (gm_del nonce (items m)))"
      using r(3) index_ok_mset[OF ok] by (metis add_mset_remove_trivial)
    then have "index_ok idx (gm_del nonce (items m))"
      using ok r(2) by (auto simp: index_ok_def AList.delete_eq)
    then show ?thesis using Some i r
      by (simp add: tsm_Remove_def tsm_inv_def cache_ok_def tsm_contents_def)
  qed
  then show "tsm_inv (fst (tsm_Remove m nonce))"
    "items (fst (tsm_Remove m nonce)) = gm_del nonce (items m)"
    "snd (tsm_Remove m nonce) = (tsm_contents m nonce \<noteq> None)" by auto
qed

text \<open>The \<open>k\<close> nonces from \<open>s\<close> on.\<close>

definition nonce_run :: "u64 \<Rightarrow> nat \<Rightarrow> u64 list" where
  "nonce_run s k = map (\<lambda>i. s + of_nat i) [0..<k]"

lemma nonce_run_Suc: "nonce_run s (Suc k) = s # nonce_run (s + 1) k"
  by (simp add: nonce_run_def upt_rec[of 0] map_Suc_upt[symmetric] comp_def algebra_simps del: upt_Suc)

lemma nonce_run_0 [simp]: "nonce_run s 0 = []"
  by (simp add: nonce_run_def)

lemma tsm_ready_loop_spec:
  "index_ok idx its \<Longrightarrow> (\<forall>n \<in> set idx. nxt \<le> n) \<Longrightarrow>
   \<exists>k idx'. tsm_ready_loop nxt idx its ready =
         (idx', filter (\<lambda>(n, tx). n \<notin> set (nonce_run nxt k)) its,
          ready @ map (gm_get its) (nonce_run nxt k)) \<and>
      index_ok idx' (filter (\<lambda>(n, tx). n \<notin> set (nonce_run nxt k)) its) \<and>
      set (nonce_run nxt k) \<subseteq> set (gm_keys its) \<and> distinct (nonce_run nxt k) \<and>
      nxt + of_nat k \<notin> set (gm_keys its) - set (nonce_run nxt k)"
proof (induction nxt idx its ready rule: tsm_ready_loop.induct)
  case (1 nxt idx its ready)
  show ?case
  proof (cases "idx \<noteq> [] \<and> idx ! 0 = nxt")
    case True
    then obtain idx1 where pop: "heap_pop nonce_less idx = Some (nxt, idx1)"
      and ok: "index_ok idx1 (gm_del nxt its)" and mem: "nxt \<in> set (gm_keys its)"
      using index_ok_pop[OF "1.prems"(1)] by metis
    have keys: "set (gm_keys (gm_del nxt its)) = set (gm_keys its) - {nxt}"
      by (auto simp: gm_keys_del)
    have ge: "\<forall>n \<in> set idx1. nxt + 1 \<le> n"
    proof
      fix n assume "n \<in> set idx1"
      then have "n \<in> set (gm_keys its)" "n \<noteq> nxt" using index_ok_set[OF ok] keys by auto
      then have "nxt < n" using "1.prems"(2) index_ok_set[OF "1.prems"(1)] by (metis order.not_eq_order_implies_strict)
      then show "nxt + 1 \<le> n" by (rule inc_le)
    qed
    obtain k idx' where IH:
      "tsm_ready_loop (nxt + 1) idx1 (gm_del nxt its) (ready @ [gm_get its nxt]) =
         (idx', filter (\<lambda>(n, tx). n \<notin> set (nonce_run (nxt + 1) k)) (gm_del nxt its),
          (ready @ [gm_get its nxt]) @ map (gm_get (gm_del nxt its)) (nonce_run (nxt + 1) k))"
      "index_ok idx' (filter (\<lambda>(n, tx). n \<notin> set (nonce_run (nxt + 1) k)) (gm_del nxt its))"
      "set (nonce_run (nxt + 1) k) \<subseteq> set (gm_keys (gm_del nxt its))" "distinct (nonce_run (nxt + 1) k)"
      "nxt + 1 + of_nat k \<notin> set (gm_keys (gm_del nxt its)) - set (nonce_run (nxt + 1) k)"
      using "1.IH"[OF True pop refl ok ge] by blast
    have fil: "filter (\<lambda>(n, tx). n \<notin> set (nonce_run (nxt + 1) k)) (gm_del nxt its) =
        filter (\<lambda>(n, tx). n \<notin> set (nonce_run nxt (Suc k))) its"
      by (auto simp: AList.delete_eq nonce_run_Suc intro!: filter_cong)
    have nin: "nxt \<notin> set (nonce_run (nxt + 1) k)" using IH(3) keys by auto
    then have get: "map (gm_get (gm_del nxt its)) (nonce_run (nxt + 1) k) = map (gm_get its) (nonce_run (nxt + 1) k)"
      by (auto simp: gm_get_del)
    have "tsm_ready_loop nxt idx its ready =
        tsm_ready_loop (nxt + 1) idx1 (gm_del nxt its) (ready @ [gm_get its nxt])"
      using True pop by (subst tsm_ready_loop.simps) simp
    then have "tsm_ready_loop nxt idx its ready =
         (idx', filter (\<lambda>(n, tx). n \<notin> set (nonce_run nxt (Suc k))) its,
          ready @ map (gm_get its) (nonce_run nxt (Suc k)))"
      using IH(1) fil get by (simp add: nonce_run_Suc)
    moreover have "nxt + of_nat (Suc k) \<notin> set (gm_keys its) - set (nonce_run nxt (Suc k))"
      using IH(5) keys by (auto simp: nonce_run_Suc algebra_simps)
    ultimately show ?thesis
      using IH(2,3,4) fil keys mem nin
      by (intro exI[of _ "Suc k"] exI[of _ idx']) (auto simp: nonce_run_Suc)
  next
    case False
    have "nxt \<notin> set (gm_keys its)"
    proof
      assume m: "nxt \<in> set (gm_keys its)"
      then have "idx \<noteq> []" using index_ok_set[OF "1.prems"(1)] by auto
      moreover have "idx ! 0 \<le> nxt" using index_ok_min[OF "1.prems"(1) m] .
      moreover have "nxt \<le> idx ! 0" using "1.prems"(2) \<open>idx \<noteq> []\<close> by simp
      ultimately show False using False by auto
    qed
    moreover have "tsm_ready_loop nxt idx its ready = (idx, its, ready)"
      using False by (subst tsm_ready_loop.simps) auto
    ultimately show ?thesis
      using "1.prems"(1) by (intro exI[of _ 0] exI[of _ idx]) (simp add: filter_id_conv)
  qed
qed

text \<open>
  \<open>Ready\<close> hands out a gap-free run of nonces that starts at the lowest one, and stops only
  where the map has no next nonce.
\<close>

lemma tsm_Ready_spec:
  assumes inv: "tsm_inv m" and ne: "index m \<noteq> []" and le: "index m ! 0 \<le> start"
  defines "s \<equiv> Min (dom (tsm_contents m))"
  obtains k m' where "tsm_Ready m start = (m', map (tsm_contents m) (nonce_run s k))"
    and "tsm_inv m'" and "items m' = filter (\<lambda>(n, tx). n \<notin> set (nonce_run s k)) (items m)"
    and "set (nonce_run s k) \<subseteq> dom (tsm_contents m)" and "distinct (nonce_run s k)"
    and "s + of_nat k \<notin> dom (tsm_contents m')" and "0 < k"
proof -
  have ok: "index_ok (index m) (items m)" using inv by (simp add: tsm_inv_def)
  have dom: "dom (tsm_contents m) = set (gm_keys (items m))"
    by (simp add: tsm_contents_def dom_map_of_conv_image_fst)
  have mem: "index m ! 0 \<in> set (gm_keys (items m))"
    using index_ok_set[OF ok] ne by (metis length_greater_0_conv nth_mem)
  have s: "s = index m ! 0"
    unfolding s_def dom by (rule Min_eqI) (use mem index_ok_min[OF ok] in auto)
  have ge: "\<forall>n \<in> set (index m). s \<le> n"
    using index_ok_min[OF ok] index_ok_set[OF ok] s by auto
  obtain k idx where L:
    "tsm_ready_loop s (index m) (items m) [] =
       (idx, filter (\<lambda>(n, tx). n \<notin> set (nonce_run s k)) (items m), map (gm_get (items m)) (nonce_run s k))"
    "index_ok idx (filter (\<lambda>(n, tx). n \<notin> set (nonce_run s k)) (items m))"
    "set (nonce_run s k) \<subseteq> set (gm_keys (items m))" "distinct (nonce_run s k)"
    "s + of_nat k \<notin> set (gm_keys (items m)) - set (nonce_run s k)"
    using tsm_ready_loop_spec[OF ok ge, of "[]"] by auto
  have k: "0 < k" using L(5) mem s by (cases k) auto
  let ?m = "\<lparr>items = filter (\<lambda>(n, tx). n \<notin> set (nonce_run s k)) (items m), index = idx, cache = None\<rparr>"
  have "s + of_nat k \<notin> dom (tsm_contents ?m)"
    using L(5) by (auto simp: tsm_contents_def dom_map_of_conv_image_fst)
  then show ?thesis
    using that[of ?m k] L k dom ne leD[OF le] s
    by (simp add: tsm_Ready_def tsm_inv_def cache_ok_def tsm_contents_def)
qed

lemma tsm_Flatten_spec:
  assumes "tsm_inv m"
  shows "tsm_inv (fst (tsm_Flatten m))" and "items (fst (tsm_Flatten m)) = items m"
    and "sorted (map AccountNonce (snd (tsm_Flatten m)))"
    and "mset (snd (tsm_Flatten m)) = mset (map snd (items m))"
  using assms
  by (auto simp: tsm_Flatten_def tsm_inv_def cache_ok_def Let_def split: option.splits)

subsection \<open>The contract of the nonce map\<close>

text \<open>
  What the account lists rely on: a finite map from nonces to transactions with insertion,
  removal, and a filter that reports what it drops.
\<close>

locale nonce_map =
  fixes inv :: "'m \<Rightarrow> bool"
    and contents :: "'m \<Rightarrow> u64 \<rightharpoonup> transaction"
    and put :: "'m \<Rightarrow> transaction \<Rightarrow> 'm"
    and filt :: "'m \<Rightarrow> (transaction \<Rightarrow> bool) \<Rightarrow> 'm \<times> transaction list"
    and remove :: "'m \<Rightarrow> u64 \<Rightarrow> 'm \<times> bool"
  assumes key: "inv m \<Longrightarrow> contents m n = Some tx \<Longrightarrow> AccountNonce tx = n"
    and put_inv: "inv m \<Longrightarrow> inv (put m tx)"
    and put_contents: "inv m \<Longrightarrow> contents (put m tx) = (contents m)(AccountNonce tx \<mapsto> tx)"
    and filt_inv: "inv m \<Longrightarrow> inv (fst (filt m p))"
    and filt_contents: "inv m \<Longrightarrow> contents (fst (filt m p)) n =
          (case contents m n of None \<Rightarrow> None | Some tx \<Rightarrow> if p tx then None else Some tx)"
    and filt_dropped: "inv m \<Longrightarrow> set (snd (filt m p)) = {tx. p tx \<and> tx \<in> ran (contents m)}"
    and remove_inv: "inv m \<Longrightarrow> inv (fst (remove m n))"
    and remove_contents: "inv m \<Longrightarrow> contents (fst (remove m n)) = (contents m)(n := None)"
    and remove_found: "inv m \<Longrightarrow> snd (remove m n) \<longleftrightarrow> contents m n \<noteq> None"
begin

lemma ran_key: "inv m \<Longrightarrow> tx \<in> ran (contents m) \<longleftrightarrow> contents m (AccountNonce tx) = Some tx"
  by (auto simp: ran_def dest: key)

lemma filt_ran: "inv m \<Longrightarrow> ran (contents (fst (filt m p))) = {tx \<in> ran (contents m). \<not> p tx}"
  by (auto simp: ran_key filt_inv filt_contents split: option.splits if_splits)

lemma filt_none: "inv m \<Longrightarrow> (\<forall>tx \<in> ran (contents m). \<not> p tx) \<Longrightarrow> contents (fst (filt m p)) = contents m"
  by (rule ext) (auto simp: filt_contents ran_def split: option.splits)

text \<open>Cutting the map above a nonce keeps exactly the entries up to it.\<close>

lemma filt_above:
  assumes "inv m"
  shows "contents (fst (filt m (\<lambda>tx. c < AccountNonce tx))) = contents m |` {..c}"
proof
  fix n
  show "contents (fst (filt m (\<lambda>tx. c < AccountNonce tx))) n = (contents m |` {..c}) n"
    using assms key[OF assms, of n]
    by (cases "contents m n") (auto simp: filt_contents restrict_map_def not_le)
qed

text \<open>Removing a nonce and then cutting above it leaves exactly what is below it.\<close>

lemma remove_strict:
  assumes "inv m"
  shows "contents (fst (filt (fst (remove m c)) (\<lambda>tx. c < AccountNonce tx))) = contents m |` {..<c}"
  unfolding filt_above[OF remove_inv[OF assms]] remove_contents[OF assms]
  by (rule ext) (auto simp: restrict_map_def)

end

lemma tsm_contents_ran: "tsm_inv m \<Longrightarrow> ran (tsm_contents m) = snd ` set (items m)"
  by (force simp: tsm_contents_def ran_def tsm_inv_def index_ok_def intro: rev_image_eqI)

lemma tsm_inv_wf: "tsm_inv m \<Longrightarrow> gm_wf (items m)"
  by (simp add: tsm_inv_def index_ok_def)

lemma tsm_Filter_contents:
  assumes "tsm_inv m"
  shows "tsm_contents (fst (tsm_Filter m p)) n =
    (case tsm_contents m n of None \<Rightarrow> None | Some tx \<Rightarrow> if p tx then None else Some tx)"
proof -
  have "gm_get (filter (\<lambda>(n, tx). \<not> p tx) (items m)) n =
      (case gm_get (items m) n of None \<Rightarrow> None | Some tx \<Rightarrow> if p tx then None else Some tx)"
    using tsm_inv_wf[OF assms] by (auto simp: gm_filter_get split: option.splits)
  then show ?thesis by (simp add: tsm_contents_def tsm_Filter_spec[OF assms])
qed

interpretation tsm: nonce_map tsm_inv tsm_contents tsm_Put tsm_Filter tsm_Remove
proof
  fix m :: txSortedMap and tx :: transaction and n :: u64 and p :: "transaction \<Rightarrow> bool"
  assume inv: "tsm_inv m"
  show "tsm_contents m n = Some tx \<Longrightarrow> AccountNonce tx = n"
    using inv by (auto simp: tsm_contents_def tsm_inv_def index_ok_def dest: map_of_SomeD)
  show "tsm_inv (tsm_Put m tx)" "tsm_contents (tsm_Put m tx) = (tsm_contents m)(AccountNonce tx \<mapsto> tx)"
    using tsm_Put_spec[OF inv] by auto
  show "tsm_inv (fst (tsm_Filter m p))" using tsm_Filter_spec[OF inv] by auto
  show "tsm_contents (fst (tsm_Filter m p)) n =
      (case tsm_contents m n of None \<Rightarrow> None | Some tx \<Rightarrow> if p tx then None else Some tx)"
    by (rule tsm_Filter_contents[OF inv])
  show "set (snd (tsm_Filter m p)) = {tx. p tx \<and> tx \<in> ran (tsm_contents m)}"
    unfolding tsm_Filter_spec(3)[OF inv] tsm_contents_ran[OF inv] by force
  show "tsm_inv (fst (tsm_Remove m n))" "snd (tsm_Remove m n) \<longleftrightarrow> tsm_contents m n \<noteq> None"
    using tsm_Remove_spec[OF inv] by auto
  show "tsm_contents (fst (tsm_Remove m n)) = (tsm_contents m)(n := None)"
    by (rule ext) (simp add: tsm_contents_def tsm_Remove_spec(2)[OF inv] gm_get_del)
qed

subsection \<open>Properties\<close>


definition demo_map :: txSortedMap where
  "demo_map = fold (\<lambda>n m. tsm_Put m (NewTransaction n 7 None 21000 None [])) [6, 3, 4] newTxSortedMap"

lemma demo_map_inv: "tsm_inv demo_map"
  unfolding demo_map_def by (simp add: tsm.put_inv tsm_inv_new)

lemma demo_map_dom: "dom (tsm_contents demo_map) = {3, 4, 6}"
proof -
  have "gm_keys (items demo_map) = [6, 3, 4]" by code_simp
  then show ?thesis by (simp add: tsm_contents_def dom_map_of_conv_image_fst insert_commute flip: list.set_map)
qed


text \<open>C30: \<open>Forward\<close> removes exactly the nonces below the threshold and returns their transactions in
  nonce order; \<open>Cap\<close> keeps exactly the \<open>threshold\<close> lowest nonces and returns the others, highest nonce first.
  Neither can panic on a consistent map, also when the sorted cache is sliced along, and both
  keep heap and cache consistent.\<close>

theorem tsm_Forward_Cap_correct:
  assumes "tsm_inv m" and "0 \<le> cap"
  shows "\<exists>m1 m2.
      tsm_Forward m t = Some (m1, map (tsm_contents m) (sort (filter (\<lambda>n. n < t) (gm_keys (items m))))) \<and>
      tsm_inv m1 \<and> tsm_contents m1 = tsm_contents m |` {n. \<not> n < t} \<and>
      tsm_Cap m cap = Some (m2, map (tsm_contents m) (rev (drop (nat cap) (sort (gm_keys (items m)))))) \<and>
      tsm_inv m2 \<and> tsm_contents m2 = tsm_contents m |` set (take (nat cap) (sort (gm_keys (items m))))"
proof -
  note wf = tsm_inv_wf[OF assms(1)]
  obtain m1 where m1: "tsm_Forward m t = Some (m1, map (tsm_contents m) (sort (filter (\<lambda>n. n < t) (gm_keys (items m)))))"
      "tsm_inv m1" "items m1 = filter (\<lambda>(n, tx). \<not> n < t) (items m)"
    using tsm_Forward_spec[OF assms(1)] .
  obtain m2 where m2: "tsm_Cap m cap = Some (m2, map (tsm_contents m) (rev (drop (nat cap) (sort (gm_keys (items m))))))"
      "tsm_inv m2" "items m2 = filter (\<lambda>(n, tx). n \<in> set (take (nat cap) (sort (gm_keys (items m))))) (items m)"
    using tsm_Cap_spec[OF assms] .
  have "tsm_contents m1 = tsm_contents m |` {n. \<not> n < t}"
    using wf by (auto simp: tsm_contents_def m1(3) gm_filter_get restrict_map_def fun_eq_iff split: option.splits)
  moreover have "tsm_contents m2 = tsm_contents m |` set (take (nat cap) (sort (gm_keys (items m))))"
    using wf by (auto simp: tsm_contents_def m2(3) gm_filter_get restrict_map_def fun_eq_iff split: option.splits)
  ultimately show ?thesis using m1(1,2) m2(1,2) by blast
qed

theorem tsm_Forward_Cap_correct_witness:
  "tsm_inv (fst (tsm_Flatten demo_map)) \<and>
   map_option (map (map_option AccountNonce) \<circ> snd) (tsm_Cap (fst (tsm_Flatten demo_map)) 1) = Some [Some 6, Some 4] \<and>
   (\<exists>m1. tsm_Forward (fst (tsm_Flatten demo_map)) 4 = Some (m1, map (tsm_contents (fst (tsm_Flatten demo_map))) [3]) \<and> tsm_inv m1)"
proof -
  have inv: "tsm_inv (fst (tsm_Flatten demo_map))" by (rule tsm_Flatten_spec(1)[OF demo_map_inv])
  have "sort (filter (\<lambda>n. n < 4) (gm_keys (items (fst (tsm_Flatten demo_map))))) = [3]"
    "map_option (map (map_option AccountNonce) \<circ> snd) (tsm_Cap (fst (tsm_Flatten demo_map)) 1) = Some [Some 6, Some 4]"
    by code_simp+
  then show ?thesis using tsm_Forward_Cap_correct[OF inv, of 1 4] inv by auto
qed

end
