(* ===== verification/Tx_List.thy ===== *)
theory Tx_List
  imports Tx_Sorted_Map
begin

text \<open>
  \<open>core/tx_list.go\<close>: the \<open>txList\<close> of one account, a nonce map with the caps \<open>costcap\<close> and \<open>gascap\<close>
  on what its transactions cost, in strict (gap-free, executable) or loose (future) mode.  The
  lemmas rest on the contract \<open>nonce_map\<close> interpreted on \<open>txSortedMap\<close>: the caps bound every
  transaction, so that the short circuit of \<open>Filter\<close> is sound; a replacement needs the price bump;
  \<open>Filter\<close> and \<open>Remove\<close> keep a strict list gap-free.
\<close>

subsection \<open>txList\<close>

record txList =
  strict :: bool
  txs :: txSortedMap
  costcap :: bigint
  gascap :: u64

definition newTxList :: "bool \<Rightarrow> txList" where
  "newTxList s = \<lparr>strict = s, txs = newTxSortedMap, costcap = 0, gascap = 0\<rparr>"

definition txl_Overlaps :: "txList \<Rightarrow> transaction \<Rightarrow> bool" where
  "txl_Overlaps l tx = (tsm_Get (txs l) (AccountNonce tx) \<noteq> None)"

text \<open>
  \<open>int64(priceBump)\<close> reinterprets the bump as a signed number, and \<open>100 + int64(priceBump)\<close>
  wraps at 64 bits; \<open>big.Int.Div\<close> by the positive 100 rounds towards minus infinity.
\<close>

definition price_threshold :: "bigint \<Rightarrow> u64 \<Rightarrow> bigint" where
  "price_threshold old priceBump = (old * sint (100 + priceBump)) div 100"

definition txl_Add :: "txList \<Rightarrow> transaction \<Rightarrow> u64 \<Rightarrow> txList \<times> bool \<times> transaction option" where
  "txl_Add l tx priceBump =
     (let old = tsm_Get (txs l) (AccountNonce tx);
          rejected = (case old of
                        None \<Rightarrow> False
                      | Some o' \<Rightarrow> Cmp (Price o') (Price tx) \<ge> 0 \<or>
                                  Cmp (price_threshold (Price o') priceBump) (Price tx) > 0)
      in if rejected then (l, False, None)
         else (l\<lparr>txs := tsm_Put (txs l) tx,
                 costcap := (if Cmp (costcap l) (Cost tx) < 0 then Cost tx else costcap l),
                 gascap := (if gascap l < GasLimit tx then GasLimit tx else gascap l)\<rparr>, True, old))"

definition txl_Forward :: "txList \<Rightarrow> u64 \<Rightarrow> (txList \<times> transaction option list) option" where
  "txl_Forward l threshold =
     (case tsm_Forward (txs l) threshold of
        None \<Rightarrow> None | Some (m, removed) \<Rightarrow> Some (l\<lparr>txs := m\<rparr>, removed))"

definition lowest_nonce :: "transaction list \<Rightarrow> u64" where
  "lowest_nonce removed =
     fold (\<lambda>tx lowest. if AccountNonce tx < lowest then AccountNonce tx else lowest) removed max_u64"

definition txl_Filter :: "txList \<Rightarrow> bigint \<Rightarrow> u64 \<Rightarrow> txList \<times> transaction list \<times> transaction list" where
  "txl_Filter l costLimit gasLimit =
     (if Cmp (costcap l) costLimit \<le> 0 \<and> gascap l \<le> gasLimit then (l, [], [])
      else
        let l1 = l\<lparr>costcap := costLimit, gascap := gasLimit\<rparr>;
            (m, removed) = tsm_Filter (txs l1) (\<lambda>tx. Cmp (Cost tx) costLimit > 0 \<or> gasLimit < GasLimit tx)
        in if strict l1 \<and> removed \<noteq> []
           then let lowest = lowest_nonce removed;
                    (m', invalids) = tsm_Filter m (\<lambda>tx. lowest < AccountNonce tx)
                in (l1\<lparr>txs := m'\<rparr>, removed, invalids)
           else (l1\<lparr>txs := m\<rparr>, removed, []))"

definition txl_Cap :: "txList \<Rightarrow> int \<Rightarrow> (txList \<times> transaction option list) option" where
  "txl_Cap l threshold =
     (case tsm_Cap (txs l) threshold of
        None \<Rightarrow> None | Some (m, drops) \<Rightarrow> Some (l\<lparr>txs := m\<rparr>, drops))"

definition txl_Remove :: "txList \<Rightarrow> transaction \<Rightarrow> txList \<times> bool \<times> transaction list" where
  "txl_Remove l tx =
     (let nonce = AccountNonce tx; (m, removed) = tsm_Remove (txs l) nonce in
      if \<not> removed then (l\<lparr>txs := m\<rparr>, False, [])
      else if strict l
           then let (m', invalids) = tsm_Filter m (\<lambda>t. nonce < AccountNonce t)
                in (l\<lparr>txs := m'\<rparr>, True, invalids)
           else (l\<lparr>txs := m\<rparr>, True, []))"

definition txl_Ready :: "txList \<Rightarrow> u64 \<Rightarrow> txList \<times> transaction option list" where
  "txl_Ready l start = (let (m, ready) = tsm_Ready (txs l) start in (l\<lparr>txs := m\<rparr>, ready))"

definition txl_Len :: "txList \<Rightarrow> nat" where
  "txl_Len l = tsm_Len (txs l)"

definition txl_Empty :: "txList \<Rightarrow> bool" where
  "txl_Empty l = (txl_Len l = 0)"

definition txl_Flatten :: "txList \<Rightarrow> txList \<times> transaction list" where
  "txl_Flatten l = (let (m, ts) = tsm_Flatten (txs l) in (l\<lparr>txs := m\<rparr>, ts))"

subsection \<open>The invariant of txList\<close>

abbreviation txl_contents :: "txList \<Rightarrow> u64 \<rightharpoonup> transaction" where
  "txl_contents l \<equiv> tsm_contents (txs l)"

definition txl_inv :: "txList \<Rightarrow> bool" where
  "txl_inv l \<longleftrightarrow> tsm_inv (txs l) \<and>
     (\<forall>tx \<in> ran (txl_contents l). Cost tx \<le> costcap l \<and> GasLimit tx \<le> gascap l)"

lemma txl_inv_map: "txl_inv l \<Longrightarrow> tsm_inv (txs l)"
  by (simp add: txl_inv_def)

lemma txl_inv_shrink:
  "txl_inv l \<Longrightarrow> tsm_inv m \<Longrightarrow> ran (tsm_contents m) \<subseteq> ran (txl_contents l) \<Longrightarrow> txl_inv (l\<lparr>txs := m\<rparr>)"
  by (auto simp: txl_inv_def)

lemma Cmp_simps [simp]:
  "Cmp x y < 0 \<longleftrightarrow> x < y" "Cmp x y > 0 \<longleftrightarrow> y < x" "Cmp x y \<ge> 0 \<longleftrightarrow> y \<le> x" "Cmp x y \<le> 0 \<longleftrightarrow> x \<le> y"
  by (auto simp: Cmp_def)

lemma txl_inv_new: "txl_inv (newTxList s)"
  using tsm_inv_new by (simp add: txl_inv_def newTxList_def tsm_contents_def newTxSortedMap_def)

text \<open>Whether \<open>Add\<close> accepts: a fresh nonce, or a price above the old one and its bumped threshold.\<close>

definition txl_accepts :: "txList \<Rightarrow> transaction \<Rightarrow> u64 \<Rightarrow> bool" where
  "txl_accepts l tx bump \<longleftrightarrow>
     (case txl_contents l (AccountNonce tx) of
        None \<Rightarrow> True
      | Some old \<Rightarrow> Price old < Price tx \<and> price_threshold (Price old) bump \<le> Price tx)"

lemma txl_Add_rejected: "\<not> txl_accepts l tx bump \<Longrightarrow> txl_Add l tx bump = (l, False, None)"
  by (auto simp: txl_Add_def txl_accepts_def tsm_Get_def tsm_contents_def split: option.splits)

lemma txl_Add_accepted:
  "txl_accepts l tx bump \<Longrightarrow> txl_Add l tx bump =
     (l\<lparr>txs := tsm_Put (txs l) tx, costcap := max (costcap l) (Cost tx), gascap := max (gascap l) (GasLimit tx)\<rparr>,
      True, txl_contents l (AccountNonce tx))"
  by (auto simp: txl_Add_def txl_accepts_def tsm_Get_def tsm_contents_def max_def split: option.splits)

lemma txl_Add_inv: "txl_inv l \<Longrightarrow> txl_inv (fst (txl_Add l tx bump))"
proof (cases "txl_accepts l tx bump")
  case True
  assume "txl_inv l"
  then show ?thesis
    using True tsm.put_contents[of "txs l" tx] tsm.put_inv[of "txs l" tx]
    by (auto simp: txl_Add_accepted txl_inv_def ran_def max.coboundedI1)
qed (simp add: txl_Add_rejected)

lemma price_threshold_small:
  "uint bump < 2 ^ 63 - 100 \<Longrightarrow> price_threshold old bump = (old * (100 + uint bump)) div 100"
proof -
  assume b: "uint bump < 2 ^ 63 - 100"
  have "sint (100 + bump) = 100 + uint bump"
  proof -
    have u: "uint (100 + bump) = 100 + uint bump"
      using b by (simp add: uint_word_ariths)
    then show ?thesis using b by (simp add: sint_uint signed_take_bit_eq_if_positive bit_iff_odd take_bit_int_eq_self)
  qed
  then show ?thesis by (simp add: price_threshold_def)
qed

subsection \<open>Filter and Remove\<close>

lemma lowest_nonce_fold:
  "fold (\<lambda>tx lowest. if AccountNonce tx < lowest then AccountNonce tx else lowest) ts a =
   Min (insert a (AccountNonce ` set ts))"
proof (induction ts arbitrary: a)
  case (Cons t ts)
  have "Min (insert a (insert (AccountNonce t) (AccountNonce ` set ts))) =
      Min (insert (min a (AccountNonce t)) (AccountNonce ` set ts))"
    by (cases "ts = []") (simp_all add: min.assoc)
  then show ?case using Cons by (auto simp: min_def)
qed simp

lemma le_max_u64: "(w :: u64) \<le> max_u64"
  using uint_bounded[of w] by (simp add: word_le_def)

lemma lowest_nonce_Min: "ts \<noteq> [] \<Longrightarrow> lowest_nonce ts = Min (AccountNonce ` set ts)"
  by (simp add: lowest_nonce_def lowest_nonce_fold min_absorb2[OF le_max_u64])

definition unpayable :: "bigint \<Rightarrow> u64 \<Rightarrow> transaction \<Rightarrow> bool" where
  "unpayable costLimit gasLimit tx \<longleftrightarrow> costLimit < Cost tx \<or> gasLimit < GasLimit tx"

text \<open>The specification of \<open>Filter\<close>: what stays in the list.\<close>

definition payable_part :: "txList \<Rightarrow> bigint \<Rightarrow> u64 \<Rightarrow> u64 \<rightharpoonup> transaction" where
  "payable_part l c g = txl_contents l |`
     {n. (\<forall>tx. txl_contents l n = Some tx \<longrightarrow> \<not> unpayable c g tx) \<and>
         (strict l \<longrightarrow> (\<forall>k tx. txl_contents l k = Some tx \<and> unpayable c g tx \<longrightarrow> n < k))}"

lemma txl_Filter_short:
  assumes inv: "txl_inv l" and short: "costcap l \<le> c" "gascap l \<le> g"
  shows "txl_Filter l c g = (l, [], [])" and "payable_part l c g = txl_contents l"
proof -
  have none: "\<not> unpayable c g tx" if "txl_contents l k = Some tx" for k tx
  proof -
    have "Cost tx \<le> costcap l" "GasLimit tx \<le> gascap l" using that inv by (auto simp: txl_inv_def ran_def)
    then show ?thesis using short by (auto simp: unpayable_def)
  qed
  show "txl_Filter l c g = (l, [], [])" using short by (simp add: txl_Filter_def)
  show "payable_part l c g = txl_contents l"
    using none by (auto simp: payable_part_def restrict_map_def fun_eq_iff)
qed

lemma txl_Filter_removed:
  assumes inv: "txl_inv l" and long: "\<not> (costcap l \<le> c \<and> gascap l \<le> g)"
  defines "f \<equiv> tsm_Filter (txs l) (unpayable c g)"
  shows "txl_Filter l c g =
    (if strict l \<and> snd f \<noteq> []
     then (l\<lparr>costcap := c, gascap := g,
             txs := fst (tsm_Filter (fst f) (\<lambda>tx. Min (AccountNonce ` set (snd f)) < AccountNonce tx))\<rparr>,
           snd f, snd (tsm_Filter (fst f) (\<lambda>tx. Min (AccountNonce ` set (snd f)) < AccountNonce tx)))
     else (l\<lparr>costcap := c, gascap := g, txs := fst f\<rparr>, snd f, []))"
proof -
  have "(\<lambda>tx. Cmp (Cost tx) c > 0 \<or> g < GasLimit tx) = unpayable c g"
    by (auto simp: unpayable_def fun_eq_iff)
  then show ?thesis
    using long
    by (cases "tsm_Filter (txs l) (unpayable c g)")
       (auto simp: txl_Filter_def f_def Let_def lowest_nonce_Min case_prod_unfold)
qed

lemma txl_Filter_long:
  assumes inv: "txl_inv l" and long: "\<not> (costcap l \<le> c \<and> gascap l \<le> g)"
  shows "txl_inv (fst (txl_Filter l c g))" (is ?A)
    and "txl_contents (fst (txl_Filter l c g)) = payable_part l c g" (is ?B)
    and "set (fst (snd (txl_Filter l c g))) = {tx \<in> ran (txl_contents l). unpayable c g tx}" (is ?C)
    and "set (snd (snd (txl_Filter l c g))) =
           ran (txl_contents l) - ran (payable_part l c g) - {tx. unpayable c g tx}" (is ?D)
proof -
  define f where "f = tsm_Filter (txs l) (unpayable c g)"
  define R where "R = AccountNonce ` set (snd f)"
  define cut where "cut = tsm_Filter (fst f) (\<lambda>tx. Min R < AccountNonce tx)"
  note m = txl_inv_map[OF inv]
  have mf: "tsm_inv (fst f)" unfolding f_def by (rule tsm.filt_inv[OF m])
  have dropped: "set (snd f) = {tx. unpayable c g tx \<and> tx \<in> ran (txl_contents l)}"
    unfolding f_def by (rule tsm.filt_dropped[OF m])
  have ranf: "ran (tsm_contents (fst f)) = {tx \<in> ran (txl_contents l). \<not> unpayable c g tx}"
    unfolding f_def by (rule tsm.filt_ran[OF m])
  have conf: "tsm_contents (fst f) n =
      (case txl_contents l n of None \<Rightarrow> None | Some tx \<Rightarrow> if unpayable c g tx then None else Some tx)" for n
    unfolding f_def by (rule tsm.filt_contents[OF m])
  have R: "k \<in> R \<longleftrightarrow> (\<exists>tx. txl_contents l k = Some tx \<and> unpayable c g tx)" for k
    unfolding R_def dropped using tsm.key[OF m] by (force simp: ran_def)
  have eq: "txl_Filter l c g =
     (if strict l \<and> snd f \<noteq> [] then (l\<lparr>costcap := c, gascap := g, txs := fst cut\<rparr>, snd f, snd cut)
      else (l\<lparr>costcap := c, gascap := g, txs := fst f\<rparr>, snd f, []))"
    using txl_Filter_removed[OF inv long] unfolding cut_def R_def f_def .
  show ?C unfolding eq using dropped by auto
  show ?A
    using mf ranf tsm.filt_inv[OF mf] tsm.filt_ran[OF mf]
    by (auto simp: eq txl_inv_def cut_def unpayable_def not_less)
  have "?B \<and> ?D"
  proof (cases "strict l \<and> snd f \<noteq> []")
    case False
    then have P: "payable_part l c g = tsm_contents (fst f)"
      using R by (auto simp: payable_part_def restrict_map_def fun_eq_iff conf R_def split: option.splits)
    show ?thesis unfolding P using False ranf by (auto simp: eq)
  next
    case True
    then have "R \<noteq> {}" "finite R" by (auto simp: R_def)
    then have below: "n < Min R \<longleftrightarrow> (\<forall>k \<in> R. n < k)" and inR: "Min R \<in> R" for n by simp_all
    have cutc: "tsm_contents (fst cut) = tsm_contents (fst f) |` {..Min R}"
      unfolding cut_def by (rule tsm.filt_above[OF mf])
    have minR: "tsm_contents (fst f) (Min R) = None" using inR R conf by (auto split: option.splits)
    have B: "payable_part l c g = tsm_contents (fst cut)"
    proof
      fix n
      show "payable_part l c g n = tsm_contents (fst cut) n"
        using True below[of n] R minR unfolding cutc
        by (cases "n = Min R") (auto simp: payable_part_def restrict_map_def conf split: option.splits)
    qed
    have "set (snd cut) = {tx. Min R < AccountNonce tx \<and> tx \<in> ran (tsm_contents (fst f))}"
      unfolding cut_def by (rule tsm.filt_dropped[OF mf])
    moreover have "ran (tsm_contents (fst cut)) = {tx \<in> ran (tsm_contents (fst f)). \<not> Min R < AccountNonce tx}"
      unfolding cut_def by (rule tsm.filt_ran[OF mf])
    ultimately show ?thesis using True ranf by (auto simp: eq B)
  qed
  then show ?B ?D by auto
qed

lemma txl_Remove_spec:
  assumes inv: "txl_inv l"
  shows "txl_inv (fst (txl_Remove l tx))" (is ?A)
    and "fst (snd (txl_Remove l tx)) \<longleftrightarrow> txl_contents l (AccountNonce tx) \<noteq> None" (is ?B)
    and "txl_contents l (AccountNonce tx) \<noteq> None \<Longrightarrow>
         txl_contents (fst (txl_Remove l tx)) =
           txl_contents l |` {n. n \<noteq> AccountNonce tx \<and> (strict l \<longrightarrow> n < AccountNonce tx)}" (is "_ \<Longrightarrow> ?C")
    and "txl_contents l (AccountNonce tx) = None \<Longrightarrow> txl_contents (fst (txl_Remove l tx)) = txl_contents l" (is "_ \<Longrightarrow> ?D")
proof -
  let ?n = "AccountNonce tx" and ?r = "tsm_Remove (txs l) (AccountNonce tx)"
  note m = txl_inv_map[OF inv]
  have eq: "txl_Remove l tx =
     (if \<not> snd ?r then (l\<lparr>txs := fst ?r\<rparr>, False, [])
      else if strict l then (l\<lparr>txs := fst (tsm_Filter (fst ?r) (\<lambda>t. ?n < AccountNonce t))\<rparr>, True,
                             snd (tsm_Filter (fst ?r) (\<lambda>t. ?n < AccountNonce t)))
      else (l\<lparr>txs := fst ?r\<rparr>, True, []))"
    by (simp add: txl_Remove_def Let_def case_prod_unfold)
  show ?B using tsm.remove_found[OF m] by (auto simp: eq)
  have sub: "ran (tsm_contents (fst ?r)) \<subseteq> ran (txl_contents l)"
    unfolding tsm.remove_contents[OF m] by (auto simp: ran_def split: if_splits)
  have sub2: "ran (tsm_contents (fst (tsm_Filter (fst ?r) (\<lambda>t. ?n < AccountNonce t)))) \<subseteq> ran (txl_contents l)"
    unfolding tsm.filt_ran[OF tsm.remove_inv[OF m]] using sub by auto
  show ?A
    unfolding eq using txl_inv_shrink[OF inv _ sub] txl_inv_shrink[OF inv _ sub2] tsm.remove_inv[OF m]
    by (simp add: tsm.filt_inv)
  show ?C if "txl_contents l ?n \<noteq> None"
    using that tsm.remove_found[OF m] tsm.remove_strict[OF m] tsm.remove_contents[OF m, of ?n]
    by (auto simp: eq restrict_map_def fun_eq_iff)
  show ?D if "txl_contents l ?n = None"
    using that tsm.remove_found[OF m, of ?n] tsm.remove_contents[OF m, of ?n]
    by (auto simp: eq fun_eq_iff)
qed

text \<open>Strict lists have no gaps: every nonce between two of the list is in the list.\<close>

definition gap_free :: "u64 set \<Rightarrow> bool" where
  "gap_free N \<longleftrightarrow> (\<forall>a \<in> N. \<forall>b \<in> N. \<forall>n. a \<le> n \<and> n \<le> b \<longrightarrow> n \<in> N)"

lemma gap_free_cut: "gap_free N \<Longrightarrow> (\<And>n k. k \<in> D \<Longrightarrow> n \<le> k \<Longrightarrow> n \<in> D) \<Longrightarrow> gap_free (N \<inter> D)"
  by (auto simp: gap_free_def)

lemma txl_Filter_gap_free:
  assumes inv: "txl_inv l" and str: "strict l" and gf: "gap_free (dom (txl_contents l))"
  shows "gap_free (dom (txl_contents (fst (txl_Filter l c g))))"
proof (cases "costcap l \<le> c \<and> gascap l \<le> g")
  case True
  then show ?thesis using txl_Filter_short[OF inv] gf by simp
next
  case False
  let ?D = "{n. \<forall>k tx. txl_contents l k = Some tx \<and> unpayable c g tx \<longrightarrow> n < k}"
  have "gap_free (dom (txl_contents l) \<inter> ?D)"
    using gf by (rule gap_free_cut) (auto intro: le_less_trans)
  moreover have "dom (payable_part l c g) = dom (txl_contents l) \<inter> ?D"
    using str by (fastforce simp: payable_part_def restrict_map_def dom_def split: if_splits)
  ultimately show ?thesis using txl_Filter_long(2)[OF inv False] by simp
qed

lemma txl_Remove_gap_free:
  assumes inv: "txl_inv l" and str: "strict l" and gf: "gap_free (dom (txl_contents l))"
  shows "gap_free (dom (txl_contents (fst (txl_Remove l tx))))"
proof (cases "txl_contents l (AccountNonce tx) = None")
  case True
  then show ?thesis using txl_Remove_spec(4)[OF inv True] gf by simp
next
  case False
  have "gap_free (dom (txl_contents l) \<inter> {n. n < AccountNonce tx})"
    using gf by (rule gap_free_cut) auto
  moreover have "{n. n \<noteq> AccountNonce tx \<and> n < AccountNonce tx} = {n. n < AccountNonce tx}" by auto
  ultimately show ?thesis using txl_Remove_spec(3)[OF inv False] str by simp
qed

subsection \<open>Properties\<close>

text \<open>C20: \<open>Add\<close> replaces a transaction of the same nonce exactly when the new price is above the old one
  and at least the old one raised by \<open>priceBump\<close> percent (rounded down); it then returns the old
  transaction and the list maps the nonce to the new one, otherwise the list is unchanged.  The
  invariant of the list (index heap, cache, caps) is kept either way.\<close>

theorem txl_Add_replacement:
  assumes "txl_inv l" and "uint bump < 2 ^ 63 - 100" and "txl_contents l (AccountNonce tx) = Some old"
  shows "let (l', ok, rep) = txl_Add l tx bump in
      txl_inv l' \<and>
      (ok \<longleftrightarrow> Price old < Price tx \<and> (Price old * (100 + uint bump)) div 100 \<le> Price tx) \<and>
      txl_contents l' = (if ok then (txl_contents l)(AccountNonce tx \<mapsto> tx) else txl_contents l) \<and>
      rep = (if ok then Some old else None)"
proof (cases "txl_accepts l tx bump")
  case True
  then show ?thesis
    using assms txl_Add_inv[OF assms(1), of tx bump] tsm.put_contents[OF txl_inv_map[OF assms(1)]]
    by (simp add: txl_Add_accepted txl_accepts_def price_threshold_small)
next
  case False
  then show ?thesis
    using assms by (auto simp: txl_Add_rejected txl_accepts_def price_threshold_small)
qed

definition demo_tx :: "u64 \<Rightarrow> int \<Rightarrow> u64 \<Rightarrow> transaction" where
  "demo_tx n p g = NewTransaction n 7 (Some 1) g (Some p) []"

lemma demo_tx_simps: "AccountNonce (demo_tx n p g) = n" "Price (demo_tx n p g) = p"
  by (simp_all add: demo_tx_def NewTransaction_def newTransaction_def)

definition demo_list :: txList where
  "demo_list = fold (\<lambda>tx l. fst (txl_Add l tx 10)) [demo_tx 3 10 21000, demo_tx 4 50 90000, demo_tx 5 1 21000] (newTxList True)"

lemma demo_list_inv: "txl_inv demo_list"
  unfolding demo_list_def by (simp add: txl_Add_inv txl_inv_new)

lemma demo_list_strict: "strict demo_list"
  by code_simp

lemma demo_list_keys: "gm_keys (items (txs demo_list)) = [3, 4, 5]"
  by code_simp

lemma demo_list_dom: "dom (txl_contents demo_list) = {3, 4, 5}"
  using demo_list_keys by (simp add: tsm_contents_def dom_map_of_conv_image_fst flip: list.set_map)

theorem txl_Add_replacement_witness:
  "txl_inv demo_list \<and> txl_contents demo_list 3 = Some (demo_tx 3 10 21000) \<and>
   fst (snd (txl_Add demo_list (demo_tx 3 11 21000) 10)) \<and> \<not> fst (snd (txl_Add demo_list (demo_tx 3 10 21000) 0))"
proof -
  have c: "txl_contents demo_list 3 = Some (demo_tx 3 10 21000)"
    by code_simp
  then show ?thesis
    using txl_Add_replacement[OF demo_list_inv, of 10 "demo_tx 3 11 21000" "demo_tx 3 10 21000"]
      txl_Add_replacement[OF demo_list_inv, of 0 "demo_tx 3 10 21000" "demo_tx 3 10 21000"] demo_list_inv
    by (simp add: demo_tx_simps case_prod_unfold Let_def)
qed

text \<open>C19: \<open>Filter\<close> removes exactly the transactions whose cost or gas is above the limits, and in strict mode
  also invalidates exactly the remaining ones above the lowest removed nonce.  This holds also
  when the cached caps let it return early, so the short circuit never skips a removal.\<close>

theorem txl_Filter_exact:
  assumes "txl_inv l"
  shows "let (l', removed, invalids) = txl_Filter l costLimit gasLimit in
      txl_inv l' \<and> txl_contents l' = payable_part l costLimit gasLimit \<and>
      set removed = {tx \<in> ran (txl_contents l). unpayable costLimit gasLimit tx} \<and>
      set invalids = ran (txl_contents l) - ran (payable_part l costLimit gasLimit) - {tx. unpayable costLimit gasLimit tx}"
proof (cases "costcap l \<le> costLimit \<and> gascap l \<le> gasLimit")
  case True
  then have "{tx \<in> ran (txl_contents l). unpayable costLimit gasLimit tx} = {}"
    using assms by (fastforce simp: txl_inv_def unpayable_def)
  then show ?thesis using True assms txl_Filter_short[OF assms] by simp
next
  case False
  then show ?thesis using txl_Filter_long[OF assms False] by (simp add: case_prod_unfold Let_def)
qed

theorem txl_Filter_exact_witness:
  "txl_inv demo_list \<and>
   txl_contents (fst (txl_Filter demo_list 1000000 100000)) = payable_part demo_list 1000000 100000 \<and>
   map AccountNonce (fst (snd (txl_Filter demo_list 1000000 100000))) = [4] \<and>
   map AccountNonce (snd (snd (txl_Filter demo_list 1000000 100000))) = [5]"
proof -
  have "map AccountNonce (fst (snd (txl_Filter demo_list 1000000 100000))) = [4]"
    "map AccountNonce (snd (snd (txl_Filter demo_list 1000000 100000))) = [5]" by code_simp+
  then show ?thesis
    using txl_Filter_exact[OF demo_list_inv, of 1000000 100000] demo_list_inv
    by (simp add: case_prod_unfold Let_def)
qed

text \<open>C29: \<open>Filter\<close> and \<open>Remove\<close> keep a strict list free of gaps: if no nonce between two of the
  list was missing before, none is missing after, so the list stays executable as a whole.\<close>

theorem strict_stays_gap_free:
  assumes "txl_inv l" and "strict l" and "gap_free (dom (txl_contents l))"
  shows "gap_free (dom (txl_contents (fst (txl_Filter l costLimit gasLimit)))) \<and>
         gap_free (dom (txl_contents (fst (txl_Remove l tx))))"
  using txl_Filter_gap_free[OF assms] txl_Remove_gap_free[OF assms] by blast

theorem strict_stays_gap_free_witness:
  "strict demo_list \<and> dom (txl_contents demo_list) = {3, 4, 5} \<and>
   gap_free (dom (txl_contents (fst (txl_Filter demo_list 1000000 100000)))) \<and>
   gap_free (dom (txl_contents (fst (txl_Remove demo_list (demo_tx 4 50 90000)))))"
proof -
  have "gap_free {3 :: u64, 4, 5}"
  proof -
    have "n = 3 \<or> n = 4 \<or> n = 5" if "3 \<le> n" "n \<le> 5" for n :: u64
    proof -
      have "3 \<le> uint n" "uint n \<le> 5" using that by (simp_all add: word_le_def)
      then have "uint n = uint (3 :: u64) \<or> uint n = uint (4 :: u64) \<or> uint n = uint (5 :: u64)" by auto
      then show ?thesis by (simp only: word_uint_eq_iff[symmetric])
    qed
    moreover have "3 \<le> n \<and> n \<le> 5" if "a \<in> {3, 4, 5}" "b \<in> {3, 4, 5}" "a \<le> n" "n \<le> b" for a b n :: u64
      using that by (auto simp: word_le_def)
    ultimately show ?thesis unfolding gap_free_def by blast
  qed
  then show ?thesis
    using strict_stays_gap_free[OF demo_list_inv demo_list_strict] demo_list_strict demo_list_dom by simp
qed

end
