(* ===== verification/Tx_Priced.thy ===== *)
theory Tx_Priced
  imports Go_Heap Tx_Types
begin

text \<open>
  The pool-wide price heap \<open>txPricedList\<close> of \<open>core/tx_list.go\<close>, with the lookup table
  \<open>txLookup\<close> and the address set \<open>accountSet\<close> of \<open>core/tx_pool.go\<close> it is used with.  The heap may
  hold stale entries: transactions that left the pool and are only counted in \<open>stales\<close>.  The
  hash of a transaction and the recovery of its sender are the arguments \<open>txHash\<close> and
  \<open>sender\<close>.  The lemmas show that \<open>Cap\<close>, \<open>Discard\<close> and \<open>Underpriced\<close> treat exactly the live
  remote transactions and the cheapest of them first.
\<close>

subsection \<open>accountSet and txLookup\<close>

record accountSet =
  accounts :: "(address, unit) gomap"
  as_signer :: signer
  as_cache :: "address list option"

definition newAccountSet :: "signer \<Rightarrow> accountSet" where
  "newAccountSet s = \<lparr>accounts = [], as_signer = s, as_cache = None\<rparr>"

definition contains :: "accountSet \<Rightarrow> address \<Rightarrow> bool" where
  "contains as addr = (gm_get (accounts as) addr \<noteq> None)"

definition containsTx :: "(signer \<Rightarrow> transaction \<Rightarrow> sig_error + address) \<Rightarrow> accountSet \<Rightarrow> transaction \<Rightarrow> bool" where
  "containsTx sender as tx =
     (case sender (as_signer as) tx of Inr addr \<Rightarrow> contains as addr | Inl _ \<Rightarrow> False)"

definition as_add :: "accountSet \<Rightarrow> address \<Rightarrow> accountSet" where
  "as_add as addr = as\<lparr>accounts := gm_set addr () (accounts as), as_cache := None\<rparr>"

definition as_flatten :: "accountSet \<Rightarrow> accountSet \<times> address list" where
  "as_flatten as =
     (case as_cache as of
        Some c \<Rightarrow> (as, c)
      | None \<Rightarrow> let c = gm_keys (accounts as) in (as\<lparr>as_cache := Some c\<rparr>, c))"

type_synonym txLookup = "(hash, transaction) gomap"

definition lookup_Get :: "txLookup \<Rightarrow> hash \<Rightarrow> transaction option" where
  "lookup_Get t h = gm_get t h"

definition lookup_Count :: "txLookup \<Rightarrow> nat" where
  "lookup_Count t = length t"

definition lookup_Add :: "(transaction \<Rightarrow> hash) \<Rightarrow> txLookup \<Rightarrow> transaction \<Rightarrow> txLookup" where
  "lookup_Add txHash t tx = gm_set (txHash tx) tx t"

definition lookup_Remove :: "txLookup \<Rightarrow> hash \<Rightarrow> txLookup" where
  "lookup_Remove t h = gm_del h t"

text \<open>\<open>Range\<close> with a callback that folds over a state and says whether to go on.\<close>

fun lookup_Range :: "(hash \<Rightarrow> transaction \<Rightarrow> 's \<Rightarrow> 's \<times> bool) \<Rightarrow> txLookup \<Rightarrow> 's \<Rightarrow> 's" where
  "lookup_Range f [] s = s"
| "lookup_Range f ((k, v) # t) s = (case f k v s of (s', go) \<Rightarrow> if \<not> go then s' else lookup_Range f t s')"

subsection \<open>priceHeap and txPricedList\<close>

definition price_less :: "transaction \<Rightarrow> transaction \<Rightarrow> bool" where
  "price_less a b =
     (let c = Cmp (Price a) (Price b) in
      if c = -1 then True else if c = 1 then False else AccountNonce b < AccountNonce a)"

record txPricedList =
  heap :: "transaction list"
  stales :: int

definition newTxPricedList :: txPricedList where
  "newTxPricedList = \<lparr>heap = [], stales = 0\<rparr>"

definition txp_Put :: "txPricedList \<Rightarrow> transaction \<Rightarrow> txPricedList" where
  "txp_Put l tx = l\<lparr>heap := heap_push price_less (heap l) tx\<rparr>"

definition txp_Removed :: "txLookup \<Rightarrow> txPricedList \<Rightarrow> txPricedList" where
  "txp_Removed all_txs l =
     (let l1 = l\<lparr>stales := stales l + 1\<rparr> in
      if stales l1 \<le> int (length (heap l1) div 4) then l1
      else let reheap = lookup_Range (\<lambda>h tx acc. (acc @ [tx], True)) all_txs []
           in \<lparr>heap = heap_init price_less reheap, stales = 0\<rparr>)"

function txp_cap_loop ::
  "(transaction \<Rightarrow> bool) \<Rightarrow> (transaction \<Rightarrow> bool) \<Rightarrow> bigint \<Rightarrow> txPricedList \<Rightarrow>
   transaction list \<Rightarrow> transaction list \<Rightarrow> txPricedList \<times> transaction list \<times> transaction list" where
  "txp_cap_loop stale isLocal threshold l drops save =
     (if heap l = [] then (l, drops, save)
      else case heap_pop price_less (heap l) of
             None \<Rightarrow> (l, drops, save)
           | Some (tx, h) \<Rightarrow>
               if stale tx
               then txp_cap_loop stale isLocal threshold \<lparr>heap = h, stales = stales l - 1\<rparr> drops save
               else if Cmp (Price tx) threshold \<ge> 0 then (l\<lparr>heap := h\<rparr>, drops, save @ [tx])
               else if isLocal tx then txp_cap_loop stale isLocal threshold (l\<lparr>heap := h\<rparr>) drops (save @ [tx])
               else txp_cap_loop stale isLocal threshold (l\<lparr>heap := h\<rparr>) (drops @ [tx]) save)"
  by pat_completeness auto
termination
  by (relation "measure (\<lambda>(s, i, t, l, d, sv). length (heap l))")
     (auto dest: heap_pop_shrinks)

declare txp_cap_loop.simps [simp del]

definition txp_stale :: "(transaction \<Rightarrow> hash) \<Rightarrow> txLookup \<Rightarrow> transaction \<Rightarrow> bool" where
  "txp_stale txHash all_txs tx = (lookup_Get all_txs (txHash tx) = None)"

definition push_all :: "txPricedList \<Rightarrow> transaction list \<Rightarrow> txPricedList" where
  "push_all l save = fold (\<lambda>tx l. l\<lparr>heap := heap_push price_less (heap l) tx\<rparr>) save l"

definition txp_Cap ::
  "(transaction \<Rightarrow> hash) \<Rightarrow> (signer \<Rightarrow> transaction \<Rightarrow> sig_error + address) \<Rightarrow>
   txLookup \<Rightarrow> txPricedList \<Rightarrow> bigint \<Rightarrow> accountSet \<Rightarrow> txPricedList \<times> transaction list" where
  "txp_Cap txHash sender all_txs l threshold loc =
     (let (l', drops, save) =
            txp_cap_loop (txp_stale txHash all_txs) (containsTx sender loc) threshold l [] []
      in (push_all l' save, drops))"

text \<open>The loop of \<open>Underpriced\<close>: drop stale entries off the top of the heap.\<close>

function txp_trim :: "(transaction \<Rightarrow> bool) \<Rightarrow> txPricedList \<Rightarrow> txPricedList" where
  "txp_trim stale l =
     (if heap l = [] then l
      else if stale (heap l ! 0)
      then case heap_pop price_less (heap l) of
             None \<Rightarrow> l
           | Some (tx, h) \<Rightarrow> txp_trim stale \<lparr>heap = h, stales = stales l - 1\<rparr>
      else l)"
  by pat_completeness auto
termination
  by (relation "measure (\<lambda>(s, l). length (heap l))") (auto dest: heap_pop_shrinks)

declare txp_trim.simps [simp del]

definition txp_Underpriced ::
  "(transaction \<Rightarrow> hash) \<Rightarrow> (signer \<Rightarrow> transaction \<Rightarrow> sig_error + address) \<Rightarrow>
   txLookup \<Rightarrow> txPricedList \<Rightarrow> transaction \<Rightarrow> accountSet \<Rightarrow> txPricedList \<times> bool" where
  "txp_Underpriced txHash sender all_txs l tx loc =
     (if containsTx sender loc tx then (l, False)
      else let l' = txp_trim (txp_stale txHash all_txs) l in
           if heap l' = [] then (l', False)
           else (l', Cmp (Price (heap l' ! 0)) (Price tx) \<ge> 0))"

function txp_discard_loop ::
  "(transaction \<Rightarrow> bool) \<Rightarrow> (transaction \<Rightarrow> bool) \<Rightarrow> int \<Rightarrow> txPricedList \<Rightarrow>
   transaction list \<Rightarrow> transaction list \<Rightarrow> txPricedList \<times> transaction list \<times> transaction list" where
  "txp_discard_loop stale isLocal cnt l drops save =
     (if heap l = [] \<or> cnt \<le> 0 then (l, drops, save)
      else case heap_pop price_less (heap l) of
             None \<Rightarrow> (l, drops, save)
           | Some (tx, h) \<Rightarrow>
               if stale tx
               then txp_discard_loop stale isLocal cnt \<lparr>heap = h, stales = stales l - 1\<rparr> drops save
               else if isLocal tx then txp_discard_loop stale isLocal cnt (l\<lparr>heap := h\<rparr>) drops (save @ [tx])
               else txp_discard_loop stale isLocal (cnt - 1) (l\<lparr>heap := h\<rparr>) (drops @ [tx]) save)"
  by pat_completeness auto
termination
  by (relation "measure (\<lambda>(s, i, t, l, d, sv). length (heap l))")
     (auto dest: heap_pop_shrinks)

declare txp_discard_loop.simps [simp del]

definition txp_Discard ::
  "(transaction \<Rightarrow> hash) \<Rightarrow> (signer \<Rightarrow> transaction \<Rightarrow> sig_error + address) \<Rightarrow>
   txLookup \<Rightarrow> txPricedList \<Rightarrow> int \<Rightarrow> accountSet \<Rightarrow> txPricedList \<times> transaction list" where
  "txp_Discard txHash sender all_txs l cnt loc =
     (let (l', drops, save) =
            txp_discard_loop (txp_stale txHash all_txs) (containsTx sender loc) cnt l [] []
      in (push_all l' save, drops))"

subsection \<open>The order of the heap\<close>

lemma price_less_iff:
  "price_less a b \<longleftrightarrow> Price a < Price b \<or> Price a = Price b \<and> AccountNonce b < AccountNonce a"
  by (auto simp: price_less_def Cmp_def Let_def)

interpretation price_order: weak_order price_less
  by unfold_locales (auto simp: price_less_iff)

abbreviation price_heap :: "transaction list \<Rightarrow> bool" where
  "price_heap h \<equiv> is_heap price_less h"

lemma price_heap_root: "price_heap h \<Longrightarrow> tx \<in> set h \<Longrightarrow> \<not> price_less tx (h ! 0)"
  by (metis in_set_conv_nth price_order.root_least)

text \<open>One pop: the minimum leaves, the rest stays a heap.\<close>

lemma price_heap_pop:
  assumes "price_heap h" and "h \<noteq> []"
  obtains h' where "heap_pop price_less h = Some (h ! 0, h')" and "price_heap h'"
    and "mset h = add_mset (h ! 0) (mset h')" and "\<forall>x \<in> set h'. \<not> price_less x (h ! 0)"
proof -
  obtain h' where h': "heap_pop price_less h = Some (h ! 0, h')" "price_heap h'"
      "add_mset (h ! 0) (mset h') = mset h"
    using price_order.heap_pop_correct[OF assms] by blast
  then have "set h' \<subseteq> set h" by (metis set_mset_mset set_mset_add_mset_insert subset_insertI)
  then show ?thesis using that[OF h'(1,2) h'(3)[symmetric]] price_heap_root[OF assms(1)] by auto
qed

lemma push_all_correct:
  "price_heap (heap l) \<Longrightarrow> price_heap (heap (push_all l save)) \<and>
     mset (heap (push_all l save)) = mset (heap l) + mset save \<and> stales (push_all l save) = stales l"
proof (induction save arbitrary: l)
  case (Cons tx save)
  have "push_all l (tx # save) = push_all (l\<lparr>heap := heap_push price_less (heap l) tx\<rparr>) save"
    by (simp add: push_all_def)
  then show ?case
    using Cons.IH[of "l\<lparr>heap := heap_push price_less (heap l) tx\<rparr>"]
      price_order.heap_push_correct[OF Cons.prems, of tx] by simp
qed (simp add: push_all_def)

lemma lookup_Range_snoc: "lookup_Range (\<lambda>h tx acc. (acc @ [tx], True)) t acc = acc @ map snd t"
  by (induction t arbitrary: acc) auto

lemma txp_Removed_spec:
  assumes "price_heap (heap l)"
  shows "price_heap (heap (txp_Removed all_txs l))"
    and "stales (txp_Removed all_txs l) \<le> int (length (heap (txp_Removed all_txs l)) div 4)"
    and "\<not> stales l + 1 \<le> int (length (heap l) div 4) \<Longrightarrow>
         mset (heap (txp_Removed all_txs l)) = mset (map snd all_txs)"
  using assms
  by (auto simp: txp_Removed_def Let_def lookup_Range_snoc price_order.heap_init_correct)

subsection \<open>Cap, Underpriced and Discard\<close>

text \<open>
  What both loops establish: the heap splits into the rest, the stale entries \<open>st\<close>, the dropped
  ones \<open>d\<close> (all \<open>P\<close>) and the saved ones \<open>s\<close> (all \<open>Q\<close>), and \<open>E\<close> holds of the rest and the drops.
\<close>

definition loop_post ::
  "(transaction \<Rightarrow> bool) \<Rightarrow> (transaction \<Rightarrow> bool) \<Rightarrow> (transaction \<Rightarrow> bool) \<Rightarrow>
   (transaction list \<Rightarrow> transaction list \<Rightarrow> bool) \<Rightarrow>
   txPricedList \<Rightarrow> transaction list \<Rightarrow> transaction list \<Rightarrow>
   txPricedList \<times> transaction list \<times> transaction list \<Rightarrow> bool" where
  "loop_post stale P Q E l drops save res \<longleftrightarrow>
     (\<exists>l' st d s. res = (l', drops @ d, save @ s) \<and> price_heap (heap l') \<and>
        mset (heap l) = mset (heap l') + mset st + mset d + mset s \<and>
        stales l' = stales l - int (length st) \<and>
        (\<forall>x \<in> set st. stale x) \<and> (\<forall>x \<in> set d. P x) \<and> (\<forall>x \<in> set s. Q x) \<and> E (heap l') d)"

lemma loop_post_done:
  "price_heap (heap l) \<Longrightarrow> E (heap l) [] \<Longrightarrow> loop_post stale P Q E l drops save (l, drops, save)"
  by (auto simp: loop_post_def intro!: exI[of _ l] exI[of _ "[]"])

lemma loop_post_break:
  "price_heap h \<Longrightarrow> E h [] \<Longrightarrow> mset (heap l) = add_mset tx (mset h) \<Longrightarrow> Q tx \<Longrightarrow>
   loop_post stale P Q E l drops save (l\<lparr>heap := h\<rparr>, drops, save @ [tx])"
  unfolding loop_post_def
  by (rule exI[of _ "l\<lparr>heap := h\<rparr>"], rule exI[of _ "[]"], rule exI[of _ "[]"], rule exI[of _ "[tx]"]) simp

lemma loop_post_stale:
  assumes "loop_post stale P Q E \<lparr>heap = h, stales = stales l - 1\<rparr> drops save res"
    and "mset (heap l) = add_mset tx (mset h)" and "stale tx"
  shows "loop_post stale P Q E l drops save res"
proof -
  obtain l' st d s where "res = (l', drops @ d, save @ s)" "price_heap (heap l')"
      "mset h = mset (heap l') + mset st + mset d + mset s" "stales l' = stales l - 1 - int (length st)"
      "\<forall>x \<in> set st. stale x" "\<forall>x \<in> set d. P x" "\<forall>x \<in> set s. Q x" "E (heap l') d"
    using assms(1) by (auto simp: loop_post_def)
  then show ?thesis using assms(2,3) unfolding loop_post_def
    by (intro exI[of _ l'] exI[of _ "tx # st"] exI[of _ d] exI[of _ s]) simp
qed

lemma loop_post_save:
  assumes "loop_post stale P Q E (l\<lparr>heap := h\<rparr>) drops (save @ [tx]) res"
    and "mset (heap l) = add_mset tx (mset h)" and "Q tx"
  shows "loop_post stale P Q E l drops save res"
proof -
  obtain l' st d s where "res = (l', drops @ d, (save @ [tx]) @ s)" "price_heap (heap l')"
      "mset h = mset (heap l') + mset st + mset d + mset s" "stales l' = stales l - int (length st)"
      "\<forall>x \<in> set st. stale x" "\<forall>x \<in> set d. P x" "\<forall>x \<in> set s. Q x" "E (heap l') d"
    using assms(1) by (auto simp: loop_post_def)
  then show ?thesis using assms(2,3) unfolding loop_post_def
    by (intro exI[of _ l'] exI[of _ st] exI[of _ d] exI[of _ "tx # s"]) simp
qed

lemma loop_post_drop:
  assumes "loop_post stale P Q E' (l\<lparr>heap := h\<rparr>) (drops @ [tx]) save res"
    and "mset (heap l) = add_mset tx (mset h)" and "P tx"
    and E: "\<And>r d. set r \<subseteq> set h \<Longrightarrow> E' r d \<Longrightarrow> E r (tx # d)"
  shows "loop_post stale P Q E l drops save res"
proof -
  obtain l' st d s where r: "res = (l', (drops @ [tx]) @ d, save @ s)" "price_heap (heap l')"
      "mset h = mset (heap l') + mset st + mset d + mset s" "stales l' = stales l - int (length st)"
      "\<forall>x \<in> set st. stale x" "\<forall>x \<in> set d. P x" "\<forall>x \<in> set s. Q x" "E' (heap l') d"
    using assms(1) by (auto simp: loop_post_def)
  have "set (heap l') \<subseteq> set h" using arg_cong[OF r(3), of set_mset] by auto
  then have "E (heap l') (tx # d)" using E r(8) by blast
  then show ?thesis using r assms(2,3) unfolding loop_post_def
    by (intro exI[of _ l'] exI[of _ st] exI[of _ "tx # d"] exI[of _ s]) simp
qed

lemma txp_cap_loop_spec:
  "price_heap (heap l) \<Longrightarrow>
   loop_post stale (\<lambda>x. \<not> stale x \<and> \<not> isLocal x \<and> Price x < thr) (\<lambda>x. \<not> stale x \<and> (isLocal x \<or> thr \<le> Price x))
     (\<lambda>r d. \<forall>x \<in> set r. thr \<le> Price x) l drops save (txp_cap_loop stale isLocal thr l drops save)"
proof (induction stale isLocal thr l drops save rule: txp_cap_loop.induct)
  case (1 stale isLocal thr l drops save)
  let ?tx = "heap l ! 0"
  note unf = txp_cap_loop.simps[of stale isLocal thr l drops save]
  show ?case
  proof (cases "heap l = []")
    case True
    then show ?thesis unfolding unf using "1.prems" by (simp add: loop_post_done)
  next
    case False
    obtain h where pop: "heap_pop price_less (heap l) = Some (?tx, h)" and h: "price_heap h"
      and ms: "mset (heap l) = add_mset ?tx (mset h)" and least: "\<forall>x \<in> set h. \<not> price_less x ?tx"
      using price_heap_pop[OF "1.prems" False] .
    consider "stale ?tx" | "\<not> stale ?tx" "Cmp (Price ?tx) thr \<ge> 0"
      | "\<not> stale ?tx" "\<not> Cmp (Price ?tx) thr \<ge> 0" "isLocal ?tx"
      | "\<not> stale ?tx" "\<not> Cmp (Price ?tx) thr \<ge> 0" "\<not> isLocal ?tx" by blast
    then show ?thesis
    proof cases
      case 1
      then show ?thesis using "1.IH"(1)[OF False pop refl 1] h ms False pop
        by (auto simp: unf intro: loop_post_stale)
    next
      case 2
      then have "\<forall>x \<in> set h. thr \<le> Price x"
        using least by (auto simp: price_less_iff not_less Cmp_def split: if_splits)
      then show ?thesis using h ms 2 False pop
        by (auto simp: unf Cmp_def split: if_splits intro!: loop_post_break)
    next
      case 3
      then show ?thesis using "1.IH"(2)[OF False pop refl 3] h ms False pop
        by (auto simp: unf intro: loop_post_save)
    next
      case 4
      then have "Price ?tx < thr" by (simp add: Cmp_def split: if_splits)
      then show ?thesis using "1.IH"(3)[OF False pop refl 4] h ms False pop 4
        by (auto simp: unf intro: loop_post_drop)
    qed
  qed
qed

definition discard_end :: "int \<Rightarrow> transaction list \<Rightarrow> transaction list \<Rightarrow> bool" where
  "discard_end cnt r d \<longleftrightarrow> length d \<le> nat cnt \<and> (length d < nat cnt \<longrightarrow> r = []) \<and>
     (\<forall>x \<in> set d. \<forall>y \<in> set r. \<not> price_less y x)"

lemma txp_discard_loop_spec:
  "price_heap (heap l) \<Longrightarrow>
   loop_post stale (\<lambda>x. \<not> stale x \<and> \<not> isLocal x) (\<lambda>x. \<not> stale x \<and> isLocal x) (discard_end cnt)
     l drops save (txp_discard_loop stale isLocal cnt l drops save)"
proof (induction stale isLocal cnt l drops save rule: txp_discard_loop.induct)
  case (1 stale isLocal cnt l drops save)
  let ?tx = "heap l ! 0"
  note unf = txp_discard_loop.simps[of stale isLocal cnt l drops save]
  show ?case
  proof (cases "heap l = [] \<or> cnt \<le> 0")
    case True
    then show ?thesis unfolding unf using "1.prems" by (auto simp: loop_post_done discard_end_def)
  next
    case False
    then obtain h where pop: "heap_pop price_less (heap l) = Some (?tx, h)" and h: "price_heap h"
      and ms: "mset (heap l) = add_mset ?tx (mset h)" and least: "\<forall>x \<in> set h. \<not> price_less x ?tx"
      using price_heap_pop[OF "1.prems"] by blast
    consider "stale ?tx" | "\<not> stale ?tx" "isLocal ?tx" | "\<not> stale ?tx" "\<not> isLocal ?tx" by blast
    then show ?thesis
    proof cases
      case 1
      then show ?thesis using "1.IH"(1)[OF False pop refl 1] h ms False pop
        by (auto simp: unf intro: loop_post_stale)
    next
      case 2
      then show ?thesis using "1.IH"(2)[OF False pop refl 2] h ms False pop
        by (auto simp: unf intro: loop_post_save)
    next
      case 3
      have E: "discard_end cnt r (?tx # d)" if "set r \<subseteq> set h" "discard_end (cnt - 1) r d" for r d
        using that least False by (auto simp: discard_end_def)
      have "loop_post stale (\<lambda>x. \<not> stale x \<and> \<not> isLocal x) (\<lambda>x. \<not> stale x \<and> isLocal x) (discard_end (cnt - 1))
          (l\<lparr>heap := h\<rparr>) (drops @ [?tx]) save
          (txp_discard_loop stale isLocal (cnt - 1) (l\<lparr>heap := h\<rparr>) (drops @ [?tx]) save)"
        using "1.IH"(3)[OF False pop refl 3] h by simp
      from loop_post_drop[where E = "discard_end cnt", OF this ms] E 3 show ?thesis using False pop by (simp add: unf)
    qed
  qed
qed

lemma txp_trim_spec:
  "price_heap (heap l) \<Longrightarrow>
   price_heap (heap (txp_trim stale l)) \<and>
   filter_mset (\<lambda>x. \<not> stale x) (mset (heap (txp_trim stale l))) = filter_mset (\<lambda>x. \<not> stale x) (mset (heap l)) \<and>
   (heap (txp_trim stale l) \<noteq> [] \<longrightarrow> \<not> stale (heap (txp_trim stale l) ! 0))"
proof (induction stale l rule: txp_trim.induct)
  case (1 stale l)
  note unf = txp_trim.simps[of stale l]
  show ?case
  proof (cases "heap l = [] \<or> \<not> stale (heap l ! 0)")
    case True
    then show ?thesis using "1.prems" by (auto simp: unf)
  next
    case False
    then have ne: "heap l \<noteq> []" and st: "stale (heap l ! 0)" by auto
    obtain h where pop: "heap_pop price_less (heap l) = Some (heap l ! 0, h)" and h: "price_heap h"
      and ms: "mset (heap l) = add_mset (heap l ! 0) (mset h)"
      using price_heap_pop[OF "1.prems" ne] by blast
    show ?thesis using "1.IH"[OF ne st pop refl] h ms ne st pop by (simp add: unf)
  qed
qed

text \<open>The transactions of the heap that are in the pool and not local.\<close>

definition remotes ::
  "(transaction \<Rightarrow> hash) \<Rightarrow> (signer \<Rightarrow> transaction \<Rightarrow> sig_error + address) \<Rightarrow> txLookup \<Rightarrow> accountSet \<Rightarrow>
   txPricedList \<Rightarrow> transaction multiset" where
  "remotes txHash sender all_txs loc l =
     filter_mset (\<lambda>x. \<not> txp_stale txHash all_txs x \<and> \<not> containsTx sender loc x) (mset (heap l))"

lemma filter_mset_all: "(\<And>x. x \<in># M \<Longrightarrow> P x) \<Longrightarrow> filter_mset P M = M"
  by (induction M) auto

lemma filter_mset_none: "(\<And>x. x \<in># M \<Longrightarrow> \<not> P x) \<Longrightarrow> filter_mset P M = {#}"
  by (induction M) auto

lemma loop_post_remotes:
  assumes "loop_post (txp_stale txHash all_txs) P Q E l [] [] (l', d, s)"
    and "\<And>x. P x \<Longrightarrow> \<not> txp_stale txHash all_txs x \<and> \<not> containsTx sender loc x"
  shows "price_heap (heap (push_all l' s))"
    and "remotes txHash sender all_txs loc l = remotes txHash sender all_txs loc (push_all l' s) + mset d"
    and "E (heap l') d" and "\<forall>x \<in> set d. P x" and "\<forall>x \<in> set s. Q x"
    and "mset (heap (push_all l' s)) = mset (heap l') + mset s"
proof -
  obtain st where p: "price_heap (heap l')" "mset (heap l) = mset (heap l') + mset st + mset d + mset s"
      "\<forall>x \<in> set st. txp_stale txHash all_txs x" "\<forall>x \<in> set d. P x" "\<forall>x \<in> set s. Q x" "E (heap l') d"
    using assms(1) by (auto simp: loop_post_def)
  note push = push_all_correct[OF p(1), of s]
  show "price_heap (heap (push_all l' s))" "E (heap l') d" "\<forall>x \<in> set d. P x" "\<forall>x \<in> set s. Q x"
    and "mset (heap (push_all l' s)) = mset (heap l') + mset s" using p push by auto
  have "filter_mset (\<lambda>x. \<not> txp_stale txHash all_txs x \<and> \<not> containsTx sender loc x) (mset st) = {#}"
    using p(3) by (intro filter_mset_none) auto
  moreover have "filter_mset (\<lambda>x. \<not> txp_stale txHash all_txs x \<and> \<not> containsTx sender loc x) (mset d) = mset d"
    using p(4) assms(2) by (intro filter_mset_all) auto
  ultimately show "remotes txHash sender all_txs loc l = remotes txHash sender all_txs loc (push_all l' s) + mset d"
    using push p(2) by (simp add: remotes_def)
qed

lemma txp_Cap_spec:
  assumes "price_heap (heap l)" and "txp_Cap txHash sender all_txs l thr loc = (l', drops)"
  shows "price_heap (heap l')"
    and "mset drops = filter_mset (\<lambda>x. Price x < thr) (remotes txHash sender all_txs loc l)"
    and "remotes txHash sender all_txs loc l' = filter_mset (\<lambda>x. \<not> Price x < thr) (remotes txHash sender all_txs loc l)"
proof -
  let ?stale = "txp_stale txHash all_txs" and ?loc = "containsTx sender loc"
  obtain m d s where r: "txp_cap_loop ?stale ?loc thr l [] [] = (m, d, s)" by (metis prod_cases3)
  then have l': "l' = push_all m s" "drops = d" using assms(2) by (auto simp: txp_Cap_def)
  note post = loop_post_remotes[where sender = sender and loc = loc,
      OF txp_cap_loop_spec[OF assms(1), of ?stale ?loc thr "[]" "[]", unfolded r]]
  show "price_heap (heap l')" unfolding l' by (rule post(1)) auto
  let ?R = "remotes txHash sender all_txs loc (push_all m s)"
  have eq: "remotes txHash sender all_txs loc l = ?R + mset d" by (rule post(2)) auto
  have rest: "\<not> Price x < thr" if x: "x \<in># ?R" for x
  proof -
    have "x \<in># mset (heap m) + mset s" "\<not> ?loc x"
      using x post(6) by (auto simp: remotes_def)
    then show ?thesis using post(3) post(5) by auto
  qed
  have dr: "Price x < thr" if "x \<in># mset d" for x using post(4) that by auto
  show "mset drops = filter_mset (\<lambda>x. Price x < thr) (remotes txHash sender all_txs loc l)"
    using filter_mset_none[of ?R "\<lambda>x. Price x < thr"] filter_mset_all[of "mset d" "\<lambda>x. Price x < thr"] rest dr
    by (simp add: eq l')
  show "remotes txHash sender all_txs loc l' = filter_mset (\<lambda>x. \<not> Price x < thr) (remotes txHash sender all_txs loc l)"
    using filter_mset_all[of ?R "\<lambda>x. \<not> Price x < thr"] filter_mset_none[of "mset d" "\<lambda>x. \<not> Price x < thr"] rest dr
    by (simp add: eq l')
qed

lemma txp_Discard_spec:
  assumes "price_heap (heap l)" and "txp_Discard txHash sender all_txs l cnt loc = (l', drops)"
  shows "price_heap (heap l')"
    and "remotes txHash sender all_txs loc l = remotes txHash sender all_txs loc l' + mset drops"
    and "length drops = min (nat cnt) (size (remotes txHash sender all_txs loc l))"
    and "\<forall>x \<in> set drops. \<forall>y \<in># remotes txHash sender all_txs loc l'. \<not> price_less y x"
proof -
  let ?stale = "txp_stale txHash all_txs" and ?loc = "containsTx sender loc"
  obtain m d s where r: "txp_discard_loop ?stale ?loc cnt l [] [] = (m, d, s)" by (metis prod_cases3)
  then have l': "l' = push_all m s" "drops = d" using assms(2) by (auto simp: txp_Discard_def)
  note post = loop_post_remotes[where sender = sender and loc = loc,
      OF txp_discard_loop_spec[OF assms(1), of ?stale ?loc cnt "[]" "[]", unfolded r]]
  show "price_heap (heap l')" unfolding l' by (rule post(1)) auto
  let ?R = "remotes txHash sender all_txs loc (push_all m s)"
  show eq: "remotes txHash sender all_txs loc l = remotes txHash sender all_txs loc l' + mset drops"
    unfolding l' by (rule post(2)) auto
  have fin: "discard_end cnt (heap m) d" by (rule post(3)) auto
  have R: "x \<in> set (heap m)" if "x \<in># ?R" for x
  proof -
    have "x \<in># mset (heap m) + mset s" "\<not> ?loc x" using that post(6) by (auto simp: remotes_def)
    then show ?thesis using post(5) by auto
  qed
  then show "\<forall>x \<in> set drops. \<forall>y \<in># remotes txHash sender all_txs loc l'. \<not> price_less y x"
    using fin by (auto simp: discard_end_def l')
  have "heap m = [] \<Longrightarrow> ?R = {#}" using R by (auto simp: multiset_nonemptyE)
  then show "length drops = min (nat cnt) (size (remotes txHash sender all_txs loc l))"
    using fin by (auto simp: eq l' discard_end_def min_def)
qed

lemma txp_Underpriced_spec:
  assumes inv: "price_heap (heap l)"
  shows "price_heap (heap (fst (txp_Underpriced txHash sender all_txs l tx loc)))"
    and "snd (txp_Underpriced txHash sender all_txs l tx loc) \<longleftrightarrow>
         \<not> containsTx sender loc tx \<and> (\<exists>x \<in> set (heap l). \<not> txp_stale txHash all_txs x) \<and>
         (\<forall>x \<in> set (heap l). \<not> txp_stale txHash all_txs x \<longrightarrow> Price tx \<le> Price x)"
proof -
  let ?stale = "txp_stale txHash all_txs"
  define m where "m = txp_trim ?stale l"
  have m: "price_heap (heap m)" "filter_mset (\<lambda>x. \<not> ?stale x) (mset (heap m)) = filter_mset (\<lambda>x. \<not> ?stale x) (mset (heap l))"
      "heap m \<noteq> [] \<Longrightarrow> \<not> ?stale (heap m ! 0)"
    using txp_trim_spec[OF inv, of ?stale] unfolding m_def by auto
  show "price_heap (heap (fst (txp_Underpriced txHash sender all_txs l tx loc)))"
    using m(1) inv by (simp add: txp_Underpriced_def m_def Let_def heap_from_def)
  have live: "x \<in> set (heap l) \<and> \<not> ?stale x \<longleftrightarrow> x \<in> set (heap m) \<and> \<not> ?stale x" for x
    using arg_cong[OF m(2), of "\<lambda>M. x \<in># M"] by auto
  have least: "Price (heap m ! 0) \<le> Price x" if "x \<in> set (heap m)" for x
    using price_heap_root[OF m(1) that] by (auto simp: price_less_iff)
  have "(\<exists>x \<in> set (heap m). \<not> ?stale x) \<longleftrightarrow> heap m \<noteq> []"
    using m(3) by (metis length_greater_0_conv length_pos_if_in_set nth_mem)
  moreover have "(\<forall>x \<in> set (heap m). \<not> ?stale x \<longrightarrow> Price tx \<le> Price x) \<longleftrightarrow> Price tx \<le> Price (heap m ! 0)" if "heap m \<noteq> []"
    using that m(3) least by (metis length_greater_0_conv nth_mem order_trans)
  moreover have "snd (txp_Underpriced txHash sender all_txs l tx loc) \<longleftrightarrow>
      \<not> containsTx sender loc tx \<and> heap m \<noteq> [] \<and> Price tx \<le> Price (heap m ! 0)"
    by (auto simp: txp_Underpriced_def m_def[symmetric] Let_def Cmp_def)
  moreover have "(\<exists>x \<in> set (heap l). \<not> ?stale x) \<longleftrightarrow> (\<exists>x \<in> set (heap m). \<not> ?stale x)" using live by blast
  moreover have "(\<forall>x \<in> set (heap l). \<not> ?stale x \<longrightarrow> Price tx \<le> Price x) \<longleftrightarrow>
      (\<forall>x \<in> set (heap m). \<not> ?stale x \<longrightarrow> Price tx \<le> Price x)" using live by blast
  ultimately show "snd (txp_Underpriced txHash sender all_txs l tx loc) \<longleftrightarrow>
         \<not> containsTx sender loc tx \<and> (\<exists>x \<in> set (heap l). \<not> ?stale x) \<and>
         (\<forall>x \<in> set (heap l). \<not> ?stale x \<longrightarrow> Price tx \<le> Price x)" by blast
qed

subsection \<open>Properties\<close>

text \<open>C31: \<open>Discard\<close> drops exactly \<open>count\<close> live remote transactions, or all of them if there are fewer;
  no remote transaction it keeps sorts before one it drops (cheaper, or as cheap with a higher
  nonce); local transactions all stay, and the heap order is kept.\<close>

theorem txp_Discard_cheapest:
  assumes "price_heap (heap l)"
  shows "let (l', drops) = txp_Discard txHash sender all_txs l cnt loc in
      price_heap (heap l') \<and>
      remotes txHash sender all_txs loc l = remotes txHash sender all_txs loc l' + mset drops \<and>
      length drops = min (nat cnt) (size (remotes txHash sender all_txs loc l)) \<and>
      (\<forall>x \<in> set drops. \<forall>y \<in># remotes txHash sender all_txs loc l'. \<not> price_less y x)"
  using txp_Discard_spec[OF assms, of txHash sender all_txs cnt loc]
  by (cases "txp_Discard txHash sender all_txs l cnt loc") simp

definition demo_priced :: "transaction \<Rightarrow> txPricedList" where
  "demo_priced stale_tx = fold (\<lambda>tx l. txp_Put l tx)
     [NewTransaction 1 7 None 21000 (Some 30) [], stale_tx, NewTransaction 2 7 None 21000 (Some 20) [],
      NewTransaction 3 7 None 21000 (Some 20) []] newTxPricedList"

definition demo_all :: txLookup where
  "demo_all = fold (\<lambda>tx t. lookup_Add (\<lambda>tx. ucast (AccountNonce tx)) t tx)
     [NewTransaction 1 7 None 21000 (Some 30) [], NewTransaction 2 7 None 21000 (Some 20) [],
      NewTransaction 3 7 None 21000 (Some 20) []] []"

definition demo_stale :: transaction where
  "demo_stale = NewTransaction 9 7 None 21000 (Some 5) []"

lemma demo_priced_heap: "price_heap (heap (demo_priced demo_stale))"
  unfolding demo_priced_def newTxPricedList_def txp_Put_def
  by (simp add: price_order.heap_push_correct heap_from_def[of price_less 0 0] del: mset.simps)

theorem txp_Discard_cheapest_witness:
  "map AccountNonce (snd (txp_Discard (\<lambda>tx. ucast (AccountNonce tx)) (\<lambda>s tx. Inl ErrInvalidSig) demo_all
      (demo_priced demo_stale) 2 (newAccountSet FrontierSigner))) = [3, 2] \<and>
   price_heap (heap (fst (txp_Discard (\<lambda>tx. ucast (AccountNonce tx)) (\<lambda>s tx. Inl ErrInvalidSig) demo_all
      (demo_priced demo_stale) 2 (newAccountSet FrontierSigner))))"
proof -
  have "map AccountNonce (snd (txp_Discard (\<lambda>tx. ucast (AccountNonce tx)) (\<lambda>s tx. Inl ErrInvalidSig) demo_all
      (demo_priced demo_stale) 2 (newAccountSet FrontierSigner))) = [3, 2]" by code_simp
  then show ?thesis
    using txp_Discard_cheapest[OF demo_priced_heap, of "\<lambda>tx. ucast (AccountNonce tx)" "\<lambda>s tx. Inl ErrInvalidSig"
        demo_all 2 "newAccountSet FrontierSigner"]
    by (simp add: Let_def case_prod_unfold)
qed

text \<open>C32: \<open>Cap\<close> drops exactly the live remote transactions cheaper than the threshold and keeps all
  other remote ones; \<open>Underpriced\<close> holds exactly for a remote transaction that is at most as
  expensive as every live transaction of a pool that has one.\<close>

theorem txp_Cap_Underpriced_exact:
  assumes "price_heap (heap l)"
  shows "(let (l', drops) = txp_Cap txHash sender all_txs l thr loc in
      price_heap (heap l') \<and>
      mset drops = filter_mset (\<lambda>x. Price x < thr) (remotes txHash sender all_txs loc l) \<and>
      remotes txHash sender all_txs loc l' = filter_mset (\<lambda>x. \<not> Price x < thr) (remotes txHash sender all_txs loc l)) \<and>
    (snd (txp_Underpriced txHash sender all_txs l tx loc) \<longleftrightarrow>
         \<not> containsTx sender loc tx \<and> (\<exists>x \<in> set (heap l). \<not> txp_stale txHash all_txs x) \<and>
         (\<forall>x \<in> set (heap l). \<not> txp_stale txHash all_txs x \<longrightarrow> Price tx \<le> Price x))"
  using txp_Cap_spec[OF assms, of txHash sender all_txs thr loc] txp_Underpriced_spec(2)[OF assms]
  by (cases "txp_Cap txHash sender all_txs l thr loc") simp

theorem txp_Cap_Underpriced_exact_witness:
  "map AccountNonce (snd (txp_Cap (\<lambda>tx. ucast (AccountNonce tx)) (\<lambda>s tx. Inl ErrInvalidSig) demo_all
      (demo_priced demo_stale) 25 (newAccountSet FrontierSigner))) = [3, 2] \<and>
   price_heap (heap (fst (txp_Cap (\<lambda>tx. ucast (AccountNonce tx)) (\<lambda>s tx. Inl ErrInvalidSig) demo_all
      (demo_priced demo_stale) 25 (newAccountSet FrontierSigner))))"
proof -
  have "map AccountNonce (snd (txp_Cap (\<lambda>tx. ucast (AccountNonce tx)) (\<lambda>s tx. Inl ErrInvalidSig) demo_all
      (demo_priced demo_stale) 25 (newAccountSet FrontierSigner))) = [3, 2]" by code_simp
  then show ?thesis
    using txp_Cap_Underpriced_exact[OF demo_priced_heap, of "\<lambda>tx. ucast (AccountNonce tx)" "\<lambda>s tx. Inl ErrInvalidSig"
        demo_all 25 "newAccountSet FrontierSigner"]
    by (simp add: Let_def case_prod_unfold)
qed

end
