(* ===== verification/Go_Threads.thy ===== *)
theory Go_Threads
  imports Go_Prelude
begin

text \<open>
  Goroutines as step relations.  The threads of a model are a list of thread states; one step of
  the program is one atomic action (an atomic load, a compare-and-swap, a \<open>sync.Map\<close> operation, a
  read or a write of a shared field) of one of them.  The locale \<open>step_invariant\<close> carries an
  invariant of single steps to all reachable states, for any interleaving.
\<close>

locale step_invariant =
  fixes step :: "'s \<Rightarrow> 's \<Rightarrow> bool" and inv :: "'s \<Rightarrow> bool"
  assumes step_inv: "step s t \<Longrightarrow> inv s \<Longrightarrow> inv t"
begin

lemma steps_inv: "step\<^sup>*\<^sup>* s t \<Longrightarrow> inv s \<Longrightarrow> inv t"
  by (induction rule: rtranclp_induct) (auto intro: step_inv)

end

text \<open>An invariant that is proved with the help of another one.\<close>

locale step_invariant_with = base: step_invariant step inv
  for step :: "'s \<Rightarrow> 's \<Rightarrow> bool" and inv :: "'s \<Rightarrow> bool" +
  fixes inv2 :: "'s \<Rightarrow> bool"
  assumes step_inv2: "step s t \<Longrightarrow> inv s \<Longrightarrow> inv2 s \<Longrightarrow> inv2 t"

sublocale step_invariant_with \<subseteq> both: step_invariant step "\<lambda>s. inv s \<and> inv2 s"
  by unfold_locales (auto intro: base.step_inv step_inv2)

subsection \<open>Sums and quantifiers over a list of threads\<close>

lemma sum_list_map_update:
  fixes f :: "'a \<Rightarrow> 'b :: ab_group_add"
  shows "i < length xs \<Longrightarrow> sum_list (map f (xs[i := y])) = sum_list (map f xs) - f (xs ! i) + f y"
proof (induction xs arbitrary: i)
  case (Cons x xs)
  then show ?case by (cases i) (simp_all add: algebra_simps)
qed simp

lemma sum_list_map_update_nat:
  fixes f :: "'a \<Rightarrow> nat"
  shows "i < length xs \<Longrightarrow> sum_list (map f (xs[i := y])) + f (xs ! i) = sum_list (map f xs) + f y"
proof (induction xs arbitrary: i)
  case (Cons x xs)
  show ?case
  proof (cases i)
    case (Suc j)
    then show ?thesis using Cons.IH[of j] Cons.prems by simp
  qed simp
qed simp

lemma member_le_sum_list_map:
  fixes f :: "'a \<Rightarrow> nat"
  shows "i < length xs \<Longrightarrow> f (xs ! i) \<le> sum_list (map f xs)"
  by (rule member_le_sum_list) simp_all

lemma all_nth_update:
  "i < length xs \<Longrightarrow> (\<forall>j < length (xs[i := y]). P j (xs[i := y] ! j)) \<longleftrightarrow>
     P i y \<and> (\<forall>j < length xs. j \<noteq> i \<longrightarrow> P j (xs ! j))"
  by (auto simp: nth_list_update)

end
