(* ===== verification/Gas_Pool.thy ===== *)
theory Gas_Pool
  imports Go_Threads
begin

text \<open>
  \<open>core/gaspool.go\<close>: the gas of a block, shared by the worker threads.  \<open>AddGas\<close> and \<open>SubGas\<close> are
  given twice: as functions for a caller that runs alone, and as the sequence of atomic
  actions that other threads interleave with.  \<open>SubGas\<close> retries a compare-and-swap; \<open>AddGas\<close>
  checks for overflow with a plain read before its atomic addition.  The lemmas show that, whatever the
  interleaving, no gas is created or lost and no thread panics as long as threads only give back what they took,
  and that the check of \<open>AddGas\<close> does not protect threads that add more than that.
\<close>

subsection \<open>Alone\<close>

datatype gp_error = ErrGasLimitReached

text \<open>A panic is \<open>None\<close>.\<close>

definition AddGas :: "u64 \<Rightarrow> u64 \<Rightarrow> u64 option" where
  "AddGas gp amount = (if max_u64 - amount < gp then None else Some (gp + amount))"

definition SubGas :: "u64 \<Rightarrow> u64 \<Rightarrow> gp_error + u64" where
  "SubGas gp amount = (if gp < amount then Inl ErrGasLimitReached else Inr (gp - amount))"

subsection \<open>Interleaved\<close>

text \<open>
  Where a thread is: outside, at the top of the loop of \<open>SubGas\<close>, before the compare-and-swap with
  the value it loaded, before the check of \<open>AddGas\<close>, before its addition, or dead by a panic.
  \<open>gp_held\<close> is the gas the thread has taken and not given back.
\<close>

datatype gp_pc = GpOut | GpLoad u64 | GpCas u64 u64 | GpCheck u64 | GpAdd u64 | GpPanic

record gp_thread =
  gp_pc :: gp_pc
  gp_held :: nat
  gp_err :: bool

record gp_state =
  gp_pool :: u64
  gp_threads :: "gp_thread list"

inductive gp_action :: "u64 \<Rightarrow> gp_thread \<Rightarrow> u64 \<Rightarrow> gp_thread \<Rightarrow> bool" where
  gp_call_sub: "gp_pc t = GpOut \<Longrightarrow> gp_action g t g (t\<lparr>gp_pc := GpLoad a, gp_err := False\<rparr>)"
| gp_load_short: "gp_pc t = GpLoad a \<Longrightarrow> g < a \<Longrightarrow> gp_action g t g (t\<lparr>gp_pc := GpOut, gp_err := True\<rparr>)"
| gp_load: "gp_pc t = GpLoad a \<Longrightarrow> \<not> g < a \<Longrightarrow> gp_action g t g (t\<lparr>gp_pc := GpCas a g\<rparr>)"
| gp_cas_ok: "gp_pc t = GpCas a old \<Longrightarrow> g = old \<Longrightarrow>
    gp_action g t (old - a) (t\<lparr>gp_pc := GpOut, gp_held := gp_held t + unat a\<rparr>)"
| gp_cas_fail: "gp_pc t = GpCas a old \<Longrightarrow> g \<noteq> old \<Longrightarrow> gp_action g t g (t\<lparr>gp_pc := GpLoad a\<rparr>)"
| gp_call_add: "gp_pc t = GpOut \<Longrightarrow> unat a \<le> gp_held t \<Longrightarrow> gp_action g t g (t\<lparr>gp_pc := GpCheck a\<rparr>)"
| gp_check_panic: "gp_pc t = GpCheck a \<Longrightarrow> max_u64 - a < g \<Longrightarrow> gp_action g t g (t\<lparr>gp_pc := GpPanic\<rparr>)"
| gp_check: "gp_pc t = GpCheck a \<Longrightarrow> \<not> max_u64 - a < g \<Longrightarrow> gp_action g t g (t\<lparr>gp_pc := GpAdd a\<rparr>)"
| gp_add: "gp_pc t = GpAdd a \<Longrightarrow> gp_action g t (g + a) (t\<lparr>gp_pc := GpOut, gp_held := gp_held t - unat a\<rparr>)"

inductive_cases gp_actionE: "gp_action g t g' t'"

inductive gp_step :: "gp_state \<Rightarrow> gp_state \<Rightarrow> bool" where
  "i < length (gp_threads s) \<Longrightarrow> gp_action (gp_pool s) (gp_threads s ! i) g t \<Longrightarrow>
   gp_step s \<lparr>gp_pool = g, gp_threads = (gp_threads s)[i := t]\<rparr>"

inductive_cases gp_stepE: "gp_step s s'"

text \<open>What a block starts with: a pool and idle workers that hold nothing.\<close>

definition gp_start :: "u64 \<Rightarrow> nat \<Rightarrow> gp_state" where
  "gp_start limit n = \<lparr>gp_pool = limit, gp_threads = replicate n \<lparr>gp_pc = GpOut, gp_held = 0, gp_err = False\<rparr>\<rparr>"

subsection \<open>Conservation of gas\<close>

text \<open>A thread that is about to give back \<open>a\<close> holds at least \<open>a\<close>; one about to take \<open>a\<close> saw enough.\<close>

definition gp_thread_ok :: "gp_thread \<Rightarrow> bool" where
  "gp_thread_ok t \<longleftrightarrow>
     (case gp_pc t of
        GpCas a old \<Rightarrow> a \<le> old
      | GpCheck a \<Rightarrow> unat a \<le> gp_held t
      | GpAdd a \<Rightarrow> unat a \<le> gp_held t
      | GpPanic \<Rightarrow> False
      | _ \<Rightarrow> True)"

definition gp_total :: "gp_state \<Rightarrow> nat" where
  "gp_total s = unat (gp_pool s) + sum_list (map gp_held (gp_threads s))"

definition gp_inv :: "nat \<Rightarrow> gp_state \<Rightarrow> bool" where
  "gp_inv tot s \<longleftrightarrow> gp_total s = tot \<and> tot < 2 ^ 64 \<and> (\<forall>t \<in> set (gp_threads s). gp_thread_ok t)"

lemma unat_add_no_overflow: "unat (g :: u64) + unat a < 2 ^ 64 \<Longrightarrow> unat (g + a) = unat g + unat a"
  by (simp add: unat_word_ariths)

lemma max_u64_minus_less: "max_u64 - (a :: u64) < g \<longleftrightarrow> 2 ^ 64 \<le> unat g + unat a"
proof -
  have "unat (max_u64 - a) = 2 ^ 64 - 1 - unat a"
    using uint_bounded[of a] by (subst unat_sub) (simp_all add: word_le_def)
  then show ?thesis using unat_u64_lt[of a] by (simp add: word_less_nat_alt) linarith
qed

text \<open>One atomic action keeps the thread sound and moves gas between the pool and the thread.\<close>

lemma gp_action_ok:
  assumes "gp_action g t g' t'" and "gp_thread_ok t" and "unat g + gp_held t < 2 ^ 64"
  shows "gp_thread_ok t' \<and> unat g' + gp_held t' = unat g + gp_held t"
  using assms
proof (cases rule: gp_action.cases)
  case (gp_cas_ok a old)
  then have "a \<le> g" using assms(2) by (simp add: gp_thread_ok_def)
  then have "unat (g - a) + unat a = unat g" by (simp add: unat_sub word_le_nat_alt)
  then show ?thesis using gp_cas_ok by (simp add: gp_thread_ok_def)
next
  case (gp_check_panic a)
  then show ?thesis using assms by (simp add: gp_thread_ok_def max_u64_minus_less)
next
  case (gp_add a)
  then show ?thesis using assms unat_add_no_overflow[of g a] by (simp add: gp_thread_ok_def)
qed (use assms in \<open>auto simp: gp_thread_ok_def not_less\<close>)

lemma gp_held_le: "i < length ts \<Longrightarrow> gp_held (ts ! i) \<le> sum_list (map gp_held ts)"
  by (rule member_le_sum_list_map)

lemma gp_step_inv: "gp_step s s' \<Longrightarrow> gp_inv tot s \<Longrightarrow> gp_inv tot s'"
proof (elim gp_stepE)
  fix i g t
  assume inv: "gp_inv tot s" and i: "i < length (gp_threads s)"
    and act: "gp_action (gp_pool s) (gp_threads s ! i) g t"
    and s': "s' = \<lparr>gp_pool = g, gp_threads = (gp_threads s)[i := t]\<rparr>"
  have "unat (gp_pool s) + gp_held (gp_threads s ! i) < 2 ^ 64"
    using inv gp_held_le[OF i] by (simp add: gp_inv_def gp_total_def)
  then have ok: "gp_thread_ok t" "unat g + gp_held t = unat (gp_pool s) + gp_held (gp_threads s ! i)"
    using gp_action_ok[OF act] inv i by (auto simp: gp_inv_def)
  have "gp_total s' = gp_total s"
    using ok(2) sum_list_map_update_nat[OF i, of gp_held t] by (simp add: gp_total_def s')
  moreover have "\<forall>t \<in> set (gp_threads s'). gp_thread_ok t"
    using ok(1) inv by (auto simp: gp_inv_def s' dest!: subsetD[OF set_update_subset_insert])
  ultimately show "gp_inv tot s'" using inv by (simp add: gp_inv_def)
qed

interpretation gp: step_invariant gp_step "gp_inv tot" for tot
  by unfold_locales (rule gp_step_inv)

lemma gp_start_inv: "gp_inv (unat limit) (gp_start limit n)"
  using unat_u64_lt[of limit]
  by (auto simp: gp_inv_def gp_start_def gp_total_def gp_thread_ok_def sum_list_replicate)

text \<open>Each atomic action that changes the pool is one whole sequential operation.\<close>

lemma gp_action_sequential:
  assumes "gp_action g t g' t'" and "gp_thread_ok t" and "unat g + gp_held t < 2 ^ 64"
  shows "g' = g \<or> (\<exists>a. SubGas g a = Inr g') \<or> (\<exists>a. AddGas g a = Some g')"
  using assms
proof (cases rule: gp_action.cases)
  case (gp_cas_ok a old)
  then have "SubGas g a = Inr g'" using assms(2) by (simp add: SubGas_def gp_thread_ok_def not_less)
  then show ?thesis by blast
next
  case (gp_add a)
  then have "\<not> max_u64 - a < g" using assms(2,3) by (simp add: max_u64_minus_less gp_thread_ok_def)
  then have "AddGas g a = Some g'" using gp_add by (simp add: AddGas_def)
  then show ?thesis by blast
qed auto

subsection \<open>Properties\<close>


text \<open>Two workers take 60 of 100 gas at once: both load 100, one swaps, the other fails and retries.\<close>

definition demo_gas :: gp_state where
  "demo_gas = \<lparr>gp_pool = 40, gp_threads = [\<lparr>gp_pc = GpOut, gp_held = 60, gp_err = False\<rparr>,
     \<lparr>gp_pc = GpLoad 60, gp_held = 0, gp_err = False\<rparr>]\<rparr>"

lemma gp_step_fst:
  "gp_action g a g' a' \<Longrightarrow> gp_step \<lparr>gp_pool = g, gp_threads = [a, b]\<rparr> \<lparr>gp_pool = g', gp_threads = [a', b]\<rparr>"
  using gp_step.intros[of 0 "\<lparr>gp_pool = g, gp_threads = [a, b]\<rparr>" g' a'] by simp

lemma gp_step_snd:
  "gp_action g b g' b' \<Longrightarrow> gp_step \<lparr>gp_pool = g, gp_threads = [a, b]\<rparr> \<lparr>gp_pool = g', gp_threads = [a, b']\<rparr>"
  using gp_step.intros[of 1 "\<lparr>gp_pool = g, gp_threads = [a, b]\<rparr>" g' b'] by simp

abbreviation gp_at :: "gp_pc \<Rightarrow> nat \<Rightarrow> gp_thread" where
  "gp_at pc h \<equiv> \<lparr>gp_pc = pc, gp_held = h, gp_err = False\<rparr>"

lemma demo_gas_reachable: "gp_step\<^sup>*\<^sup>* (gp_start 100 2) demo_gas"
proof -
  let ?s = "\<lambda>g a b. \<lparr>gp_pool = g, gp_threads = [a, b]\<rparr>"
  have 1: "gp_step (?s 100 (gp_at GpOut 0) (gp_at GpOut 0)) (?s 100 (gp_at (GpLoad 60) 0) (gp_at GpOut 0))"
    using gp_step_fst[OF gp_call_sub[of "gp_at GpOut 0" 100 60]] by simp
  have 2: "gp_step (?s 100 (gp_at (GpLoad 60) 0) (gp_at GpOut 0)) (?s 100 (gp_at (GpLoad 60) 0) (gp_at (GpLoad 60) 0))"
    using gp_step_snd[OF gp_call_sub[of "gp_at GpOut 0" 100 60]] by simp
  have 3: "gp_step (?s 100 (gp_at (GpLoad 60) 0) (gp_at (GpLoad 60) 0)) (?s 100 (gp_at (GpCas 60 100) 0) (gp_at (GpLoad 60) 0))"
    using gp_step_fst[OF gp_load[of "gp_at (GpLoad 60) 0" 60 100]] by simp
  have 4: "gp_step (?s 100 (gp_at (GpCas 60 100) 0) (gp_at (GpLoad 60) 0)) (?s 100 (gp_at (GpCas 60 100) 0) (gp_at (GpCas 60 100) 0))"
    using gp_step_snd[OF gp_load[of "gp_at (GpLoad 60) 0" 60 100]] by simp
  have 5: "gp_step (?s 100 (gp_at (GpCas 60 100) 0) (gp_at (GpCas 60 100) 0)) (?s 40 (gp_at GpOut 60) (gp_at (GpCas 60 100) 0))"
    using gp_step_fst[OF gp_cas_ok[of "gp_at (GpCas 60 100) 0" 60 100 100]] by simp
  have 6: "gp_step (?s 40 (gp_at GpOut 60) (gp_at (GpCas 60 100) 0)) (?s 40 (gp_at GpOut 60) (gp_at (GpLoad 60) 0))"
    using gp_step_snd[OF gp_cas_fail[of "gp_at (GpCas 60 100) 0" 60 100 40]] by simp
  have st: "gp_start 100 2 = ?s 100 (gp_at GpOut 0) (gp_at GpOut 0)"
    by (simp add: gp_start_def numeral_2_eq_2)
  show ?thesis unfolding demo_gas_def st
    using 1 2 3 4 5 6 by (meson converse_rtranclp_into_rtranclp rtranclp.rtrancl_refl)
qed


text \<open>
  The overflow check of \<open>AddGas\<close> is not atomic with its addition: two threads that both passed the
  check can push the pool above 64 bits, and it wraps instead of panicking.
\<close>

theorem AddGas_check_race:
  "gp_step\<^sup>*\<^sup>*
     \<lparr>gp_pool = max_u64 - 10, gp_threads = [gp_at (GpCheck 8) 8, gp_at (GpCheck 8) 8]\<rparr>
     \<lparr>gp_pool = 5, gp_threads = [gp_at GpOut 0, gp_at GpOut 0]\<rparr>"
proof -
  let ?s = "\<lambda>g a b. \<lparr>gp_pool = g, gp_threads = [a, b]\<rparr>" and ?g = "max_u64 - 10"
  have 1: "gp_step (?s ?g (gp_at (GpCheck 8) 8) (gp_at (GpCheck 8) 8)) (?s ?g (gp_at (GpAdd 8) 8) (gp_at (GpCheck 8) 8))"
    using gp_step_fst[OF gp_check[of "gp_at (GpCheck 8) 8" 8 ?g]] by simp
  have 2: "gp_step (?s ?g (gp_at (GpAdd 8) 8) (gp_at (GpCheck 8) 8)) (?s ?g (gp_at (GpAdd 8) 8) (gp_at (GpAdd 8) 8))"
    using gp_step_snd[OF gp_check[of "gp_at (GpCheck 8) 8" 8 ?g]] by simp
  have 3: "gp_step (?s ?g (gp_at (GpAdd 8) 8) (gp_at (GpAdd 8) 8)) (?s (max_u64 - 2) (gp_at GpOut 0) (gp_at (GpAdd 8) 8))"
    using gp_step_fst[OF gp_add[of "gp_at (GpAdd 8) 8" 8 ?g]] by simp
  have w: "max_u64 - 2 + 8 = (5 :: u64)" by code_simp
  have 4: "gp_step (?s (max_u64 - 2) (gp_at GpOut 0) (gp_at (GpAdd 8) 8)) (?s 5 (gp_at GpOut 0) (gp_at GpOut 0))"
    using gp_step_snd[OF gp_add[of "gp_at (GpAdd 8) 8" 8 "max_u64 - 2", unfolded w]] by simp
  show ?thesis using 1 2 3 4 by (meson converse_rtranclp_into_rtranclp rtranclp.rtrancl_refl)
qed

end
