(* ===== verification/Transfer_Lock.thy ===== *)
theory Transfer_Lock
  imports Go_Threads
begin

text \<open>
  \<open>core/evm.go\<close>: \<open>CanTransfer\<close> and \<open>Transfer\<close>.  \<open>Transfer\<close> is run by several threads on one state
  database and guards the two balances it changes with the global \<open>sync.Map\<close>
  \<open>InUseAccounts\<close>: a thread stores the sender, then the recipient, and backs out if the second
  store finds an entry.  The keys are \<open>addr.String()\<close>, which is injective, so the model uses the
  address itself.  The balances are updated by a read and a write each, as \<open>SubBalance\<close> and
  \<open>AddBalance\<close> do.  The lemmas show mutual exclusion and that the outcome is that of the transfers one after
  the other, for threads that transfer between different accounts; and that a transfer of an
  account to itself breaks the lock, because it deletes the same entry twice.
\<close>

subsection \<open>Alone\<close>

definition CanTransfer :: "(address \<Rightarrow> bigint) \<Rightarrow> address \<Rightarrow> bigint \<Rightarrow> bool" where
  "CanTransfer bal addr amount = (bal addr \<ge> amount)"

definition Transfer :: "(address \<Rightarrow> bigint) \<Rightarrow> address \<Rightarrow> address \<Rightarrow> bigint \<Rightarrow> address \<Rightarrow> bigint" where
  "Transfer bal sender recipient amount =
     (let bal1 = bal(sender := bal sender - amount) in bal1(recipient := bal1 recipient + amount))"

definition transfers :: "(address \<times> address \<times> bigint) list \<Rightarrow> (address \<Rightarrow> bigint) \<Rightarrow> address \<Rightarrow> bigint" where
  "transfers ts bal = fold (\<lambda>(s, r, a) b. Transfer b s r a) ts bal"

subsection \<open>Interleaved\<close>

text \<open>The program points of \<open>Transfer\<close>; a written value is read one action earlier.\<close>

datatype tr_pc =
    TrStoreSender        \<comment> \<open>\<open>InUseAccounts.LoadOrStore(sender)\<close>\<close>
  | TrStoreRecipient     \<comment> \<open>\<open>InUseAccounts.LoadOrStore(recipient)\<close>\<close>
  | TrSubRead            \<comment> \<open>\<open>db.SubBalance(sender, amount)\<close>\<close>
  | TrSubWrite bigint
  | TrAddRead            \<comment> \<open>\<open>db.AddBalance(recipient, amount)\<close>\<close>
  | TrAddWrite bigint
  | TrDelSender          \<comment> \<open>\<open>InUseAccounts.Delete(sender)\<close>\<close>
  | TrDelRecipient       \<comment> \<open>\<open>InUseAccounts.Delete(recipient)\<close>\<close>
  | TrBackOut            \<comment> \<open>\<open>InUseAccounts.Delete(sender)\<close> after the recipient was in use\<close>
  | TrDone

record tr_thread =
  tr_from :: address
  tr_to :: address
  tr_amount :: bigint
  tr_pc :: tr_pc

record tr_state =
  tr_in_use :: "address list"
  tr_bal :: "address \<Rightarrow> bigint"
  tr_threads :: "tr_thread list"

inductive tr_action ::
  "address list \<Rightarrow> (address \<Rightarrow> bigint) \<Rightarrow> tr_thread \<Rightarrow> address list \<Rightarrow> (address \<Rightarrow> bigint) \<Rightarrow> tr_thread \<Rightarrow> bool" where
  tr_sender_free: "tr_pc t = TrStoreSender \<Longrightarrow> tr_from t \<notin> set u \<Longrightarrow>
    tr_action u b t (tr_from t # u) b (t\<lparr>tr_pc := TrStoreRecipient\<rparr>)"
| tr_sender_busy: "tr_pc t = TrStoreSender \<Longrightarrow> tr_from t \<in> set u \<Longrightarrow> tr_action u b t u b t"
| tr_recipient_free: "tr_pc t = TrStoreRecipient \<Longrightarrow> tr_to t \<notin> set u \<Longrightarrow>
    tr_action u b t (tr_to t # u) b (t\<lparr>tr_pc := TrSubRead\<rparr>)"
| tr_recipient_same: "tr_pc t = TrStoreRecipient \<Longrightarrow> tr_to t \<in> set u \<Longrightarrow> tr_from t = tr_to t \<Longrightarrow>
    tr_action u b t u b (t\<lparr>tr_pc := TrSubRead\<rparr>)"
| tr_recipient_busy: "tr_pc t = TrStoreRecipient \<Longrightarrow> tr_to t \<in> set u \<Longrightarrow> tr_from t \<noteq> tr_to t \<Longrightarrow>
    tr_action u b t u b (t\<lparr>tr_pc := TrBackOut\<rparr>)"
| tr_sub_read: "tr_pc t = TrSubRead \<Longrightarrow> tr_action u b t u b (t\<lparr>tr_pc := TrSubWrite (b (tr_from t))\<rparr>)"
| tr_sub_write: "tr_pc t = TrSubWrite v \<Longrightarrow>
    tr_action u b t u (b(tr_from t := v - tr_amount t)) (t\<lparr>tr_pc := TrAddRead\<rparr>)"
| tr_add_read: "tr_pc t = TrAddRead \<Longrightarrow> tr_action u b t u b (t\<lparr>tr_pc := TrAddWrite (b (tr_to t))\<rparr>)"
| tr_add_write: "tr_pc t = TrAddWrite v \<Longrightarrow>
    tr_action u b t u (b(tr_to t := v + tr_amount t)) (t\<lparr>tr_pc := TrDelSender\<rparr>)"
| tr_del_sender: "tr_pc t = TrDelSender \<Longrightarrow>
    tr_action u b t (removeAll (tr_from t) u) b (t\<lparr>tr_pc := TrDelRecipient\<rparr>)"
| tr_del_recipient: "tr_pc t = TrDelRecipient \<Longrightarrow>
    tr_action u b t (removeAll (tr_to t) u) b (t\<lparr>tr_pc := TrDone\<rparr>)"
| tr_back_out: "tr_pc t = TrBackOut \<Longrightarrow>
    tr_action u b t (removeAll (tr_from t) u) b (t\<lparr>tr_pc := TrStoreSender\<rparr>)"

inductive tr_step :: "tr_state \<Rightarrow> tr_state \<Rightarrow> bool" where
  "i < length (tr_threads s) \<Longrightarrow> tr_action (tr_in_use s) (tr_bal s) (tr_threads s ! i) u b t \<Longrightarrow>
   tr_step s \<lparr>tr_in_use = u, tr_bal = b, tr_threads = (tr_threads s)[i := t]\<rparr>"

inductive_cases tr_stepE: "tr_step s s'"

definition tr_start :: "(address \<Rightarrow> bigint) \<Rightarrow> (address \<times> address \<times> bigint) list \<Rightarrow> tr_state" where
  "tr_start bal ts = \<lparr>tr_in_use = [], tr_bal = bal,
     tr_threads = map (\<lambda>(s, r, a). \<lparr>tr_from = s, tr_to = r, tr_amount = a, tr_pc = TrStoreSender\<rparr>) ts\<rparr>"

subsection \<open>Mutual exclusion\<close>

text \<open>The accounts whose entry a thread has stored and not yet deleted.\<close>

definition tr_holds :: "tr_thread \<Rightarrow> address set" where
  "tr_holds t = (case tr_pc t of
      TrStoreSender \<Rightarrow> {} | TrDone \<Rightarrow> {}
    | TrStoreRecipient \<Rightarrow> {tr_from t} | TrBackOut \<Rightarrow> {tr_from t}
    | TrDelRecipient \<Rightarrow> {tr_to t}
    | _ \<Rightarrow> {tr_from t, tr_to t})"

definition tr_critical :: "tr_thread \<Rightarrow> bool" where
  "tr_critical t \<longleftrightarrow> (case tr_pc t of TrSubRead \<Rightarrow> True | TrSubWrite _ \<Rightarrow> True | TrAddRead \<Rightarrow> True | TrAddWrite _ \<Rightarrow> True | _ \<Rightarrow> False)"

definition tr_excl :: "tr_state \<Rightarrow> bool" where
  "tr_excl s \<longleftrightarrow>
     (\<forall>i < length (tr_threads s). tr_from (tr_threads s ! i) \<noteq> tr_to (tr_threads s ! i) \<and>
        tr_holds (tr_threads s ! i) \<subseteq> set (tr_in_use s)) \<and>
     (\<forall>i < length (tr_threads s). \<forall>j < length (tr_threads s). i \<noteq> j \<longrightarrow>
        tr_holds (tr_threads s ! i) \<inter> tr_holds (tr_threads s ! j) = {})"

text \<open>One action of a thread between different accounts, seen by the lock table.\<close>

lemma tr_action_locks:
  assumes "tr_action u b t u' b' t'" and "tr_from t \<noteq> tr_to t" and "tr_holds t \<subseteq> set u"
  shows "tr_from t' = tr_from t" and "tr_to t' = tr_to t" and "tr_amount t' = tr_amount t"
    and "tr_holds t' \<subseteq> set u'"
    and "tr_holds t' - tr_holds t \<subseteq> - set u"
    and "set u - tr_holds t \<subseteq> set u'"
    and "b' = b \<or> (\<exists>a v. b' = b(a := v) \<and> a \<in> tr_holds t)"
  using assms by (cases rule: tr_action.cases; auto simp: tr_holds_def)+

lemma tr_step_excl:
  assumes "tr_step s s'" and inv: "tr_excl s"
  shows "tr_excl s'"
  using assms(1)
proof (rule tr_stepE)
  fix i u b t
  let ?ts = "tr_threads s"
  assume i: "i < length ?ts" and act: "tr_action (tr_in_use s) (tr_bal s) (?ts ! i) u b t"
    and s': "s' = \<lparr>tr_in_use = u, tr_bal = b, tr_threads = ?ts[i := t]\<rparr>"
  have pre: "tr_from (?ts ! i) \<noteq> tr_to (?ts ! i)" "tr_holds (?ts ! i) \<subseteq> set (tr_in_use s)"
    using inv i by (auto simp: tr_excl_def)
  note lk = tr_action_locks[OF act pre]
  have sub: "tr_holds (?ts ! j) \<subseteq> set u" and disj: "tr_holds t \<inter> tr_holds (?ts ! j) = {}"
    if j: "j < length ?ts" "j \<noteq> i" for j
  proof -
    have dj: "tr_holds (?ts ! i) \<inter> tr_holds (?ts ! j) = {}" and hj: "tr_holds (?ts ! j) \<subseteq> set (tr_in_use s)"
      using inv i j unfolding tr_excl_def by metis+
    show "tr_holds (?ts ! j) \<subseteq> set u" using dj hj lk(6) by blast
    show "tr_holds t \<inter> tr_holds (?ts ! j) = {}" using dj hj lk(5) by blast
  qed
  have A: "\<forall>j < length (?ts[i := t]). tr_from (?ts[i := t] ! j) \<noteq> tr_to (?ts[i := t] ! j) \<and> tr_holds (?ts[i := t] ! j) \<subseteq> set u"
    using inv lk(1,2,4) pre(1) sub i by (auto simp: nth_list_update tr_excl_def)
  have B: "tr_holds (?ts[i := t] ! j) \<inter> tr_holds (?ts[i := t] ! k) = {}"
    if "j < length ?ts" "k < length ?ts" "j \<noteq> k" for j k
    using that inv disj i unfolding tr_excl_def nth_list_update[OF i]
    by (cases "j = i"; cases "k = i") (auto simp: nth_list_update Int_commute)
  show "tr_excl s'" unfolding tr_excl_def s' using A B by simp
qed

interpretation tr: step_invariant tr_step tr_excl
  by unfold_locales (rule tr_step_excl)

lemma tr_start_excl: "\<forall>(s, r, a) \<in> set ts. s \<noteq> r \<Longrightarrow> tr_excl (tr_start bal ts)"
  by (auto simp: tr_excl_def tr_start_def tr_holds_def case_prod_unfold dest!: nth_mem)

lemma tr_critical_holds: "tr_critical t \<Longrightarrow> tr_holds t = {tr_from t, tr_to t}"
  by (auto simp: tr_critical_def tr_holds_def split: tr_pc.splits)

subsection \<open>No lost update\<close>

text \<open>What a thread has done to an account so far.\<close>

definition tr_effect :: "address \<Rightarrow> tr_thread \<Rightarrow> bigint" where
  "tr_effect a t = (let out = (if a = tr_from t then - tr_amount t else 0);
                        into = (if a = tr_to t then tr_amount t else 0)
     in case tr_pc t of
          TrAddRead \<Rightarrow> out | TrAddWrite _ \<Rightarrow> out
        | TrDelSender \<Rightarrow> out + into | TrDelRecipient \<Rightarrow> out + into | TrDone \<Rightarrow> out + into
        | _ \<Rightarrow> 0)"

text \<open>A value read under the lock is still the balance when it is written back.\<close>

definition tr_fresh :: "(address \<Rightarrow> bigint) \<Rightarrow> tr_thread \<Rightarrow> bool" where
  "tr_fresh b t \<longleftrightarrow> (case tr_pc t of TrSubWrite v \<Rightarrow> v = b (tr_from t) | TrAddWrite v \<Rightarrow> v = b (tr_to t) | _ \<Rightarrow> True)"

definition tr_ser :: "(address \<Rightarrow> bigint) \<Rightarrow> tr_state \<Rightarrow> bool" where
  "tr_ser bal s \<longleftrightarrow>
     (\<forall>a. tr_bal s a = bal a + sum_list (map (tr_effect a) (tr_threads s))) \<and>
     (\<forall>i < length (tr_threads s). tr_fresh (tr_bal s) (tr_threads s ! i))"

lemma tr_action_effect:
  assumes "tr_action u b t u' b' t'" and "tr_from t \<noteq> tr_to t" and "tr_fresh b t"
  shows "b' a = b a - tr_effect a t + tr_effect a t'" and "tr_fresh b' t'"
  using assms by (cases rule: tr_action.cases; auto simp: tr_effect_def tr_fresh_def Let_def)+

lemma tr_fresh_frame:
  assumes "tr_fresh b t" and "b' = b \<or> (\<exists>a v. b' = b(a := v) \<and> a \<notin> tr_holds t)"
  shows "tr_fresh b' t"
  using assms by (auto simp: tr_fresh_def tr_holds_def split: tr_pc.splits)

lemma tr_step_ser:
  assumes "tr_step s s'" and excl: "tr_excl s" and ser: "tr_ser bal s"
  shows "tr_ser bal s'"
  using assms(1)
proof (rule tr_stepE)
  fix i u b t
  let ?ts = "tr_threads s"
  assume i: "i < length ?ts" and act: "tr_action (tr_in_use s) (tr_bal s) (?ts ! i) u b t"
    and s': "s' = \<lparr>tr_in_use = u, tr_bal = b, tr_threads = ?ts[i := t]\<rparr>"
  have pre: "tr_from (?ts ! i) \<noteq> tr_to (?ts ! i)" "tr_holds (?ts ! i) \<subseteq> set (tr_in_use s)"
    "tr_fresh (tr_bal s) (?ts ! i)"
    using excl ser i by (auto simp: tr_excl_def tr_ser_def)
  note eff = tr_action_effect[OF act pre(1,3)]
  have "b a = bal a + sum_list (map (tr_effect a) (?ts[i := t]))" for a
    using ser unfolding eff(1)[of a] sum_list_map_update[OF i] tr_ser_def by simp
  moreover have "tr_fresh b (?ts[i := t] ! j)" if j: "j < length ?ts" for j
  proof (cases "j = i")
    case True
    then show ?thesis using eff(2) i by simp
  next
    case False
    have "tr_holds (?ts ! i) \<inter> tr_holds (?ts ! j) = {}"
      using excl i j False unfolding tr_excl_def by metis
    then have "b = tr_bal s \<or> (\<exists>a v. b = (tr_bal s)(a := v) \<and> a \<notin> tr_holds (?ts ! j))"
      using tr_action_locks(7)[OF act pre(1,2)] by blast
    then have "tr_fresh b (?ts ! j)"
      using tr_fresh_frame ser j unfolding tr_ser_def by blast
    then show ?thesis using False by simp
  qed
  ultimately show "tr_ser bal s'" by (simp add: tr_ser_def s')
qed

interpretation tr_serial: step_invariant_with tr_step tr_excl "tr_ser bal" for bal
  by unfold_locales (rule tr_step_ser)

lemma tr_start_ser: "tr_ser bal (tr_start bal ts)"
proof -
  have "sum_list (map (tr_effect a) (tr_threads (tr_start bal ts))) = 0" for a
    by (induction ts) (auto simp: tr_start_def tr_effect_def)
  then show ?thesis by (auto simp: tr_ser_def tr_start_def tr_fresh_def case_prod_unfold)
qed

lemma transfers_sum:
  "transfers ts bal a = bal a + sum_list (map (\<lambda>(s, r, v). (if a = r then v else 0) - (if a = s then v else 0)) ts)"
  unfolding transfers_def
  by (induction ts arbitrary: bal) (auto simp: Transfer_def Let_def)

text \<open>The accounts and amounts of the threads never change.\<close>

definition tr_args :: "tr_state \<Rightarrow> (address \<times> address \<times> bigint) list" where
  "tr_args s = map (\<lambda>t. (tr_from t, tr_to t, tr_amount t)) (tr_threads s)"

lemma tr_action_args: "tr_action u b t u' b' t' \<Longrightarrow> tr_from t' = tr_from t \<and> tr_to t' = tr_to t \<and> tr_amount t' = tr_amount t"
  by (cases rule: tr_action.cases) auto

interpretation tr_const: step_invariant tr_step "\<lambda>s. tr_args s = ts" for ts
proof unfold_locales
  fix s s'
  assume "tr_step s s'" and a: "tr_args s = ts"
  then show "tr_args s' = ts"
  proof (elim tr_stepE)
    fix i u b t
    assume i: "i < length (tr_threads s)" and act: "tr_action (tr_in_use s) (tr_bal s) (tr_threads s ! i) u b t"
      and s': "s' = \<lparr>tr_in_use = u, tr_bal = b, tr_threads = (tr_threads s)[i := t]\<rparr>"
    show ?thesis using tr_action_args[OF act] a i
      by (auto simp: tr_args_def s' map_update intro!: list_update_same_conv[THEN iffD2])
  qed
qed

lemma tr_start_args: "tr_args (tr_start bal ts) = ts"
  by (simp add: tr_args_def tr_start_def comp_def case_prod_unfold)

text \<open>The table holds exactly what the threads hold.\<close>

definition tr_table :: "tr_state \<Rightarrow> bool" where
  "tr_table s \<longleftrightarrow> set (tr_in_use s) = (\<Union>i < length (tr_threads s). tr_holds (tr_threads s ! i))"

lemma tr_action_table:
  assumes "tr_action u b t u' b' t'" and "tr_from t \<noteq> tr_to t" and "tr_holds t \<subseteq> set u"
  shows "set u' = (set u - tr_holds t) \<union> tr_holds t'"
  using assms by (cases rule: tr_action.cases) (auto simp: tr_holds_def)

lemma tr_step_table:
  assumes "tr_step s s'" and excl: "tr_excl s" and tab: "tr_table s"
  shows "tr_table s'"
  using assms(1)
proof (rule tr_stepE)
  fix i u b t
  let ?ts = "tr_threads s"
  assume i: "i < length ?ts" and act: "tr_action (tr_in_use s) (tr_bal s) (?ts ! i) u b t"
    and s': "s' = \<lparr>tr_in_use = u, tr_bal = b, tr_threads = ?ts[i := t]\<rparr>"
  have pre: "tr_from (?ts ! i) \<noteq> tr_to (?ts ! i)" "tr_holds (?ts ! i) \<subseteq> set (tr_in_use s)"
    using excl i by (auto simp: tr_excl_def)
  let ?rest = "\<Union>j \<in> {..<length ?ts} - {i}. tr_holds (?ts ! j)"
  have split: "(\<Union>j < length ?ts. f (xs ! j)) = f (xs ! i) \<union> (\<Union>j \<in> {..<length ?ts} - {i}. f (xs ! j))"
    for f :: "tr_thread \<Rightarrow> address set" and xs
    using i by auto
  have "tr_holds (?ts ! i) \<inter> ?rest = {}" using excl i unfolding tr_excl_def by blast
  then have "set (tr_in_use s) - tr_holds (?ts ! i) = ?rest"
    using tab unfolding tr_table_def split[of tr_holds ?ts] by blast
  then have "set u = ?rest \<union> tr_holds t" using tr_action_table[OF act pre] by blast
  moreover have "(\<Union>j < length ?ts. tr_holds (?ts[i := t] ! j)) = tr_holds t \<union> ?rest"
    unfolding split[of tr_holds "?ts[i := t]"] using i by simp
  ultimately show "tr_table s'" by (auto simp: tr_table_def s')
qed

interpretation tr_locks: step_invariant_with tr_step tr_excl tr_table
  by unfold_locales (rule tr_step_table)

lemma tr_start_table: "tr_table (tr_start bal ts)"
  by (auto simp: tr_table_def tr_start_def tr_holds_def case_prod_unfold)

subsection \<open>Schedules\<close>

text \<open>The action of a thread is a function of its state, so a schedule determines an execution.\<close>

definition tr_next ::
  "address list \<Rightarrow> (address \<Rightarrow> bigint) \<Rightarrow> tr_thread \<Rightarrow> (address list \<times> (address \<Rightarrow> bigint) \<times> tr_thread) option" where
  "tr_next u b t = (case tr_pc t of
      TrStoreSender \<Rightarrow> if tr_from t \<in> set u then Some (u, b, t) else Some (tr_from t # u, b, t\<lparr>tr_pc := TrStoreRecipient\<rparr>)
    | TrStoreRecipient \<Rightarrow> if tr_to t \<notin> set u then Some (tr_to t # u, b, t\<lparr>tr_pc := TrSubRead\<rparr>)
        else if tr_from t = tr_to t then Some (u, b, t\<lparr>tr_pc := TrSubRead\<rparr>) else Some (u, b, t\<lparr>tr_pc := TrBackOut\<rparr>)
    | TrSubRead \<Rightarrow> Some (u, b, t\<lparr>tr_pc := TrSubWrite (b (tr_from t))\<rparr>)
    | TrSubWrite v \<Rightarrow> Some (u, b(tr_from t := v - tr_amount t), t\<lparr>tr_pc := TrAddRead\<rparr>)
    | TrAddRead \<Rightarrow> Some (u, b, t\<lparr>tr_pc := TrAddWrite (b (tr_to t))\<rparr>)
    | TrAddWrite v \<Rightarrow> Some (u, b(tr_to t := v + tr_amount t), t\<lparr>tr_pc := TrDelSender\<rparr>)
    | TrDelSender \<Rightarrow> Some (removeAll (tr_from t) u, b, t\<lparr>tr_pc := TrDelRecipient\<rparr>)
    | TrDelRecipient \<Rightarrow> Some (removeAll (tr_to t) u, b, t\<lparr>tr_pc := TrDone\<rparr>)
    | TrBackOut \<Rightarrow> Some (removeAll (tr_from t) u, b, t\<lparr>tr_pc := TrStoreSender\<rparr>)
    | TrDone \<Rightarrow> None)"

lemma tr_next_action: "tr_next u b t = Some (u', b', t') \<longleftrightarrow> tr_action u b t u' b' t'"
proof
  show "tr_next u b t = Some (u', b', t') \<Longrightarrow> tr_action u b t u' b' t'"
    by (auto simp: tr_next_def split: tr_pc.splits if_splits intro: tr_action.intros)
  show "tr_action u b t u' b' t' \<Longrightarrow> tr_next u b t = Some (u', b', t')"
    by (cases rule: tr_action.cases) (auto simp: tr_next_def)
qed

fun tr_run :: "nat list \<Rightarrow> tr_state \<Rightarrow> tr_state option" where
  "tr_run [] s = Some s"
| "tr_run (i # sched) s =
     (if i < length (tr_threads s)
      then case tr_next (tr_in_use s) (tr_bal s) (tr_threads s ! i) of
             None \<Rightarrow> None
           | Some (u, b, t) \<Rightarrow> tr_run sched \<lparr>tr_in_use = u, tr_bal = b, tr_threads = (tr_threads s)[i := t]\<rparr>
      else None)"

lemma tr_run_steps: "tr_run sched s = Some s' \<Longrightarrow> tr_step\<^sup>*\<^sup>* s s'"
proof (induction sched s rule: tr_run.induct)
  case (2 i sched s)
  then obtain u b t where i: "i < length (tr_threads s)"
    and n: "tr_next (tr_in_use s) (tr_bal s) (tr_threads s ! i) = Some (u, b, t)"
    and r: "tr_run sched \<lparr>tr_in_use = u, tr_bal = b, tr_threads = (tr_threads s)[i := t]\<rparr> = Some s'"
    by (auto split: if_splits option.splits)
  have "tr_step s \<lparr>tr_in_use = u, tr_bal = b, tr_threads = (tr_threads s)[i := t]\<rparr>"
    using tr_step.intros[OF i n[unfolded tr_next_action]] .
  then show ?case using "2.IH"[OF i n refl refl r] by (rule converse_rtranclp_into_rtranclp)
qed simp

lemma tr_run_the: "tr_run sched s \<noteq> None \<Longrightarrow> tr_step\<^sup>*\<^sup>* s (the (tr_run sched s))"
  by (rule tr_run_steps) simp

subsection \<open>Properties\<close>



definition demo_bal :: "address \<Rightarrow> bigint" where
  "demo_bal a = (if a = 1 then 100 else 0)"

definition demo_transfers :: "(address \<times> address \<times> bigint) list" where
  "demo_transfers = [(1, 2, 30), (1, 3, 20)]"

definition demo_critical :: tr_state where
  "demo_critical = the (tr_run [0, 0, 1, 1] (tr_start demo_bal [(1, 2, 30), (3, 4, 20)]))"

text \<open>Thread 1 finds account 1 in use and spins until thread 0 is done.\<close>

definition demo_done :: tr_state where
  "demo_done = the (tr_run [0, 0, 1, 0, 0, 0, 1, 0, 0, 0, 1, 1, 1, 1, 1, 1, 1, 1] (tr_start demo_bal demo_transfers))"

lemma demo_critical_reachable: "tr_step\<^sup>*\<^sup>* (tr_start demo_bal [(1, 2, 30), (3, 4, 20)]) demo_critical"
  unfolding demo_critical_def by (rule tr_run_the) code_simp

lemma demo_done_reachable: "tr_step\<^sup>*\<^sup>* (tr_start demo_bal demo_transfers) demo_done"
  unfolding demo_done_def by (rule tr_run_the) code_simp



definition demo_self :: "(address \<times> address \<times> bigint) list" where
  "demo_self = [(1, 1, 5), (1, 2, 30), (1, 3, 20)]"

definition demo_self_sched :: "nat list" where
  "demo_self_sched = [0, 0, 0, 0, 0, 0, 0, 1, 1, 0, 2, 2, 1, 2, 1, 2, 1, 1, 1, 1, 2, 2, 2, 2]"

text \<open>
  C34: A transfer of an account to itself stores one entry but deletes it twice.  The second deletion
  can release the lock of another thread, and two threads then update the same account at once:
  an update is lost and coins appear from nothing.
\<close>

theorem transfer_self_lost_update:
  "\<exists>s. tr_step\<^sup>*\<^sup>* (tr_start demo_bal demo_self) s \<and> list_all (\<lambda>t. tr_pc t = TrDone) (tr_threads s) \<and>
     tr_bal s 1 = 80 \<and> transfers demo_self demo_bal 1 = 50"
proof -
  have "case tr_run demo_self_sched (tr_start demo_bal demo_self) of None \<Rightarrow> False
    | Some s \<Rightarrow> list_all (\<lambda>t. tr_pc t = TrDone) (tr_threads s) \<and> tr_bal s 1 = 80"
    by code_simp
  then obtain s where "tr_run demo_self_sched (tr_start demo_bal demo_self) = Some s"
    "list_all (\<lambda>t. tr_pc t = TrDone) (tr_threads s)" "tr_bal s 1 = 80" by (auto split: option.splits)
  moreover have "transfers demo_self demo_bal 1 = 50" by code_simp
  ultimately show ?thesis using tr_run_steps by blast
qed

end
