(* ===== verification/Tx_Set.thy ===== *)
theory Tx_Set
  imports Go_Heap Go_Threads Tx_Types
begin

text \<open>
  \<open>core/types/transaction.go\<close>: \<open>TransactionsByPriceAndNonce\<close>, the set of pending transactions from which the
  worker threads of the miner take.  Each sender has a slot with its next transaction
  (\<open>heads\<close>), a flag whether the slot is still in use (\<open>headsAvailable\<close>), the rest of its
  transactions in a lock-free hash map, and an entry in the \<open>sync.Map\<close> \<open>accountLock\<close> while a
  thread works on it.  The operations are given as functions for a caller that runs alone and as
  sequences of atomic actions.  The hash map is a package outside the repository: its
  operations are the fields of \<open>hashmap_ops\<close>, and \<open>hashmap_laws\<close> is what its documentation
  promises of them.  Keys are \<open>addr.String()\<close>, which is injective, so addresses stand for them.
  Recovery of a sender is the argument \<open>sender\<close>.
\<close>

subsection \<open>The hash map\<close>

record 'h hashmap_ops =
  hm_empty :: 'h
  hm_Insert :: "'h \<Rightarrow> address \<Rightarrow> transaction list \<Rightarrow> 'h"
  hm_Set :: "'h \<Rightarrow> address \<Rightarrow> transaction list \<Rightarrow> 'h"
  hm_Get :: "'h \<Rightarrow> address \<Rightarrow> transaction list option"
  hm_Iter :: "'h \<Rightarrow> address list"

text \<open>\<open>Insert\<close> keeps a value that is already there, \<open>Set\<close> replaces it.\<close>

definition hashmap_laws :: "'h hashmap_ops \<Rightarrow> bool" where
  "hashmap_laws H \<longleftrightarrow>
     (\<forall>k. hm_Get H (hm_empty H) k = None) \<and>
     (\<forall>m k v k'. hm_Get H (hm_Insert H m k v) k' = (if k' = k \<and> hm_Get H m k = None then Some v else hm_Get H m k')) \<and>
     (\<forall>m k v k'. hm_Get H (hm_Set H m k v) k' = (if k' = k then Some v else hm_Get H m k'))"

definition gomap_ops :: "(address, transaction list) gomap hashmap_ops" where
  "gomap_ops = \<lparr>hm_empty = [], hm_Insert = (\<lambda>m k v. if gm_get m k = None then gm_set k v m else m),
     hm_Set = (\<lambda>m k v. gm_set k v m), hm_Get = gm_get, hm_Iter = gm_keys\<rparr>"

lemma gomap_ops_laws: "hashmap_laws gomap_ops"
  by (auto simp: hashmap_laws_def gomap_ops_def gm_get_set)

subsection \<open>Alone\<close>

definition tx_price_less :: "transaction \<Rightarrow> transaction \<Rightarrow> bool" where
  "tx_price_less a b = (Cmp (Price a) (Price b) > 0)"

record 'h txSet =
  ts_txs :: 'h
  ts_heads :: "transaction option list"
  ts_lock :: "address list"
  ts_avail :: "bool list"
  ts_index :: "32 word"

text \<open>\<open>acc, _ := Sender(...)\<close> yields the zero address on an error.\<close>

definition sender_or_zero :: "(transaction \<Rightarrow> sig_error + address) \<Rightarrow> transaction \<Rightarrow> address" where
  "sender_or_zero sender tx = (case sender tx of Inr a \<Rightarrow> a | Inl _ \<Rightarrow> 0)"

text \<open>The loop of the constructor; an account with no transaction panics.\<close>

fun ts_collect ::
  "'h hashmap_ops \<Rightarrow> (transaction \<Rightarrow> sig_error + address) \<Rightarrow> (address \<times> transaction list) list \<Rightarrow>
   'h \<times> transaction list \<Rightarrow> ('h \<times> transaction list) option" where
  "ts_collect H sender [] acc = Some acc"
| "ts_collect H sender ((_, []) # rest) acc = None"
| "ts_collect H sender ((_, tx # txs) # rest) (m, heads) =
     ts_collect H sender rest (hm_Insert H m (sender_or_zero sender tx) txs, heads @ [tx])"

definition NewTransactionsByPriceAndNonce ::
  "'h hashmap_ops \<Rightarrow> (transaction \<Rightarrow> sig_error + address) \<Rightarrow> (address, transaction list) gomap \<Rightarrow> 'h txSet option" where
  "NewTransactionsByPriceAndNonce H sender txs =
     (case ts_collect H sender txs (hm_empty H, []) of
        None \<Rightarrow> None
      | Some (m, heads) \<Rightarrow>
          Some \<lparr>ts_txs = m, ts_heads = map Some (heap_init tx_price_less heads), ts_lock = [],
                ts_avail = replicate (length heads) True, ts_index = 0\<rparr>)"

datatype 'a go_result = Panic | Ret 'a

text \<open>
  The scan of \<open>Peek\<close> from slot \<open>index\<close> on, \<open>n\<close> iterations left.  A nil head of an available slot
  is a nil dereference in \<open>Sender\<close>.
\<close>

fun ts_peek_loop ::
  "(transaction \<Rightarrow> sig_error + address) \<Rightarrow> nat \<Rightarrow> nat \<Rightarrow> 'h txSet \<Rightarrow> ('h txSet \<times> transaction option) go_result" where
  "ts_peek_loop sender k 0 t = Ret (t, None)"
| "ts_peek_loop sender k (Suc n) t =
     (let len = length (ts_heads t); j = k mod len in
      if \<not> ts_avail t ! j then ts_peek_loop sender (k + 1) n t
      else case ts_heads t ! j of
             None \<Rightarrow> Panic
           | Some tx \<Rightarrow>
               (case sender tx of
                  Inl _ \<Rightarrow> Ret (t, None)
                | Inr a \<Rightarrow>
                    if a \<in> set (ts_lock t) then ts_peek_loop sender (k + 1) n t
                    else Ret (t\<lparr>ts_lock := a # ts_lock t, ts_index := ts_index t + 1\<rparr>, Some tx)))"

definition Peek ::
  "(transaction \<Rightarrow> sig_error + address) \<Rightarrow> 'h txSet \<Rightarrow> ('h txSet \<times> transaction option) go_result" where
  "Peek sender t = ts_peek_loop sender (unat (ts_index t)) (length (ts_heads t)) t"

fun ts_find_loop ::
  "(transaction \<Rightarrow> sig_error + address) \<Rightarrow> address \<Rightarrow> nat \<Rightarrow> transaction option list \<Rightarrow> bool list \<Rightarrow> nat option go_result" where
  "ts_find_loop sender a i [] av = Ret None"
| "ts_find_loop sender a i (h # hs) av =
     (if \<not> hd av then ts_find_loop sender a (i + 1) hs (tl av)
      else case h of
             None \<Rightarrow> Panic
           | Some tx \<Rightarrow> if sender_or_zero sender tx = a then Ret (Some i)
                        else ts_find_loop sender a (i + 1) hs (tl av))"

text \<open>\<open>None\<close> is the index -1 that comes with the error.\<close>

definition find_sender :: "(transaction \<Rightarrow> sig_error + address) \<Rightarrow> 'h txSet \<Rightarrow> address \<Rightarrow> nat option go_result" where
  "find_sender sender t a = ts_find_loop sender a 0 (ts_heads t) (ts_avail t)"

definition ts_Remove :: "(transaction \<Rightarrow> sig_error + address) \<Rightarrow> 'h txSet \<Rightarrow> address \<Rightarrow> 'h txSet go_result" where
  "ts_Remove sender t a =
     (case find_sender sender t a of
        Panic \<Rightarrow> Panic
      | Ret None \<Rightarrow> Panic
      | Ret (Some i) \<Rightarrow>
          Ret (if ts_avail t ! i
               then t\<lparr>ts_avail := (ts_avail t)[i := False], ts_heads := (ts_heads t)[i := None]\<rparr> else t))"

definition Shift ::
  "'h hashmap_ops \<Rightarrow> (transaction \<Rightarrow> sig_error + address) \<Rightarrow> 'h txSet \<Rightarrow> address \<Rightarrow> 'h txSet go_result" where
  "Shift H sender t a =
     (case find_sender sender t a of
        Panic \<Rightarrow> Panic
      | Ret ix \<Rightarrow>
          (case hm_Get H (ts_txs t) a of
             Some (tx # txs) \<Rightarrow>
               (case ix of
                  None \<Rightarrow> Panic
                | Some i \<Rightarrow> Ret (t\<lparr>ts_heads := (ts_heads t)[i := Some tx], ts_txs := hm_Set H (ts_txs t) a txs,
                                   ts_lock := removeAll a (ts_lock t)\<rparr>))
           | _ \<Rightarrow> ts_Remove sender t a))"

definition NumSenders :: "'h txSet \<Rightarrow> nat" where
  "NumSenders t = length (filter (\<lambda>a. a) (ts_avail t))"

definition NumTransactions :: "'h hashmap_ops \<Rightarrow> 'h txSet \<Rightarrow> nat" where
  "NumTransactions H t =
     fold (\<lambda>k cnt. cnt + length (case hm_Get H (ts_txs t) k of None \<Rightarrow> [] | Some l \<Rightarrow> l)) (hm_Iter H (ts_txs t)) 0"

subsection \<open>Interleaved\<close>

datatype find_for = ForShift | ForRemove

text \<open>The program points of a worker: idle, in \<open>Peek\<close>, with a transaction, in \<open>Shift\<close> or \<open>Remove\<close>.\<close>

datatype ts_pc =
    TsIdle
  | PkScan nat nat                         \<comment> \<open>loop head: slot counter, iterations left\<close>
  | PkSender nat nat                       \<comment> \<open>the slot was available: read its head\<close>
  | PkLoad nat nat address                 \<comment> \<open>\<open>accountLock.Load\<close>\<close>
  | PkStore nat nat address                \<comment> \<open>\<open>accountLock.LoadOrStore\<close>\<close>
  | PkIndex nat address                    \<comment> \<open>\<open>atomic.AddUint32(index, 1)\<close>\<close>
  | PkResult nat address                   \<comment> \<open>\<open>result = heads[...]\<close>\<close>
  | TsHave address "transaction option"    \<comment> \<open>the worker executes the transaction\<close>
  | FdRead find_for address nat            \<comment> \<open>\<open>find\<close>: read \<open>heads[i]\<close>\<close>
  | FdCheck find_for address nat "transaction option" \<comment> \<open>\<open>find\<close>: check \<open>headsAvailable[i]\<close> and the sender\<close>
  | ShGet address "nat option"             \<comment> \<open>\<open>txs.Get\<close>\<close>
  | ShHead address nat transaction "transaction list" \<comment> \<open>\<open>heads[index] = txs[0]\<close>\<close>
  | ShSet address "transaction list"       \<comment> \<open>\<open>txs.Set\<close>\<close>
  | ShUnlock address                       \<comment> \<open>\<open>accountLock.Delete\<close>\<close>
  | RmCas address "nat option"             \<comment> \<open>compare-and-swap of \<open>headsAvailable[index]\<close>\<close>
  | RmNil address nat                      \<comment> \<open>\<open>heads[index] = nil\<close>\<close>
  | TsPanic

definition found :: "find_for \<Rightarrow> address \<Rightarrow> nat option \<Rightarrow> ts_pc" where
  "found f a ix = (case f of ForShift \<Rightarrow> ShGet a ix | ForRemove \<Rightarrow> RmCas a ix)"

text \<open>The next action of a worker; \<open>shift\<close> is whether it calls \<open>Shift\<close> or \<open>Remove\<close> next.\<close>

definition ts_next ::
  "'h hashmap_ops \<Rightarrow> (transaction \<Rightarrow> sig_error + address) \<Rightarrow> bool \<Rightarrow> 'h txSet \<Rightarrow> ts_pc \<Rightarrow> 'h txSet \<times> ts_pc" where
  "ts_next H sender shift t pc =
     (let len = length (ts_heads t) in case pc of
        TsIdle \<Rightarrow> (t, PkScan (unat (ts_index t)) len)
      | PkScan k 0 \<Rightarrow> (t, TsIdle)
      | PkScan k (Suc n) \<Rightarrow> (t, if ts_avail t ! (k mod len) then PkSender k n else PkScan (k + 1) n)
      | PkSender k n \<Rightarrow>
          (t, case ts_heads t ! (k mod len) of
                None \<Rightarrow> TsPanic
              | Some tx \<Rightarrow> (case sender tx of Inl _ \<Rightarrow> TsIdle | Inr a \<Rightarrow> PkLoad k n a))
      | PkLoad k n a \<Rightarrow> (t, if a \<in> set (ts_lock t) then PkScan (k + 1) n else PkStore k n a)
      | PkStore k n a \<Rightarrow>
          if a \<in> set (ts_lock t) then (t, PkScan (k + 1) n)
          else (t\<lparr>ts_lock := a # ts_lock t\<rparr>, PkIndex (k mod len) a)
      | PkIndex k a \<Rightarrow> (t\<lparr>ts_index := ts_index t + 1\<rparr>, PkResult k a)
      | PkResult k a \<Rightarrow> (t, TsHave a (ts_heads t ! k))
      | TsHave a tx \<Rightarrow> (t, FdRead (if shift then ForShift else ForRemove) a 0)
      | FdRead f a i \<Rightarrow> (t, if i < len then FdCheck f a i (ts_heads t ! i) else found f a None)
      | FdCheck f a i h \<Rightarrow>
          (t, if \<not> ts_avail t ! i then FdRead f a (i + 1)
              else case h of
                     None \<Rightarrow> TsPanic
                   | Some tx \<Rightarrow> if sender_or_zero sender tx = a then found f a (Some i) else FdRead f a (i + 1))
      | ShGet a ix \<Rightarrow>
          (t, case hm_Get H (ts_txs t) a of
                Some (tx # txs) \<Rightarrow> (case ix of None \<Rightarrow> TsPanic | Some i \<Rightarrow> ShHead a i tx txs)
              | _ \<Rightarrow> FdRead ForRemove a 0)
      | ShHead a i tx txs \<Rightarrow> (t\<lparr>ts_heads := (ts_heads t)[i := Some tx]\<rparr>, ShSet a txs)
      | ShSet a txs \<Rightarrow> (t\<lparr>ts_txs := hm_Set H (ts_txs t) a txs\<rparr>, ShUnlock a)
      | ShUnlock a \<Rightarrow> (t\<lparr>ts_lock := removeAll a (ts_lock t)\<rparr>, TsIdle)
      | RmCas a ix \<Rightarrow>
          (case ix of
             None \<Rightarrow> (t, TsPanic)
           | Some i \<Rightarrow> if ts_avail t ! i then (t\<lparr>ts_avail := (ts_avail t)[i := False]\<rparr>, RmNil a i) else (t, TsIdle))
      | RmNil a i \<Rightarrow> (t\<lparr>ts_heads := (ts_heads t)[i := None]\<rparr>, TsIdle)
      | TsPanic \<Rightarrow> (t, TsPanic))"

text \<open>The log of the transactions handed out, in order, is kept beside the state.\<close>

record 'h ts_world =
  ts_set :: "'h txSet"
  ts_pcs :: "ts_pc list"
  ts_log :: "transaction list"

fun handed_out :: "ts_pc \<Rightarrow> ts_pc \<Rightarrow> transaction list" where
  "handed_out (PkResult k a) (TsHave b h) = (case h of None \<Rightarrow> [] | Some tx \<Rightarrow> [tx])"
| "handed_out _ _ = []"

inductive ts_step ::
  "'h hashmap_ops \<Rightarrow> (transaction \<Rightarrow> sig_error + address) \<Rightarrow> 'h ts_world \<Rightarrow> 'h ts_world \<Rightarrow> bool"
  for H sender where
  "i < length (ts_pcs w) \<Longrightarrow> ts_next H sender shift (ts_set w) (ts_pcs w ! i) = (t, pc) \<Longrightarrow>
   ts_step H sender w \<lparr>ts_set = t, ts_pcs = (ts_pcs w)[i := pc], ts_log = ts_log w @ handed_out (ts_pcs w ! i) pc\<rparr>"

inductive_cases ts_stepE: "ts_step H sender w w'"

definition ts_world0 :: "'h txSet \<Rightarrow> nat \<Rightarrow> 'h ts_world" where
  "ts_world0 t n = \<lparr>ts_set = t, ts_pcs = replicate n TsIdle, ts_log = []\<rparr>"

subsection \<open>A worker that runs alone\<close>

definition alone ::
  "'h hashmap_ops \<Rightarrow> (transaction \<Rightarrow> sig_error + address) \<Rightarrow> bool \<Rightarrow> 'h txSet \<times> ts_pc \<Rightarrow> 'h txSet \<times> ts_pc \<Rightarrow> bool" where
  "alone H sender shift s s' \<longleftrightarrow> s' = ts_next H sender shift (fst s) (snd s)"

lemma alone_step:
  "(alone H sender shift)\<^sup>*\<^sup>* (ts_next H sender shift t pc) s \<Longrightarrow> (alone H sender shift)\<^sup>*\<^sup>* (t, pc) s"
  by (rule converse_rtranclp_into_rtranclp[rotated]) (simp_all add: alone_def)

lemma alone_stepI:
  "ts_next H sender shift t pc = s' \<Longrightarrow> (alone H sender shift)\<^sup>*\<^sup>* s' s \<Longrightarrow> (alone H sender shift)\<^sup>*\<^sup>* (t, pc) s"
  using alone_step by metis

lemma alone_done: "ts_next H sender shift t pc = s \<Longrightarrow> (alone H sender shift)\<^sup>*\<^sup>* (t, pc) s"
  by (rule alone_stepI) auto

text \<open>Where a worker is when \<open>Peek\<close> has returned.\<close>

definition peeked :: "(transaction \<Rightarrow> sig_error + address) \<Rightarrow> 'h txSet \<Rightarrow> ('h txSet \<times> transaction option) go_result \<Rightarrow> 'h txSet \<times> ts_pc" where
  "peeked sender t r = (case r of Panic \<Rightarrow> (t, TsPanic) | Ret (t', None) \<Rightarrow> (t', TsIdle)
     | Ret (t', Some tx) \<Rightarrow> (t', TsHave (sender_or_zero sender tx) (Some tx)))"

lemma alone_peek_loop:
  "(alone H sender shift)\<^sup>*\<^sup>* (t, PkScan k n) (peeked sender t (ts_peek_loop sender k n t))"
proof (induction n arbitrary: k)
  case 0
  show ?case by (rule alone_done) (simp add: ts_next_def peeked_def)
next
  case (Suc n)
  let ?j = "k mod length (ts_heads t)"
  note scan = alone_stepI[of H sender shift t "PkScan k (Suc n)"]
  show ?case
  proof (cases "ts_avail t ! ?j")
    case False
    then show ?thesis using Suc by (intro scan) (auto simp: ts_next_def Let_def)
  next
    case av: True
    have "(alone H sender shift)\<^sup>*\<^sup>* (t, PkSender k n) (peeked sender t (ts_peek_loop sender k (Suc n) t))"
    proof (cases "ts_heads t ! ?j")
      case None
      then show ?thesis using av by (intro alone_done) (simp add: ts_next_def Let_def peeked_def)
    next
      case head: (Some tx)
      show ?thesis
      proof (cases "sender tx")
        case (Inl e)
        then show ?thesis using av head by (intro alone_done) (simp add: ts_next_def Let_def peeked_def)
      next
        case (Inr a)
        let ?goal = "peeked sender t (ts_peek_loop sender k (Suc n) t)"
        have "(alone H sender shift)\<^sup>*\<^sup>* (t, PkLoad k n a) ?goal"
        proof (cases "a \<in> set (ts_lock t)")
          case True
          then show ?thesis using av head Inr Suc by (intro alone_stepI[OF refl]) (simp add: ts_next_def Let_def)
        next
          case False
          let ?t1 = "t\<lparr>ts_lock := a # ts_lock t\<rparr>" and ?t2 = "t\<lparr>ts_lock := a # ts_lock t, ts_index := ts_index t + 1\<rparr>"
          have g: "?goal = (?t2, TsHave a (Some tx))"
            using av head Inr False by (simp add: peeked_def Let_def sender_or_zero_def)
          have "(alone H sender shift)\<^sup>*\<^sup>* (?t2, PkResult ?j a) (?t2, TsHave a (Some tx))"
            by (rule alone_done) (simp add: ts_next_def Let_def head)
          then have "(alone H sender shift)\<^sup>*\<^sup>* (?t1, PkIndex ?j a) (?t2, TsHave a (Some tx))"
            by (intro alone_stepI[OF refl]) (simp add: ts_next_def Let_def)
          then have "(alone H sender shift)\<^sup>*\<^sup>* (t, PkStore k n a) (?t2, TsHave a (Some tx))"
            using False by (intro alone_stepI[OF refl]) (simp add: ts_next_def Let_def)
          then show ?thesis unfolding g using False by (intro alone_stepI[OF refl]) (simp add: ts_next_def Let_def)
        qed
        then show ?thesis using head Inr by (intro alone_stepI[OF refl]) (simp add: ts_next_def Let_def)
      qed
    qed
    then show ?thesis using av by (intro scan) (auto simp: ts_next_def Let_def)
  qed
qed

lemma alone_find:
  assumes "length (ts_avail t) = length (ts_heads t)" and "i \<le> length (ts_heads t)"
  shows "(alone H sender shift)\<^sup>*\<^sup>* (t, FdRead f a i)
     (t, case ts_find_loop sender a i (drop i (ts_heads t)) (drop i (ts_avail t)) of Panic \<Rightarrow> TsPanic | Ret ix \<Rightarrow> found f a ix)"
  using assms(2)
proof (induction "length (ts_heads t) - i" arbitrary: i)
  case 0
  then show ?case by (intro alone_done) (simp add: ts_next_def Let_def)
next
  case (Suc d)
  then have i: "i < length (ts_heads t)" by simp
  let ?h = "ts_heads t ! i"
  have hd: "drop i (ts_heads t) = ?h # drop (Suc i) (ts_heads t)" "drop i (ts_avail t) = ts_avail t ! i # drop (Suc i) (ts_avail t)"
    using i assms(1) by (simp_all add: Cons_nth_drop_Suc)
  have IH: "(alone H sender shift)\<^sup>*\<^sup>* (t, FdRead f a (Suc i))
     (t, case ts_find_loop sender a (Suc i) (drop (Suc i) (ts_heads t)) (drop (Suc i) (ts_avail t)) of Panic \<Rightarrow> TsPanic | Ret ix \<Rightarrow> found f a ix)"
    using Suc i by simp
  let ?goal = "(t, case ts_find_loop sender a i (drop i (ts_heads t)) (drop i (ts_avail t)) of Panic \<Rightarrow> TsPanic | Ret ix \<Rightarrow> found f a ix)"
  have "(alone H sender shift)\<^sup>*\<^sup>* (t, FdCheck f a i ?h) ?goal"
  proof (cases "ts_avail t ! i \<and> (?h = None \<or> sender_or_zero sender (the ?h) = a)")
    case True
    then show ?thesis by (intro alone_done) (auto simp: ts_next_def Let_def hd split: option.splits)
  next
    case False
    then have "?goal = (t, case ts_find_loop sender a (Suc i) (drop (Suc i) (ts_heads t)) (drop (Suc i) (ts_avail t)) of Panic \<Rightarrow> TsPanic | Ret ix \<Rightarrow> found f a ix)"
      by (auto simp: hd split: option.splits)
    moreover have "ts_next H sender shift t (FdCheck f a i ?h) = (t, FdRead f a (Suc i))"
      using False by (auto simp: ts_next_def Let_def split: option.splits)
    ultimately show ?thesis using alone_stepI[of H sender shift t "FdCheck f a i ?h"] IH by simp
  qed
  then show ?case using i by (intro alone_stepI[of H sender shift t "FdRead f a i"]) (simp_all add: ts_next_def Let_def)
qed

definition returned :: "'h txSet \<Rightarrow> 'h txSet go_result \<Rightarrow> 'h txSet \<times> ts_pc" where
  "returned t r = (case r of Panic \<Rightarrow> (t, TsPanic) | Ret t' \<Rightarrow> (t', TsIdle))"

lemma alone_find_then:
  assumes "length (ts_avail t) = length (ts_heads t)"
    and "find_sender sender t a = Panic \<Longrightarrow> g = (t, TsPanic)"
    and "\<And>ix. find_sender sender t a = Ret ix \<Longrightarrow> (alone H sender shift)\<^sup>*\<^sup>* (t, found f a ix) g"
  shows "(alone H sender shift)\<^sup>*\<^sup>* (t, FdRead f a 0) g"
  using alone_find[OF assms(1), of 0 H sender shift f a] assms(2,3)
  by (cases "find_sender sender t a") (auto simp: find_sender_def intro: rtranclp_trans)

lemma alone_Remove:
  assumes "length (ts_avail t) = length (ts_heads t)"
  shows "(alone H sender shift)\<^sup>*\<^sup>* (t, FdRead ForRemove a 0) (returned t (ts_Remove sender t a))"
proof (rule alone_find_then[OF assms])
  show "find_sender sender t a = Panic \<Longrightarrow> returned t (ts_Remove sender t a) = (t, TsPanic)"
    by (simp add: returned_def ts_Remove_def)
  fix ix assume ix: "find_sender sender t a = Ret ix"
  show "(alone H sender shift)\<^sup>*\<^sup>* (t, found ForRemove a ix) (returned t (ts_Remove sender t a))"
  proof (cases "ix = None \<or> \<not> ts_avail t ! the ix")
    case True
    then show ?thesis using ix
      by (intro alone_done[of H sender shift t "found ForRemove a ix"]) (auto simp: ts_next_def found_def Let_def returned_def ts_Remove_def split: option.splits)
  next
    case False
    then obtain i where i: "ix = Some i" "ts_avail t ! i" by auto
    let ?t1 = "t\<lparr>ts_avail := (ts_avail t)[i := False]\<rparr>"
    have "(alone H sender shift)\<^sup>*\<^sup>* (?t1, RmNil a i) (returned t (ts_Remove sender t a))"
      using i ix by (intro alone_done) (simp add: ts_next_def Let_def returned_def ts_Remove_def)
    then show ?thesis using i
      by (intro alone_stepI[of H sender shift t "found ForRemove a ix"]) (simp_all add: ts_next_def found_def Let_def)
  qed
qed

lemma alone_Shift:
  assumes "length (ts_avail t) = length (ts_heads t)"
  shows "(alone H sender shift)\<^sup>*\<^sup>* (t, FdRead ForShift a 0) (returned t (Shift H sender t a))"
proof (rule alone_find_then[OF assms])
  show "find_sender sender t a = Panic \<Longrightarrow> returned t (Shift H sender t a) = (t, TsPanic)"
    by (simp add: returned_def Shift_def)
  fix ix assume ix: "find_sender sender t a = Ret ix"
  let ?g = "returned t (Shift H sender t a)"
  have get: "(alone H sender shift)\<^sup>*\<^sup>* (t, ShGet a ix) ?g"
  proof (cases "hm_Get H (ts_txs t) a = None \<or> hm_Get H (ts_txs t) a = Some []")
    case True
    then have "?g = returned t (ts_Remove sender t a)" using ix by (auto simp: Shift_def)
    moreover have "ts_next H sender shift t (ShGet a ix) = (t, FdRead ForRemove a 0)"
      using True by (auto simp: ts_next_def Let_def)
    ultimately show ?thesis using alone_Remove[OF assms] alone_stepI by metis
  next
    case False
    then obtain tx txs where l: "hm_Get H (ts_txs t) a = Some (tx # txs)" by (metis list.exhaust option.exhaust)
    show ?thesis
    proof (cases ix)
      case None
      then show ?thesis using l ix by (intro alone_done) (simp add: ts_next_def Let_def returned_def Shift_def)
    next
      case (Some i)
      let ?t1 = "t\<lparr>ts_heads := (ts_heads t)[i := Some tx]\<rparr>"
      let ?t2 = "?t1\<lparr>ts_txs := hm_Set H (ts_txs t) a txs\<rparr>"
      have "(alone H sender shift)\<^sup>*\<^sup>* (?t2, ShUnlock a) ?g"
        using l ix Some by (intro alone_done) (simp add: ts_next_def Let_def returned_def Shift_def)
      then have "(alone H sender shift)\<^sup>*\<^sup>* (?t1, ShSet a txs) ?g"
        by (intro alone_stepI[of H sender shift ?t1]) (simp_all add: ts_next_def Let_def)
      then have "(alone H sender shift)\<^sup>*\<^sup>* (t, ShHead a i tx txs) ?g"
        by (intro alone_stepI[of H sender shift t]) (simp_all add: ts_next_def Let_def)
      then show ?thesis using l Some
        by (intro alone_stepI[of H sender shift t "ShGet a ix"]) (simp_all add: ts_next_def Let_def)
    qed
  qed
  then show "(alone H sender shift)\<^sup>*\<^sup>* (t, found ForShift a ix) ?g" by (simp add: found_def)
qed

end
