(* ===== verification/Tx_Set_Workers.thy ===== *)
theory Tx_Set_Workers
  imports Tx_Set
begin

text \<open>
  The workers on a \<open>TransactionsByPriceAndNonce\<close>: what holds in every state that any interleaving of
  their atomic actions can reach from a freshly constructed set.  One worker per sender,
  transactions of a sender in nonce order, and which call can panic.
\<close>

subsection \<open>What a worker owns\<close>

text \<open>The account a worker has locked, and whether it has already taken the head of the account.\<close>

fun pc_holds :: "ts_pc \<Rightarrow> address option" where
  "pc_holds (PkIndex k a) = Some a"
| "pc_holds (PkResult k a) = Some a"
| "pc_holds (TsHave a h) = Some a"
| "pc_holds (FdRead f a i) = Some a"
| "pc_holds (FdCheck f a i h) = Some a"
| "pc_holds (ShGet a ix) = Some a"
| "pc_holds (ShHead a i tx txs) = Some a"
| "pc_holds (ShSet a txs) = Some a"
| "pc_holds (ShUnlock a) = Some a"
| "pc_holds (RmCas a ix) = Some a"
| "pc_holds (RmNil a i) = Some a"
| "pc_holds _ = None"

fun pc_taken :: "ts_pc \<Rightarrow> bool" where
  "pc_taken (PkIndex k a) = False"
| "pc_taken (PkResult k a) = False"
| "pc_taken (ShUnlock a) = False"
| "pc_taken pc = (pc_holds pc \<noteq> None)"

text \<open>
  \<open>own k\<close> is the sender whose transactions slot \<open>k\<close> carries.  An available slot has a head of that
  sender; a slot that is no longer available stays locked for good.
\<close>

definition slot_inv ::
  "'h hashmap_ops \<Rightarrow> (transaction \<Rightarrow> sig_error + address) \<Rightarrow> (nat \<Rightarrow> address) \<Rightarrow> 'h txSet \<Rightarrow> nat \<Rightarrow> bool" where
  "slot_inv H sender own t k \<longleftrightarrow>
     (\<forall>tx. ts_heads t ! k = Some tx \<longrightarrow> sender tx = Inr (own k)) \<and>
     (ts_avail t ! k \<longrightarrow> ts_heads t ! k \<noteq> None) \<and>
     (\<not> ts_avail t ! k \<longrightarrow> own k \<in> set (ts_lock t)) \<and>
     (\<exists>l. hm_Get H (ts_txs t) (own k) = Some l \<and> (\<forall>tx \<in> set l. sender tx = Inr (own k)))"

text \<open>What a worker knows at each program point; \<open>n\<close> is the number of slots.\<close>

fun pc_inv ::
  "'h hashmap_ops \<Rightarrow> (transaction \<Rightarrow> sig_error + address) \<Rightarrow> (nat \<Rightarrow> address) \<Rightarrow> nat \<Rightarrow> 'h txSet \<Rightarrow> ts_pc \<Rightarrow> bool" where
  "pc_inv H sender own n t (PkScan k m) = (m \<le> n)"
| "pc_inv H sender own n t (PkSender k m) = (m < n)"
| "pc_inv H sender own n t (PkLoad k m a) = (m < n \<and> a = own (k mod n))"
| "pc_inv H sender own n t (PkStore k m a) = (m < n \<and> a = own (k mod n))"
| "pc_inv H sender own n t (PkIndex k a) = (k < n \<and> a = own k \<and> ts_avail t ! k)"
| "pc_inv H sender own n t (PkResult k a) = (k < n \<and> a = own k \<and> ts_avail t ! k)"
| "pc_inv H sender own n t (TsHave a h) = (\<exists>k < n. a = own k \<and> ts_avail t ! k \<and> h \<noteq> None)"
| "pc_inv H sender own n t (FdRead f a i) = (\<exists>k < n. a = own k \<and> ts_avail t ! k \<and> i \<le> k)"
| "pc_inv H sender own n t (FdCheck f a i h) =
     ((\<exists>k < n. a = own k \<and> ts_avail t ! k \<and> i \<le> k) \<and>
      (case h of None \<Rightarrow> \<not> ts_avail t ! i | Some tx \<Rightarrow> sender tx = Inr (own i)))"
| "pc_inv H sender own n t (ShGet a ix) = (\<exists>k < n. a = own k \<and> ts_avail t ! k \<and> ix = Some k)"
| "pc_inv H sender own n t (ShHead a i tx txs) =
     (i < n \<and> a = own i \<and> ts_avail t ! i \<and> hm_Get H (ts_txs t) a = Some (tx # txs))"
| "pc_inv H sender own n t (ShSet a txs) =
     (\<exists>k < n. a = own k \<and> ts_avail t ! k \<and>
        (\<exists>tx. ts_heads t ! k = Some tx \<and> hm_Get H (ts_txs t) a = Some (tx # txs)))"
| "pc_inv H sender own n t (ShUnlock a) = (\<exists>k < n. a = own k \<and> ts_avail t ! k)"
| "pc_inv H sender own n t (RmCas a ix) = (\<exists>k < n. a = own k \<and> ts_avail t ! k \<and> ix = Some k)"
| "pc_inv H sender own n t (RmNil a i) = (i < n \<and> a = own i \<and> \<not> ts_avail t ! i)"
| "pc_inv H sender own n t _ = True"

definition set_inv ::
  "'h hashmap_ops \<Rightarrow> (transaction \<Rightarrow> sig_error + address) \<Rightarrow> (nat \<Rightarrow> address) \<Rightarrow> nat \<Rightarrow> 'h txSet \<Rightarrow> bool" where
  "set_inv H sender own n t \<longleftrightarrow>
     length (ts_heads t) = n \<and> length (ts_avail t) = n \<and> inj_on own {..<n} \<and> (\<forall>k < n. slot_inv H sender own t k)"

text \<open>Nothing changed but what belongs to account \<open>a\<close>; no slot became available again.\<close>

definition only_touches ::
  "'h hashmap_ops \<Rightarrow> (nat \<Rightarrow> address) \<Rightarrow> nat \<Rightarrow> address option \<Rightarrow> 'h txSet \<Rightarrow> 'h txSet \<Rightarrow> bool" where
  "only_touches H own n a t t' \<longleftrightarrow>
     (\<forall>k < n. ts_avail t' ! k \<longrightarrow> ts_avail t ! k) \<and>
     (\<forall>k < n. Some (own k) \<noteq> a \<longrightarrow> ts_heads t' ! k = ts_heads t ! k \<and> ts_avail t' ! k = ts_avail t ! k \<and>
        hm_Get H (ts_txs t') (own k) = hm_Get H (ts_txs t) (own k)) \<and>
     (\<forall>b. Some b \<noteq> a \<longrightarrow> b \<in> set (ts_lock t') \<longleftrightarrow> b \<in> set (ts_lock t))"

text \<open>The account an action works on: the one held before or after it.\<close>

definition pc_account :: "ts_pc \<Rightarrow> ts_pc \<Rightarrow> address option" where
  "pc_account pc pc' = (case pc_holds pc of None \<Rightarrow> pc_holds pc' | Some a \<Rightarrow> Some a)"

lemma pc_inv_frame:
  assumes "pc_inv H sender own n t pc" and "only_touches H own n a t t'"
    and "pc_holds pc \<noteq> a \<or> a = None" and "inj_on own {..<n}"
  shows "pc_inv H sender own n t' pc"
proof -
  have keep: "ts_avail t' ! k = ts_avail t ! k \<and> ts_heads t' ! k = ts_heads t ! k \<and>
      hm_Get H (ts_txs t') (own k) = hm_Get H (ts_txs t) (own k)"
    if "k < n" "pc_holds pc = Some (own k)" for k
  proof -
    have "Some (own k) \<noteq> a" using assms(3) that(2) by auto
    then show ?thesis
      using assms(2)[unfolded only_touches_def, THEN conjunct2, THEN conjunct1] that(1) by blast
  qed
  have mono: "\<not> ts_avail t' ! k" if "k < n" "\<not> ts_avail t ! k" for k
    using assms(2) that unfolding only_touches_def by blast
  show ?thesis
  proof (cases pc)
    case (FdCheck f b i h)
    then obtain k where "k < n" "b = own k" "ts_avail t ! k" "i \<le> k" using assms(1) by auto
    then show ?thesis using assms(1) FdCheck keep[of k] mono[of i] by (auto split: option.splits)
  next
    case (PkIndex k b) then show ?thesis using assms(1) keep[of k] by simp
  next
    case (PkResult k b) then show ?thesis using assms(1) keep[of k] by simp
  next
    case (TsHave b h) then show ?thesis using assms(1) keep by auto
  next
    case (FdRead f b i) then show ?thesis using assms(1) keep by auto
  next
    case (ShGet b ix) then show ?thesis using assms(1) keep by auto
  next
    case (ShHead b i tx txs) then show ?thesis using assms(1) keep[of i] by auto
  next
    case (ShSet b txs) then show ?thesis using assms(1) keep by auto
  next
    case (ShUnlock b) then show ?thesis using assms(1) keep by auto
  next
    case (RmCas b ix) then show ?thesis using assms(1) keep by auto
  next
    case (RmNil b i) then show ?thesis using assms(1) keep[of i] by simp
  qed (use assms(1) in simp_all)
qed

subsection \<open>One action\<close>

lemmas ts_next_cases = ts_next_def Let_def found_def pc_account_def

text \<open>What an action does to the locks.\<close>

lemma ts_next_locks:
  assumes "ts_next H sender shift t pc = (t', pc')" and "\<And>a. pc_holds pc = Some a \<Longrightarrow> a \<in> set (ts_lock t)"
  shows "pc_holds pc' = Some a \<Longrightarrow> a \<in> set (ts_lock t')"
    and "pc_holds pc = None \<Longrightarrow> pc_holds pc' = Some a \<Longrightarrow> a \<notin> set (ts_lock t)"
    and "pc_holds pc = Some b \<Longrightarrow> pc_holds pc' = Some a \<Longrightarrow> a = b"
    and "Some b \<noteq> pc_account pc pc' \<Longrightarrow> b \<in> set (ts_lock t') \<longleftrightarrow> b \<in> set (ts_lock t)"
  using assms
  by (cases pc; auto simp: ts_next_cases split: if_splits option.splits list.splits sum.splits find_for.splits nat.splits)+

lemma inj_own: "inj_on own {..<n} \<Longrightarrow> k < n \<Longrightarrow> j < n \<Longrightarrow> own k = own j \<longleftrightarrow> k = (j :: nat)"
  by (auto simp: inj_on_def)

lemma ts_next_lengths:
  "ts_next H sender shift t pc = (t', pc') \<Longrightarrow> length (ts_heads t') = length (ts_heads t) \<and> length (ts_avail t') = length (ts_avail t)"
  by (cases pc) (auto simp: ts_next_cases split: if_splits option.splits list.splits nat.splits)

lemma hashmap_Set:
  "hashmap_laws H \<Longrightarrow> hm_Get H (hm_Set H m k v) k' = (if k' = k then Some v else hm_Get H m k')"
  by (simp add: hashmap_laws_def)

text \<open>An action changes at most one of: the locks and the index, one head, one flag, one entry of the map.\<close>

lemma ts_next_touches:
  assumes step: "ts_next H sender shift t pc = (t', pc')" and laws: "hashmap_laws H"
    and inv: "set_inv H sender own n t" and pc: "pc_inv H sender own n t pc"
    and held: "\<And>a. pc_holds pc = Some a \<Longrightarrow> a \<in> set (ts_lock t)"
  shows "only_touches H own n (pc_account pc pc') t t'"
proof -
  have len: "length (ts_heads t) = n" "length (ts_avail t) = n" using inv by (auto simp: set_inv_def)
  have locks: "\<forall>b. Some b \<noteq> pc_account pc pc' \<longrightarrow> b \<in> set (ts_lock t') \<longleftrightarrow> b \<in> set (ts_lock t)"
    using ts_next_locks(4)[OF step held] by blast
  consider (head) a i tx txs where "pc = ShHead a i tx txs" | (nil) a i where "pc = RmNil a i"
    | (avail) a i where "pc = RmCas a (Some i)" | (entry) a txs where "pc = ShSet a txs"
    | (same) "ts_heads t' = ts_heads t" "ts_avail t' = ts_avail t" "ts_txs t' = ts_txs t"
    using step by (cases pc; auto simp: ts_next_cases split: if_splits option.splits nat.splits)
  then show ?thesis
  proof cases
    case head then show ?thesis using step pc locks len by (auto simp: only_touches_def ts_next_cases nth_list_update)
  next
    case nil then show ?thesis using step pc locks len by (auto simp: only_touches_def ts_next_cases nth_list_update)
  next
    case avail then show ?thesis using step pc locks len
      by (auto simp: only_touches_def ts_next_cases nth_list_update split: if_splits)
  next
    case entry then show ?thesis using step pc locks laws by (auto simp: only_touches_def ts_next_cases hashmap_Set)
  next
    case same then show ?thesis using locks by (simp add: only_touches_def)
  qed
qed

lemma slot_inv_frame:
  assumes "slot_inv H sender own t k" and "only_touches H own n a t t'" and "k < n" and "Some (own k) \<noteq> a"
  shows "slot_inv H sender own t' k"
  using assms unfolding slot_inv_def only_touches_def by metis

text \<open>The slot of the account that the action works on.\<close>

lemma ts_next_slot:
  assumes step: "ts_next H sender shift t pc = (t', pc')" and laws: "hashmap_laws H"
    and inv: "set_inv H sender own n t" and pc: "pc_inv H sender own n t pc"
    and held: "\<And>a. pc_holds pc = Some a \<Longrightarrow> a \<in> set (ts_lock t)"
    and k: "k < n" and acc: "pc_account pc pc' = Some (own k)"
  shows "slot_inv H sender own t' k"
proof -
  have len: "length (ts_heads t) = n" "length (ts_avail t) = n" and inj: "inj_on own {..<n}"
    and slot: "slot_inv H sender own t k" using inv k by (auto simp: set_inv_def)
  note eq = inj_own[OF inj]
  show ?thesis
  proof (cases pc)
    case (PkStore j m a)
    then show ?thesis using step slot by (auto simp: ts_next_cases slot_inv_def split: if_splits)
  next
    case (PkIndex j a)
    then show ?thesis using step slot by (auto simp: ts_next_cases slot_inv_def)
  next
    case (ShHead a i tx txs)
    then have "i = k" using pc acc eq k by (auto simp: pc_account_def)
    then show ?thesis using ShHead step slot pc len k by (auto simp: ts_next_cases slot_inv_def)
  next
    case (ShSet a txs)
    then have "a = own k" using acc by (auto simp: pc_account_def)
    then obtain tx where "hm_Get H (ts_txs t) a = Some (tx # txs)" using pc ShSet by auto
    then show ?thesis using ShSet step slot laws \<open>a = own k\<close> by (auto simp: ts_next_cases slot_inv_def hashmap_Set)
  next
    case (ShUnlock a)
    then have "a = own k" using acc by (auto simp: pc_account_def)
    then have "ts_avail t ! k" using pc ShUnlock eq k by auto
    then show ?thesis using ShUnlock step slot by (auto simp: ts_next_cases slot_inv_def)
  next
    case (RmCas a ix)
    then obtain i where i: "ix = Some i" "i < n" "a = own i" "ts_avail t ! i" using pc by auto
    then have "i = k" using RmCas acc eq k by (auto simp: pc_account_def)
    moreover have "own k \<in> set (ts_lock t)" using held RmCas i \<open>i = k\<close> by auto
    ultimately show ?thesis using RmCas i step slot len k by (auto simp: ts_next_cases slot_inv_def)
  next
    case (RmNil a i)
    then have "i = k" using pc acc eq k by (auto simp: pc_account_def)
    then show ?thesis using RmNil step slot pc len k by (auto simp: ts_next_cases slot_inv_def)
  qed (use step slot in \<open>auto simp: ts_next_cases split: if_splits option.splits nat.splits\<close>)
qed

lemma ts_next_set_inv:
  assumes "ts_next H sender shift t pc = (t', pc')" and "hashmap_laws H"
    and inv: "set_inv H sender own n t" and "pc_inv H sender own n t pc"
    and "\<And>a. pc_holds pc = Some a \<Longrightarrow> a \<in> set (ts_lock t)"
  shows "set_inv H sender own n t'"
proof -
  have "slot_inv H sender own t' k" if k: "k < n" for k
  proof (cases "pc_account pc pc' = Some (own k)")
    case True
    then show ?thesis using ts_next_slot[OF assms k] by blast
  next
    case False
    then show ?thesis
      using slot_inv_frame[OF _ ts_next_touches[OF assms] k] inv k by (auto simp: set_inv_def)
  qed
  then show ?thesis using inv ts_next_lengths[OF assms(1)] by (auto simp: set_inv_def)
qed

text \<open>
  The knowledge of the worker after its action.  The search of \<open>find\<close> reads a head before its flag,
  so it never meets a nil head behind a set flag, and it reaches the slot of its own account.
\<close>

lemma ts_next_pc_inv:
  assumes step: "ts_next H sender shift t pc = (t', pc')" and laws: "hashmap_laws H"
    and inv: "set_inv H sender own n t" and pc: "pc_inv H sender own n t pc"
  shows "pc_inv H sender own n t' pc'" and "pc' = TsPanic \<Longrightarrow> pc = TsPanic \<or> (\<exists>k m. pc = PkSender k m)"
proof -
  have len: "length (ts_heads t) = n" "length (ts_avail t) = n" and inj: "inj_on own {..<n}"
    and slot: "\<And>k. k < n \<Longrightarrow> slot_inv H sender own t k" using inv by (auto simp: set_inv_def)
  note eq = inj_own[OF inj]
  have "pc_inv H sender own n t' pc' \<and> (pc' = TsPanic \<longrightarrow> pc = TsPanic \<or> (\<exists>k m. pc = PkSender k m))"
  proof (cases pc)
    case (PkScan k m)
    then show ?thesis using step pc by (auto simp: ts_next_cases split: nat.splits if_splits)
  next
    case (PkSender k m)
    then have "k mod n < n" using pc by simp
    from slot[OF this] show ?thesis using PkSender step pc len
      by (auto simp: ts_next_cases slot_inv_def split: option.splits sum.splits)
  next
    case (PkStore k m a)
    then have km: "k mod n < n" using pc by simp
    from slot[OF km] show ?thesis using PkStore step pc len
      by (auto simp: ts_next_cases slot_inv_def simp del: length_greater_0_conv split: if_splits)
  next
    case (PkResult k a)
    then show ?thesis using step pc slot[of k] by (auto simp: ts_next_cases slot_inv_def)
  next
    case (FdRead f a i)
    then obtain k where k: "k < n" "a = own k" "ts_avail t ! k" "i \<le> k" using pc by auto
    have "slot_inv H sender own t i" using slot k by simp
    then show ?thesis using FdRead step k len by (auto simp: ts_next_cases slot_inv_def split: option.splits)
  next
    case (FdCheck f a i h)
    then obtain k where k: "k < n" "a = own k" "ts_avail t ! k" "i \<le> k" using pc by auto
    have i: "i < n" using k by simp
    have own: "own i = own k \<longleftrightarrow> i = k" using eq i k by simp
    show ?thesis
    proof (cases "ts_avail t ! i")
      case True
      then obtain tx where "h = Some tx" "sender tx = Inr (own i)" using pc FdCheck by (auto split: option.splits)
      then show ?thesis using FdCheck step k own True
        by (cases f) (auto simp: ts_next_cases sender_or_zero_def split: if_splits intro!: exI[of _ k])
    next
      case False
      then have "i \<noteq> k" using k by auto
      then show ?thesis using FdCheck step k False by (auto simp: ts_next_cases intro!: exI[of _ k])
    qed
  next
    case (ShGet a ix)
    then show ?thesis using step pc slot by (auto simp: ts_next_cases split: option.splits list.splits)
  next
    case (ShHead a i tx txs)
    then show ?thesis using step pc len by (auto simp: ts_next_cases intro!: exI[of _ i])
  next
    case (RmCas a ix)
    then show ?thesis using step pc len by (auto simp: ts_next_cases split: if_splits)
  qed (use step pc len in \<open>auto simp: ts_next_cases split: if_splits\<close>)
  then show "pc_inv H sender own n t' pc'" and "pc' = TsPanic \<Longrightarrow> pc = TsPanic \<or> (\<exists>k m. pc = PkSender k m)"
    by auto
qed

subsection \<open>All workers\<close>

definition world_inv ::
  "'h hashmap_ops \<Rightarrow> (transaction \<Rightarrow> sig_error + address) \<Rightarrow> (nat \<Rightarrow> address) \<Rightarrow> nat \<Rightarrow> 'h ts_world \<Rightarrow> bool" where
  "world_inv H sender own n w \<longleftrightarrow>
     set_inv H sender own n (ts_set w) \<and>
     (\<forall>i < length (ts_pcs w). pc_inv H sender own n (ts_set w) (ts_pcs w ! i) \<and>
        (\<forall>a. pc_holds (ts_pcs w ! i) = Some a \<longrightarrow> a \<in> set (ts_lock (ts_set w)))) \<and>
     (\<forall>i < length (ts_pcs w). \<forall>j < length (ts_pcs w). i \<noteq> j \<longrightarrow> pc_holds (ts_pcs w ! i) \<noteq> None \<longrightarrow>
        pc_holds (ts_pcs w ! i) \<noteq> pc_holds (ts_pcs w ! j))"

text \<open>Another worker never holds the account an action works on.\<close>

lemma other_worker:
  assumes inv: "world_inv H sender own n w" and i: "i < length (ts_pcs w)" and j: "j < length (ts_pcs w)" "j \<noteq> i"
    and step: "ts_next H sender shift (ts_set w) (ts_pcs w ! i) = (t, pc)"
  shows "pc_account (ts_pcs w ! i) pc = None \<or> pc_holds (ts_pcs w ! j) \<noteq> pc_account (ts_pcs w ! i) pc"
proof (cases "pc_holds (ts_pcs w ! i)")
  case None
  show ?thesis
  proof (cases "pc_holds pc")
    case (Some a)
    then have "a \<notin> set (ts_lock (ts_set w))"
      using ts_next_locks(2)[OF step _ None Some] None by simp
    then show ?thesis using inv j None Some by (auto simp: world_inv_def pc_account_def)
  qed (simp add: None pc_account_def)
next
  case (Some a)
  then have "pc_holds (ts_pcs w ! i) \<noteq> pc_holds (ts_pcs w ! j)"
    using inv i j unfolding world_inv_def by fastforce
  then show ?thesis using Some by (auto simp: pc_account_def)
qed

lemma ts_step_world_inv:
  assumes "ts_step H sender w w'" and laws: "hashmap_laws H" and inv: "world_inv H sender own n w"
  shows "world_inv H sender own n w'"
  using assms(1)
proof (rule ts_stepE)
  fix i shift t pc
  let ?pcs = "ts_pcs w" and ?s = "ts_set w"
  assume i: "i < length ?pcs" and step: "ts_next H sender shift ?s (?pcs ! i) = (t, pc)"
    and w': "w' = \<lparr>ts_set = t, ts_pcs = ?pcs[i := pc], ts_log = ts_log w @ handed_out (?pcs ! i) pc\<rparr>"
  have set: "set_inv H sender own n ?s" and pci: "pc_inv H sender own n ?s (?pcs ! i)"
    and held: "\<And>a. pc_holds (?pcs ! i) = Some a \<Longrightarrow> a \<in> set (ts_lock ?s)"
    using inv i by (auto simp: world_inv_def)
  note touch = ts_next_touches[OF step laws set pci held]
  have inj: "inj_on own {..<n}" using set by (simp add: set_inv_def)
  have A: "pc_inv H sender own n t (?pcs[i := pc] ! j) \<and> (\<forall>a. pc_holds (?pcs[i := pc] ! j) = Some a \<longrightarrow> a \<in> set (ts_lock t))"
    if j: "j < length ?pcs" for j
  proof (cases "j = i")
    case True
    then show ?thesis
      using ts_next_pc_inv(1)[OF step laws set pci] ts_next_locks(1)[OF step held] i by auto
  next
    case False
    note other = other_worker[OF inv i j False step]
    have "pc_inv H sender own n t (?pcs ! j)"
      using pc_inv_frame[OF _ touch _ inj] other inv j by (auto simp: world_inv_def)
    moreover have "a \<in> set (ts_lock t)" if "pc_holds (?pcs ! j) = Some a" for a
    proof -
      have "Some a \<noteq> pc_account (?pcs ! i) pc" using other that by auto
      then show ?thesis using ts_next_locks(4)[OF step held] inv j that by (auto simp: world_inv_def)
    qed
    ultimately show ?thesis using False by simp
  qed
  have new: "pc_holds pc \<noteq> pc_holds (?pcs ! j)" if j: "j < length ?pcs" "j \<noteq> i" and hd: "pc_holds pc \<noteq> None" for j
  proof -
    obtain a where a: "pc_holds pc = Some a" using hd by auto
    then have "pc_account (?pcs ! i) pc = Some a"
      using ts_next_locks(3)[OF step held] by (auto simp: pc_account_def split: option.splits)
    then show ?thesis using other_worker[OF inv i j step] a by auto
  qed
  have B: "pc_holds (?pcs[i := pc] ! j) \<noteq> pc_holds (?pcs[i := pc] ! k)"
    if jk: "j < length ?pcs" "k < length ?pcs" "j \<noteq> k" "pc_holds (?pcs[i := pc] ! j) \<noteq> None" for j k
  proof -
    consider "j = i" "k \<noteq> i" | "k = i" "j \<noteq> i" | "j \<noteq> i" "k \<noteq> i" using jk(3) by blast
    then show ?thesis
    proof cases
      case 1 then show ?thesis using new[of k] jk i by simp
    next
      case 2
      show ?thesis
      proof (cases "pc_holds pc = None")
        case True then show ?thesis using 2 jk i by auto
      next
        case False then show ?thesis using 2 new[of j] jk i by auto
      qed
    next
      case 3 then show ?thesis using inv jk unfolding world_inv_def by simp
    qed
  qed
  show "world_inv H sender own n w'"
    using ts_next_set_inv[OF step laws set pci held] A B by (simp add: world_inv_def w')
qed

subsection \<open>The order of what is handed out\<close>

text \<open>What remains of slot \<open>k\<close>; \<open>tk\<close> says that its head has been handed out already.\<close>

definition todo_of :: "'h hashmap_ops \<Rightarrow> (nat \<Rightarrow> address) \<Rightarrow> 'h txSet \<Rightarrow> bool \<Rightarrow> nat \<Rightarrow> transaction list" where
  "todo_of H own t tk k =
     (if \<not> ts_avail t ! k \<or> tk then [] else [the (ts_heads t ! k)]) @ the (hm_Get H (ts_txs t) (own k))"

definition takes :: "(nat \<Rightarrow> address) \<Rightarrow> nat \<Rightarrow> ts_pc \<Rightarrow> bool" where
  "takes own k pc \<longleftrightarrow> pc_holds pc = Some (own k) \<and> pc_taken pc"

definition todo :: "'h hashmap_ops \<Rightarrow> (nat \<Rightarrow> address) \<Rightarrow> 'h ts_world \<Rightarrow> nat \<Rightarrow> transaction list" where
  "todo H own w k = todo_of H own (ts_set w) (\<exists>pc \<in> set (ts_pcs w). takes own k pc) k"

definition log_inv ::
  "'h hashmap_ops \<Rightarrow> (transaction \<Rightarrow> sig_error + address) \<Rightarrow> (nat \<Rightarrow> address) \<Rightarrow> nat \<Rightarrow>
   (nat \<Rightarrow> transaction list) \<Rightarrow> 'h ts_world \<Rightarrow> bool" where
  "log_inv H sender own n orig w \<longleftrightarrow>
     (\<forall>k < n. filter (\<lambda>tx. sender tx = Inr (own k)) (ts_log w) @ todo H own w k = orig k)"

lemma handed_out_cases:
  assumes "ts_next H sender shift t pc = (t', pc')" and "tx \<in> set (handed_out pc pc')"
  obtains k a where "pc = PkResult k a" and "pc' = TsHave a (Some tx)" and "ts_heads t ! k = Some tx" and "t' = t"
proof (cases pc)
  case (PkResult k a)
  then have "pc' = TsHave a (ts_heads t ! k)" "t' = t" using assms(1) by (auto simp: ts_next_def)
  moreover from this have "ts_heads t ! k = Some tx" using assms(2) PkResult by (simp split: option.splits)
  ultimately show ?thesis using that PkResult by simp
qed (use assms(2) in simp_all)

text \<open>The slot of the account that the action works on.\<close>

lemma ts_next_todo:
  assumes step: "ts_next H sender shift t pc = (t', pc')" and laws: "hashmap_laws H"
    and inv: "set_inv H sender own n t" and pc: "pc_inv H sender own n t pc"
    and k: "k < n" and acc: "pc_account pc pc' = Some (own k)"
  shows "filter (\<lambda>tx. sender tx = Inr (own k)) (handed_out pc pc') @ todo_of H own t' (takes own k pc') k =
         todo_of H own t (takes own k pc) k"
proof -
  have len: "length (ts_heads t) = n" "length (ts_avail t) = n" and inj: "inj_on own {..<n}"
    and slot: "slot_inv H sender own t k" using inv k by (auto simp: set_inv_def)
  note eq = inj_own[OF inj]
  note defs = todo_of_def takes_def ts_next_cases
  show ?thesis
  proof (cases pc)
    case (PkResult j a)
    then have "j = k" using pc acc eq k by (auto simp: pc_account_def)
    then show ?thesis using PkResult step pc slot by (auto simp: defs slot_inv_def)
  next
    case (ShHead a i tx txs)
    then show ?thesis using step pc acc by (auto simp: defs)
  next
    case (ShSet a txs)
    then have a: "a = own k" using acc by (auto simp: pc_account_def)
    then obtain tx where "ts_heads t ! k = Some tx" "hm_Get H (ts_txs t) a = Some (tx # txs)" "ts_avail t ! k"
      using pc ShSet eq k by auto
    then show ?thesis using ShSet step laws a by (auto simp: defs hashmap_Set)
  next
    case (RmCas a ix)
    then show ?thesis using step pc acc len by (auto simp: defs split: if_splits)
  next
    case (RmNil a i)
    then have "i = k" using pc acc eq k by (auto simp: pc_account_def)
    then show ?thesis using RmNil step pc len by (auto simp: defs)
  next
    case (FdCheck f a i h)
    have "pc' \<noteq> TsPanic" using ts_next_pc_inv(2)[OF step laws inv pc] FdCheck by auto
    then show ?thesis using FdCheck step acc
      by (cases f) (auto simp: defs split: if_splits option.splits)
  next
    case (ShGet a ix)
    have "pc' \<noteq> TsPanic" using ts_next_pc_inv(2)[OF step laws inv pc] ShGet by auto
    then show ?thesis using ShGet step acc by (auto simp: defs split: if_splits option.splits list.splits)
  next
    case (FdRead f a i)
    then show ?thesis using step acc by (cases f) (auto simp: defs split: if_splits)
  qed (use step acc in \<open>auto simp: defs split: if_splits option.splits nat.splits sum.splits\<close>)
qed

lemma todo_of_frame:
  assumes "only_touches H own n a t t'" and "k < n" and "Some (own k) \<noteq> a"
  shows "todo_of H own t' tk k = todo_of H own t tk k"
proof -
  have "ts_heads t' ! k = ts_heads t ! k \<and> ts_avail t' ! k = ts_avail t ! k \<and>
      hm_Get H (ts_txs t') (own k) = hm_Get H (ts_txs t) (own k)"
    using assms(1)[unfolded only_touches_def, THEN conjunct2, THEN conjunct1] assms(2,3) by blast
  then show ?thesis by (simp add: todo_of_def)
qed

lemma bex_set_nth: "(\<exists>x \<in> set xs. P x) \<longleftrightarrow> (\<exists>j < length xs. P (xs ! j))"
  using nth_mem[of _ xs] by (auto simp: in_set_conv_nth)

lemma takes_update:
  assumes "i < length pcs" and "\<forall>j < length pcs. j \<noteq> i \<longrightarrow> \<not> takes own k (pcs ! j)"
  shows "(\<exists>pc \<in> set (pcs[i := pc]). takes own k pc) \<longleftrightarrow> takes own k pc"
    and "(\<exists>pc \<in> set pcs. takes own k pc) \<longleftrightarrow> takes own k (pcs ! i)"
  using assms unfolding bex_set_nth by (auto simp: nth_list_update)

lemma takes_frame:
  assumes "i < length pcs" and "\<not> takes own k pc" and "\<not> takes own k (pcs ! i)"
  shows "(\<exists>pc \<in> set (pcs[i := pc]). takes own k pc) \<longleftrightarrow> (\<exists>pc \<in> set pcs. takes own k pc)"
  using assms unfolding bex_set_nth by (auto simp: nth_list_update)

lemma ts_step_log_inv:
  assumes "ts_step H sender w w'" and laws: "hashmap_laws H" and inv: "world_inv H sender own n w"
    and log: "log_inv H sender own n orig w"
  shows "log_inv H sender own n orig w'"
  using assms(1)
proof (rule ts_stepE)
  fix i shift t pc
  let ?pcs = "ts_pcs w" and ?s = "ts_set w"
  assume i: "i < length ?pcs" and step: "ts_next H sender shift ?s (?pcs ! i) = (t, pc)"
    and w': "w' = \<lparr>ts_set = t, ts_pcs = ?pcs[i := pc], ts_log = ts_log w @ handed_out (?pcs ! i) pc\<rparr>"
  have set: "set_inv H sender own n ?s" and pci: "pc_inv H sender own n ?s (?pcs ! i)"
    and held: "\<And>a. pc_holds (?pcs ! i) = Some a \<Longrightarrow> a \<in> set (ts_lock ?s)"
    using inv i by (auto simp: world_inv_def)
  have touch: "only_touches H own n (pc_account (?pcs ! i) pc) ?s t"
    using ts_next_touches[OF step laws set pci held] by blast
  have "filter (\<lambda>tx. sender tx = Inr (own k)) (handed_out (?pcs ! i) pc) @ todo H own w' k = todo H own w k"
    if k: "k < n" for k
  proof (cases "pc_account (?pcs ! i) pc = Some (own k)")
    case True
    have none: "\<forall>j < length ?pcs. j \<noteq> i \<longrightarrow> \<not> takes own k (?pcs ! j)"
      using other_worker[OF inv i _ _ step] True by (auto simp: takes_def)
    show ?thesis
      using ts_next_todo[OF step laws set pci k True] by (simp add: todo_def w' takes_update[OF i none])
  next
    case False
    have "\<not> takes own k (?pcs ! i)" "\<not> takes own k pc"
      using False ts_next_locks(3)[OF step held]
      by (auto simp: takes_def pc_account_def split: option.splits)
    then have same: "todo H own w' k = todo H own w k"
      using todo_of_frame[OF touch k not_sym[OF False]]
      by (simp add: todo_def w' takes_frame[OF i])
    have "sender tx \<noteq> Inr (own k)" if tx: "tx \<in> set (handed_out (?pcs ! i) pc)" for tx
    proof -
      obtain j a where j: "?pcs ! i = PkResult j a" "ts_heads ?s ! j = Some tx"
        using handed_out_cases[OF step tx] by metis
      then have "sender tx = Inr (own j)" "own j \<noteq> own k"
        using pci set False by (auto simp: set_inv_def slot_inv_def pc_account_def)
      then show ?thesis by simp
    qed
    then have "filter (\<lambda>tx. sender tx = Inr (own k)) (handed_out (?pcs ! i) pc) = []" by (simp add: filter_empty_conv)
    then show ?thesis using same by simp
  qed
  then show "log_inv H sender own n orig w'" using log by (simp add: log_inv_def w')
qed

text \<open>Both invariants together, for all reachable states.\<close>

interpretation ts_world: step_invariant "\<lambda>w w'. hashmap_laws H \<and> ts_step H sender w w'" "world_inv H sender own n" for H sender own n
  by unfold_locales (blast intro: ts_step_world_inv)

interpretation ts_order: step_invariant_with "\<lambda>w w'. hashmap_laws H \<and> ts_step H sender w w'" "world_inv H sender own n" "log_inv H sender own n orig"
  for H sender own n orig
  by unfold_locales (blast intro: ts_step_log_inv)

lemma ts_steps_laws: "hashmap_laws H \<Longrightarrow> (ts_step H sender)\<^sup>*\<^sup>* w w' \<Longrightarrow> (\<lambda>w w'. hashmap_laws H \<and> ts_step H sender w w')\<^sup>*\<^sup>* w w'"
  by (erule rtranclp_mono[THEN predicate2D, rotated]) auto

subsection \<open>The constructor\<close>

interpretation tx_price_order: weak_order tx_price_less
  by unfold_locales (auto simp: tx_price_less_def Cmp_def split: if_splits)

text \<open>What the pool hands to the constructor: per account a non-empty list of its own transactions.\<close>

definition pending_ok :: "(transaction \<Rightarrow> sig_error + address) \<Rightarrow> (address, transaction list) gomap \<Rightarrow> bool" where
  "pending_ok sender txs \<longleftrightarrow> gm_wf txs \<and> (\<forall>(a, l) \<in> set txs. l \<noteq> [] \<and> (\<forall>tx \<in> set l. sender tx = Inr a))"

lemma ts_collect_spec:
  assumes laws: "hashmap_laws H"
  shows "pending_ok sender txs \<Longrightarrow> (\<forall>a \<in> fst ` set txs. hm_Get H m a = None) \<Longrightarrow>
    \<exists>m'. ts_collect H sender txs (m, hs) = Some (m', hs @ map (hd \<circ> snd) txs) \<and>
      (\<forall>(a, l) \<in> set txs. hm_Get H m' a = Some (tl l)) \<and> (\<forall>a. a \<notin> fst ` set txs \<longrightarrow> hm_Get H m' a = hm_Get H m a)"
proof (induction txs arbitrary: m hs)
  case (Cons p txs)
  obtain a tx l where p: "p = (a, tx # l)" using Cons.prems(1) by (cases p; cases "snd p") (auto simp: pending_ok_def)
  have snd: "sender_or_zero sender tx = a" using Cons.prems(1) by (simp add: pending_ok_def p sender_or_zero_def)
  have ins: "hm_Get H (hm_Insert H m a l) b = (if b = a then Some l else hm_Get H m b)" for b
    using laws Cons.prems(2) by (auto simp: hashmap_laws_def p)
  have ok: "pending_ok sender txs" and fresh: "a \<notin> fst ` set txs"
    using Cons.prems(1) by (auto simp: pending_ok_def p)
  have "\<forall>b \<in> fst ` set txs. hm_Get H (hm_Insert H m a l) b = None" using Cons.prems(2) fresh ins by auto
  from Cons.IH[OF ok this, of "hs @ [tx]"] obtain m' where
    "ts_collect H sender txs (hm_Insert H m a l, hs @ [tx]) = Some (m', hs @ [tx] @ map (hd \<circ> snd) txs)"
    "\<forall>(a, l) \<in> set txs. hm_Get H m' a = Some (tl l)"
    "\<forall>b. b \<notin> fst ` set txs \<longrightarrow> hm_Get H m' b = hm_Get H (hm_Insert H m a l) b" by auto
  then show ?case using snd ins fresh by (intro exI[of _ m']) (auto simp: p)
qed simp

definition slot_owner :: "(transaction \<Rightarrow> sig_error + address) \<Rightarrow> 'h txSet \<Rightarrow> nat \<Rightarrow> address" where
  "slot_owner sender t k = sender_or_zero sender (the (ts_heads t ! k))"

text \<open>In the fresh set every account has one slot, with its first transaction, and the rest in the map.\<close>

lemma new_set_spec:
  assumes laws: "hashmap_laws H" and ok: "pending_ok sender txs"
    and new: "NewTransactionsByPriceAndNonce H sender txs = Some t"
  defines "own \<equiv> slot_owner sender t"
  shows "length (ts_heads t) = length txs" and "ts_avail t = replicate (length txs) True" and "ts_lock t = []"
    and "own ` {..<length txs} = fst ` set txs" and "inj_on own {..<length txs}"
    and "\<And>k. k < length txs \<Longrightarrow>
      \<exists>l. gm_get txs (own k) = Some l \<and> l \<noteq> [] \<and> ts_heads t ! k = Some (hd l) \<and> hm_Get H (ts_txs t) (own k) = Some (tl l)"
proof -
  obtain m where c: "ts_collect H sender txs (hm_empty H, []) = Some (m, map (hd \<circ> snd) txs)"
    and m: "\<forall>(a, l) \<in> set txs. hm_Get H m a = Some (tl l)"
    using ts_collect_spec[OF laws ok, of "hm_empty H" "[]"] laws by (auto simp: hashmap_laws_def)
  define hs where "hs = heap_init tx_price_less (map (hd \<circ> snd) txs)"
  have t: "t = \<lparr>ts_txs = m, ts_heads = map Some hs, ts_lock = [], ts_avail = replicate (length txs) True, ts_index = 0\<rparr>"
    using new c by (simp add: NewTransactionsByPriceAndNonce_def hs_def)
  have perm: "mset hs = mset (map (hd \<circ> snd) txs)" by (simp add: hs_def tx_price_order.heap_init_correct)
  have len: "length hs = length txs" using mset_eq_length[OF perm] by simp
  have sndr: "sender_or_zero sender (hd l) = a" "l \<noteq> []" if "(a, l) \<in> set txs" for a l
    using ok that by (auto simp: pending_ok_def sender_or_zero_def)
  have "mset (map (sender_or_zero sender) hs) = mset (map (sender_or_zero sender \<circ> hd \<circ> snd) txs)"
    using perm by (simp add: mset_map multiset.map_comp comp_assoc)
  also have "map (sender_or_zero sender \<circ> hd \<circ> snd) txs = gm_keys txs" using sndr by auto
  finally have keys: "mset (map (sender_or_zero sender) hs) = mset (gm_keys txs)" .
  have own: "own k = map (sender_or_zero sender) hs ! k" if "k < length txs" for k
    using that by (simp add: own_def slot_owner_def t len)
  have dist: "distinct (map (sender_or_zero sender) hs)"
    using mset_eq_imp_distinct_iff[OF keys] ok by (simp add: pending_ok_def)
  show "length (ts_heads t) = length txs" "ts_avail t = replicate (length txs) True" "ts_lock t = []"
    by (simp_all add: t len)
  show "inj_on own {..<length txs}"
    using dist len by (auto simp: inj_on_def own nth_eq_iff_index_eq simp del: nth_map)
  have "own ` {..<length txs} = set (map (sender_or_zero sender) hs)"
    using len own by (auto simp: set_conv_nth image_def simp del: nth_map)
  then show "own ` {..<length txs} = fst ` set txs" using mset_eq_setD[OF keys] by simp
  show "\<exists>l. gm_get txs (own k) = Some l \<and> l \<noteq> [] \<and> ts_heads t ! k = Some (hd l) \<and> hm_Get H (ts_txs t) (own k) = Some (tl l)"
    if k: "k < length txs" for k
  proof -
    have "hs ! k \<in> set (map (hd \<circ> snd) txs)" using mset_eq_setD[OF perm] k len nth_mem by metis
    then obtain a l where al: "(a, l) \<in> set txs" "hs ! k = hd l" by auto
    then have "own k = a" using own[OF k] sndr k len by simp
    moreover have "gm_get txs a = Some l" using ok al(1) by (simp add: pending_ok_def)
    ultimately show ?thesis using al m sndr k len by (auto simp: t)
  qed
qed

lemma new_world_inv:
  assumes "hashmap_laws H" and ok: "pending_ok sender txs"
    and "NewTransactionsByPriceAndNonce H sender txs = Some t"
  shows "world_inv H sender (slot_owner sender t) (length txs) (ts_world0 t workers)" (is ?A)
    and "log_inv H sender (slot_owner sender t) (length txs) (\<lambda>k. the (gm_get txs (slot_owner sender t k))) (ts_world0 t workers)" (is ?B)
proof -
  note new = new_set_spec[OF assms]
  have mem: "\<forall>tx \<in> set l. sender tx = Inr a" if "gm_get txs a = Some l" for a l
    using ok that by (auto simp: pending_ok_def dest!: map_of_SomeD)
  have "slot_inv H sender (slot_owner sender t) t k" if k: "k < length txs" for k
    using new(6)[OF k] mem new(2) k by (fastforce simp: slot_inv_def dest: list.set_sel)
  then show ?A using new(1,2,5) by (auto simp: world_inv_def ts_world0_def set_inv_def)
  have "todo H (slot_owner sender t) (ts_world0 t workers) k = the (gm_get txs (slot_owner sender t k))"
    if k: "k < length txs" for k
    using new(6)[OF k] new(2) k by (auto simp: todo_def todo_of_def ts_world0_def takes_def)
  then show ?B by (simp add: log_inv_def ts_world0_def)
qed

subsection \<open>Schedules\<close>

text \<open>A schedule names the worker that acts and what it calls after it has executed a transaction.\<close>

fun ts_run ::
  "'h hashmap_ops \<Rightarrow> (transaction \<Rightarrow> sig_error + address) \<Rightarrow> (nat \<times> bool) list \<Rightarrow> 'h ts_world \<Rightarrow> 'h ts_world" where
  "ts_run H sender [] w = w"
| "ts_run H sender ((i, shift) # sched) w =
     (if i < length (ts_pcs w)
      then let (t, pc) = ts_next H sender shift (ts_set w) (ts_pcs w ! i) in
           ts_run H sender sched
             \<lparr>ts_set = t, ts_pcs = (ts_pcs w)[i := pc], ts_log = ts_log w @ handed_out (ts_pcs w ! i) pc\<rparr>
      else w)"

lemma ts_run_steps: "(ts_step H sender)\<^sup>*\<^sup>* w (ts_run H sender sched w)"
proof (induction H sender sched w rule: ts_run.induct)
  case (2 H sender i shift sched w)
  show ?case
  proof (cases "i < length (ts_pcs w)")
    case True
    obtain t pc where n: "ts_next H sender shift (ts_set w) (ts_pcs w ! i) = (t, pc)" by fastforce
    show ?thesis
      using converse_rtranclp_into_rtranclp[OF ts_step.intros[OF True n] "2.IH"[OF True n[symmetric] refl]] True n
      by simp
  qed simp
qed simp

subsection \<open>Properties\<close>

text \<open>C10: However many workers call \<open>Peek\<close>, \<open>Shift\<close> and \<open>Remove\<close> in whatever interleaving, no two of them ever work on the
  same sender at the same time, and a worker that goes on after taking a transaction always has
  one (\<open>Peek\<close> never hands out a head that was removed meanwhile).\<close>

theorem one_worker_per_sender:
  assumes "hashmap_laws H" and "pending_ok sender txs" and "NewTransactionsByPriceAndNonce H sender txs = Some t"
    and "(ts_step H sender)\<^sup>*\<^sup>* (ts_world0 t workers) w"
    and "i < length (ts_pcs w)" and "j < length (ts_pcs w)" and "i \<noteq> j" and "pc_holds (ts_pcs w ! i) = Some a"
  shows "pc_holds (ts_pcs w ! j) \<noteq> Some a \<and> ts_pcs w ! i \<noteq> TsHave a None"
proof -
  have inv: "world_inv H sender (slot_owner sender t) (length txs) w"
    using ts_world.steps_inv[OF ts_steps_laws[OF assms(1,4)] new_world_inv(1)[OF assms(1-3)]] .
  then have "pc_inv H sender (slot_owner sender t) (length txs) (ts_set w) (ts_pcs w ! i)"
    using assms(5) by (simp add: world_inv_def)
  then have "ts_pcs w ! i \<noteq> TsHave a None" by auto
  moreover have "pc_holds (ts_pcs w ! i) \<noteq> pc_holds (ts_pcs w ! j)"
    using inv assms(5-8) unfolding world_inv_def by fastforce
  ultimately show ?thesis using assms(8) by auto
qed

text \<open>C11: For every sender, the transactions handed out to the workers so far are, in the order in which they were
  handed out, an initial part of the sender's pending list: nonces are executed in order, none
  is skipped and none is handed out twice.\<close>

theorem handed_out_in_nonce_order:
  assumes "hashmap_laws H" and "pending_ok sender txs" and "NewTransactionsByPriceAndNonce H sender txs = Some t"
    and "(ts_step H sender)\<^sup>*\<^sup>* (ts_world0 t workers) w" and "(a, l) \<in> set txs"
  shows "\<exists>rest. l = filter (\<lambda>tx. sender tx = Inr a) (ts_log w) @ rest"
proof -
  let ?own = "slot_owner sender t"
  have log: "log_inv H sender ?own (length txs) (\<lambda>k. the (gm_get txs (?own k))) w"
    using ts_order.both.steps_inv[OF ts_steps_laws[OF assms(1,4)]] new_world_inv[OF assms(1-3)] by blast
  have "a \<in> ?own ` {..<length txs}" using new_set_spec(4)[OF assms(1-3)] assms(5) by force
  then obtain k where k: "k < length txs" "?own k = a" by auto
  moreover have "gm_get txs a = Some l" using assms(2,5) by (simp add: pending_ok_def)
  ultimately have "filter (\<lambda>tx. sender tx = Inr a) (ts_log w) @ todo H ?own w k = l"
    using log by (auto simp: log_inv_def)
  then show ?thesis by metis
qed

text \<open>A concrete instance: the sender is read off a signature value, the hash map is an association list.\<close>

definition demo_sender :: "transaction \<Rightarrow> sig_error + address" where
  "demo_sender tx = Inr (of_int (sigR tx))"

definition demo_from :: "int \<Rightarrow> u64 \<Rightarrow> transaction" where
  "demo_from r n = (NewTransaction n 7 None 21000 (Some (10 + r)) [])\<lparr>sigR := r\<rparr>"

definition demo_pending :: "(address, transaction list) gomap" where
  "demo_pending = [(5, [demo_from 5 0, demo_from 5 1]), (6, [demo_from 6 3])]"

definition demo_set :: "(address, transaction list) gomap txSet" where
  "demo_set = the (NewTransactionsByPriceAndNonce gomap_ops demo_sender demo_pending)"

lemma demo_pending_ok: "pending_ok demo_sender demo_pending"
  by (simp add: pending_ok_def demo_pending_def demo_sender_def demo_from_def)

lemma demo_set_new: "NewTransactionsByPriceAndNonce gomap_ops demo_sender demo_pending = Some demo_set"
proof -
  have "NewTransactionsByPriceAndNonce gomap_ops demo_sender demo_pending \<noteq> None" by code_simp
  then show ?thesis by (simp add: demo_set_def)
qed

text \<open>Worker 0 takes sender 6, worker 1 skips it and takes sender 5.\<close>

definition demo_two :: "(address, transaction list) gomap ts_world" where
  "demo_two = ts_run gomap_ops demo_sender (map (\<lambda>i. (i, True)) [0, 0, 0, 0, 1, 0, 1, 1, 1, 0, 0, 1, 1, 1, 1, 1, 1, 1]) (ts_world0 demo_set 2)"

lemma demo_two_reachable: "(ts_step gomap_ops demo_sender)\<^sup>*\<^sup>* (ts_world0 demo_set 2) demo_two"
  unfolding demo_two_def by (rule ts_run_steps)

theorem one_worker_per_sender_witness:
  "pc_holds (ts_pcs demo_two ! 0) = Some 6 \<and> pc_holds (ts_pcs demo_two ! 1) \<noteq> Some 6"
proof -
  have "length (ts_pcs demo_two) = 2" "pc_holds (ts_pcs demo_two ! 0) = Some 6" by code_simp+
  then show ?thesis
    using one_worker_per_sender[OF gomap_ops_laws demo_pending_ok demo_set_new demo_two_reachable, of 0 1 6] by simp
qed

text \<open>One worker takes both transactions of sender 5, with \<open>Shift\<close> in between.\<close>

definition demo_order :: "(address, transaction list) gomap ts_world" where
  "demo_order = ts_run gomap_ops demo_sender (replicate 40 (0, True)) (ts_world0 demo_set 1)"

theorem handed_out_in_nonce_order_witness:
  "map AccountNonce (filter (\<lambda>tx. demo_sender tx = Inr 5) (ts_log demo_order)) = [0, 1] \<and>
   (\<exists>rest. [demo_from 5 0, demo_from 5 1] = filter (\<lambda>tx. demo_sender tx = Inr 5) (ts_log demo_order) @ rest)"
proof -
  have "map AccountNonce (filter (\<lambda>tx. demo_sender tx = Inr 5) (ts_log demo_order)) = [0, 1]" by code_simp
  moreover have "(ts_step gomap_ops demo_sender)\<^sup>*\<^sup>* (ts_world0 demo_set 1) demo_order"
    unfolding demo_order_def by (rule ts_run_steps)
  ultimately show ?thesis
    using handed_out_in_nonce_order[OF gomap_ops_laws demo_pending_ok demo_set_new, of 1 demo_order 5]
    by (simp add: demo_pending_def)
qed

text \<open>C35: The only way a worker can panic is the nil dereference in \<open>Peek\<close>, between its check of
  \<open>headsAvailable\<close> and its read of \<open>heads\<close>; \<open>find\<close>, which reads in the other order, \<open>Shift\<close> and \<open>Remove\<close>
  never dereference nil and never index out of range.\<close>

theorem only_Peek_can_panic:
  assumes "hashmap_laws H" and "pending_ok sender txs" and "NewTransactionsByPriceAndNonce H sender txs = Some t"
    and "(ts_step H sender)\<^sup>*\<^sup>* (ts_world0 t workers) w"
    and "i < length (ts_pcs w)" and "snd (ts_next H sender shift (ts_set w) (ts_pcs w ! i)) = TsPanic"
  shows "ts_pcs w ! i = TsPanic \<or>
    (\<exists>k m. ts_pcs w ! i = PkSender k m \<and> ts_heads (ts_set w) ! (k mod length (ts_heads (ts_set w))) = None)"
proof -
  have inv: "world_inv H sender (slot_owner sender t) (length txs) w"
    using ts_world.steps_inv[OF ts_steps_laws[OF assms(1,4)] new_world_inv(1)[OF assms(1-3)]] .
  obtain t' where n: "ts_next H sender shift (ts_set w) (ts_pcs w ! i) = (t', TsPanic)"
    using assms(6) by (metis prod.collapse)
  have "ts_pcs w ! i = TsPanic \<or> (\<exists>k m. ts_pcs w ! i = PkSender k m)"
    using ts_next_pc_inv(2)[OF n assms(1)] inv assms(5) by (auto simp: world_inv_def)
  then show ?thesis using n by (auto simp: ts_next_def Let_def split: option.splits sum.splits)
qed

text \<open>
  And it does happen: worker 1 has seen the slot of sender 6 available, worker 0 finishes that
  sender and clears the slot, worker 1 then reads nil.
\<close>

definition demo_panic_sched :: "(nat \<times> bool) list" where
  "demo_panic_sched = map (\<lambda>i. (i, True)) (replicate 7 0 @ [1, 1] @ replicate 8 0 @ [1])"

definition demo_single :: "(address, transaction list) gomap" where
  "demo_single = [(6, [demo_from 6 3])]"

definition demo_before_panic :: "(address, transaction list) gomap ts_world" where
  "demo_before_panic = ts_run gomap_ops demo_sender (butlast demo_panic_sched)
     (ts_world0 (the (NewTransactionsByPriceAndNonce gomap_ops demo_sender demo_single)) 2)"

theorem only_Peek_can_panic_witness:
  "snd (ts_next gomap_ops demo_sender True (ts_set demo_before_panic) (ts_pcs demo_before_panic ! 1)) = TsPanic \<and>
   (\<exists>k m. ts_pcs demo_before_panic ! 1 = PkSender k m)"
proof -
  let ?t = "the (NewTransactionsByPriceAndNonce gomap_ops demo_sender demo_single)"
  have some: "NewTransactionsByPriceAndNonce gomap_ops demo_sender demo_single \<noteq> None" by code_simp
  then have new: "NewTransactionsByPriceAndNonce gomap_ops demo_sender demo_single = Some ?t" by simp
  have ok: "pending_ok demo_sender demo_single"
    by (simp add: pending_ok_def demo_single_def demo_sender_def demo_from_def)
  have reach: "(ts_step gomap_ops demo_sender)\<^sup>*\<^sup>* (ts_world0 ?t 2) demo_before_panic"
    unfolding demo_before_panic_def by (rule ts_run_steps)
  have "length (ts_pcs demo_before_panic) = 2" "ts_pcs demo_before_panic ! 1 \<noteq> TsPanic"
    "snd (ts_next gomap_ops demo_sender True (ts_set demo_before_panic) (ts_pcs demo_before_panic ! 1)) = TsPanic"
    by code_simp+
  then show ?thesis
    using only_Peek_can_panic[OF gomap_ops_laws ok new reach, of 1 True] by auto
qed



end
