(* ===== verification/State_Db.thy ===== *)
theory State_Db
  imports Go_Prelude
begin

text \<open>
  \<open>core/state\<close>: the state database that transactions are executed on: accounts as live objects over
  a trie (\<open>state_object.go\<close>), the journal of undo entries (\<open>journal.go\<close>) and the operations of
  \<open>StateDB\<close> (\<open>statedb.go\<close>).  An object is reached through a pointer that the live map holds under
  the address of the object, so a change of an object is an update of the map.  The tries, the
  key-value store and the encodings belong to other packages; their operations are the fields of
  \<open>sdb_env\<close>.  Reads that fail set the memoized error \<open>dbErr\<close>; panics are \<open>None\<close>.
  The code hash of an account is a 32-byte value.
\<close>

subsection \<open>Accounts and objects\<close>

record Account =
  acc_Nonce :: u64
  acc_Balance :: bigint
  acc_Root :: hash
  acc_CodeHash :: hash

record 's stateObject =
  so_address :: address
  so_data :: Account
  so_dbErr :: bool
  so_trie :: "'s option"
  so_code :: "bytes option"
  originStorage :: "(hash, hash) gomap"
  dirtyStorage :: "(hash, hash) gomap"
  dirtyCode :: bool
  suicided :: bool
  deleted :: bool

text \<open>
  The surroundings: \<open>'d\<close> is the store, \<open>'a\<close> the account trie, \<open>'s\<close> a storage trie.  A
  boolean result says that an error was returned.  \<open>st_empty\<close> is the storage trie opened at the
  zero root.
\<close>

record ('d, 'a, 's) sdb_env =
  at_TryGet :: "'a \<Rightarrow> address \<Rightarrow> bytes \<times> bool"
  at_TryUpdate :: "'a \<Rightarrow> address \<Rightarrow> bytes \<Rightarrow> 'a \<times> bool"
  at_TryDelete :: "'a \<Rightarrow> address \<Rightarrow> 'a \<times> bool"
  at_Hash :: "'a \<Rightarrow> hash"
  at_Commit :: "'d \<Rightarrow> 'a \<Rightarrow> 'd \<times> 'a \<times> hash \<times> bool"
  st_TryGet :: "'s \<Rightarrow> hash \<Rightarrow> bytes \<times> bool"
  st_TryUpdate :: "'s \<Rightarrow> hash \<Rightarrow> bytes \<Rightarrow> 's \<times> bool"
  st_TryDelete :: "'s \<Rightarrow> hash \<Rightarrow> 's \<times> bool"
  st_Hash :: "'s \<Rightarrow> hash"
  st_Commit :: "'d \<Rightarrow> 's \<Rightarrow> 'd \<times> 's \<times> hash \<times> bool"
  st_empty :: 's
  db_OpenTrie :: "'d \<Rightarrow> hash \<Rightarrow> 'a option"
  db_OpenStorageTrie :: "'d \<Rightarrow> hash \<Rightarrow> hash \<Rightarrow> 's option"
  db_ContractCode :: "'d \<Rightarrow> hash \<Rightarrow> bytes option"
  db_InsertBlob :: "'d \<Rightarrow> hash \<Rightarrow> bytes \<Rightarrow> 'd"
  enc_Account :: "Account \<Rightarrow> bytes"
  dec_Account :: "bytes \<Rightarrow> Account option"
  enc_slot :: "hash \<Rightarrow> bytes"
  dec_slot :: "bytes \<Rightarrow> hash \<times> bool"
  keccak_addr :: "address \<Rightarrow> hash"
  keccak_code :: "bytes \<Rightarrow> hash"

definition emptyCodeHash :: "('d, 'a, 's) sdb_env \<Rightarrow> hash" where
  "emptyCodeHash E = keccak_code E []"

definition newAccount :: "('d, 'a, 's) sdb_env \<Rightarrow> Account" where
  "newAccount E = \<lparr>acc_Nonce = 0, acc_Balance = 0, acc_Root = 0, acc_CodeHash = emptyCodeHash E\<rparr>"

definition newObject :: "address \<Rightarrow> Account \<Rightarrow> 's stateObject" where
  "newObject addr data =
     \<lparr>so_address = addr, so_data = data, so_dbErr = False, so_trie = None, so_code = None,
      originStorage = [], dirtyStorage = [], dirtyCode = False, suicided = False, deleted = False\<rparr>"

definition so_empty :: "('d, 'a, 's) sdb_env \<Rightarrow> 's stateObject \<Rightarrow> bool" where
  "so_empty E o' \<longleftrightarrow> acc_Nonce (so_data o') = 0 \<and> acc_Balance (so_data o') = 0 \<and>
     acc_CodeHash (so_data o') = emptyCodeHash E"

definition so_setError :: "bool \<Rightarrow> 's stateObject \<Rightarrow> 's stateObject" where
  "so_setError err o' = o'\<lparr>so_dbErr := so_dbErr o' \<or> err\<rparr>"

definition setBalance :: "bigint \<Rightarrow> 's stateObject \<Rightarrow> 's stateObject" where
  "setBalance amount o' = o'\<lparr>so_data := (so_data o')\<lparr>acc_Balance := amount\<rparr>\<rparr>"

definition setNonce :: "u64 \<Rightarrow> 's stateObject \<Rightarrow> 's stateObject" where
  "setNonce nonce o' = o'\<lparr>so_data := (so_data o')\<lparr>acc_Nonce := nonce\<rparr>\<rparr>"

definition setCode :: "hash \<Rightarrow> bytes option \<Rightarrow> 's stateObject \<Rightarrow> 's stateObject" where
  "setCode codeHash code o' =
     o'\<lparr>so_code := code, so_data := (so_data o')\<lparr>acc_CodeHash := codeHash\<rparr>, dirtyCode := True\<rparr>"

definition setState :: "hash \<Rightarrow> hash \<Rightarrow> 's stateObject \<Rightarrow> 's stateObject" where
  "setState key val o' = o'\<lparr>dirtyStorage := gm_set key val (dirtyStorage o')\<rparr>"

definition getTrie :: "('d, 'a, 's) sdb_env \<Rightarrow> 'd \<Rightarrow> 's stateObject \<Rightarrow> 's stateObject \<times> 's" where
  "getTrie E db o' =
     (case so_trie o' of
        Some tr \<Rightarrow> (o', tr)
      | None \<Rightarrow>
          (case db_OpenStorageTrie E db (keccak_addr E (so_address o')) (acc_Root (so_data o')) of
             Some tr \<Rightarrow> (o'\<lparr>so_trie := Some tr\<rparr>, tr)
           | None \<Rightarrow> (so_setError True (o'\<lparr>so_trie := Some (st_empty E)\<rparr>), st_empty E)))"

definition so_GetCommittedState ::
  "('d, 'a, 's) sdb_env \<Rightarrow> 'd \<Rightarrow> 's stateObject \<Rightarrow> hash \<Rightarrow> 's stateObject \<times> hash" where
  "so_GetCommittedState E db o' key =
     (case gm_get (originStorage o') key of
        Some v \<Rightarrow> (o', v)
      | None \<Rightarrow>
          let (o1, tr) = getTrie E db o'; (enc, err) = st_TryGet E tr key in
          if err then (so_setError True o1, 0)
          else let (v, err2) = (if enc \<noteq> [] then dec_slot E enc else (0, False));
                   o2 = so_setError err2 o1
               in (o2\<lparr>originStorage := gm_set key v (originStorage o2)\<rparr>, v))"

definition so_GetState ::
  "('d, 'a, 's) sdb_env \<Rightarrow> 'd \<Rightarrow> 's stateObject \<Rightarrow> hash \<Rightarrow> 's stateObject \<times> hash" where
  "so_GetState E db o' key =
     (case gm_get (dirtyStorage o') key of Some v \<Rightarrow> (o', v) | None \<Rightarrow> so_GetCommittedState E db o' key)"

definition so_Code :: "('d, 'a, 's) sdb_env \<Rightarrow> 'd \<Rightarrow> 's stateObject \<Rightarrow> 's stateObject \<times> bytes option" where
  "so_Code E db o' =
     (if so_code o' \<noteq> None then (o', so_code o')
      else if acc_CodeHash (so_data o') = emptyCodeHash E then (o', None)
      else let code = db_ContractCode E db (acc_CodeHash (so_data o'));
               o1 = so_setError (code = None) o'
           in (o1\<lparr>so_code := code\<rparr>, code))"

text \<open>
  \<open>updateTrie\<close> moves the dirty entries into the storage trie; the map is empty afterwards because
  every key is deleted while it is visited.
\<close>

definition updateTrie_step ::
  "('d, 'a, 's) sdb_env \<Rightarrow> hash \<times> hash \<Rightarrow> 's stateObject \<times> 's \<Rightarrow> 's stateObject \<times> 's" where
  "updateTrie_step E kv st =
     (let (key, val) = kv; (o', tr) = st;
          o1 = o'\<lparr>dirtyStorage := gm_del key (dirtyStorage o')\<rparr>;
          orig = (case gm_get (originStorage o1) key of Some v \<Rightarrow> v | None \<Rightarrow> 0)
      in if val = orig then (o1, tr)
         else let o2 = o1\<lparr>originStorage := gm_set key val (originStorage o1)\<rparr>;
                  (tr', err) = (if val = 0 then st_TryDelete E tr key else st_TryUpdate E tr key (enc_slot E val))
              in (so_setError err o2, tr'))"

definition updateTrie :: "('d, 'a, 's) sdb_env \<Rightarrow> 'd \<Rightarrow> 's stateObject \<Rightarrow> 's stateObject" where
  "updateTrie E db o' =
     (let (o1, tr) = getTrie E db o';
          (o2, tr') = fold (updateTrie_step E) (dirtyStorage o1) (o1, tr)
      in o2\<lparr>so_trie := Some tr'\<rparr>)"

definition updateRoot :: "('d, 'a, 's) sdb_env \<Rightarrow> 'd \<Rightarrow> 's stateObject \<Rightarrow> 's stateObject" where
  "updateRoot E db o' =
     (let o1 = updateTrie E db o'
      in o1\<lparr>so_data := (so_data o1)\<lparr>acc_Root := (case so_trie o1 of Some tr \<Rightarrow> st_Hash E tr | None \<Rightarrow> 0)\<rparr>\<rparr>)"

text \<open>The result of \<open>CommitTrie\<close> says whether an error came back.\<close>

definition CommitTrie :: "('d, 'a, 's) sdb_env \<Rightarrow> 'd \<Rightarrow> 's stateObject \<Rightarrow> 'd \<times> 's stateObject \<times> bool" where
  "CommitTrie E db o' =
     (let o1 = updateTrie E db o' in
      if so_dbErr o1 then (db, o1, True)
      else case so_trie o1 of
             None \<Rightarrow> (db, o1, True)
           | Some tr \<Rightarrow>
               (case st_Commit E db tr of (db', tr', root, err) \<Rightarrow>
                  (db', (if err then o1\<lparr>so_trie := Some tr'\<rparr>
                         else o1\<lparr>so_trie := Some tr', so_data := (so_data o1)\<lparr>acc_Root := root\<rparr>\<rparr>), err)))"

text \<open>A deep copy keeps everything but the memoized error.\<close>

definition deepCopy :: "'s stateObject \<Rightarrow> 's stateObject" where
  "deepCopy o' = (newObject (so_address o') (so_data o'))
     \<lparr>so_trie := so_trie o', so_code := so_code o', dirtyStorage := dirtyStorage o',
      originStorage := originStorage o', suicided := suicided o', dirtyCode := dirtyCode o', deleted := deleted o'\<rparr>"

subsection \<open>The journal\<close>

datatype 's journalEntry =
    createObjectChange address
  | resetObjectChange "'s stateObject"
  | suicideChange address bool bigint
  | balanceChange address bigint
  | nonceChange address u64
  | storageChange address hash hash
  | codeChange address "bytes option" hash
  | refundChange u64
  | addLogChange hash
  | addPreimageChange hash
  | touchChange address

fun dirtied :: "'s journalEntry \<Rightarrow> address option" where
  "dirtied (createObjectChange a) = Some a"
| "dirtied (resetObjectChange prev) = None"
| "dirtied (suicideChange a p b) = Some a"
| "dirtied (balanceChange a p) = Some a"
| "dirtied (nonceChange a p) = Some a"
| "dirtied (storageChange a k v) = Some a"
| "dirtied (codeChange a c h) = Some a"
| "dirtied (refundChange p) = None"
| "dirtied (addLogChange h) = None"
| "dirtied (addPreimageChange h) = None"
| "dirtied (touchChange a) = Some a"

record 's journal =
  entries :: "'s journalEntry list"
  dirties :: "(address, int) gomap"

definition newJournal :: "'s journal" where
  "newJournal = \<lparr>entries = [], dirties = []\<rparr>"

definition dirty_count :: "'s journal \<Rightarrow> address \<Rightarrow> int" where
  "dirty_count j a = (case gm_get (dirties j) a of None \<Rightarrow> 0 | Some n \<Rightarrow> n)"

definition journal_dirty :: "address \<Rightarrow> 's journal \<Rightarrow> 's journal" where
  "journal_dirty a j = j\<lparr>dirties := gm_set a (dirty_count j a + 1) (dirties j)\<rparr>"

definition journal_append :: "'s journalEntry \<Rightarrow> 's journal \<Rightarrow> 's journal" where
  "journal_append e j =
     (let j1 = j\<lparr>entries := entries j @ [e]\<rparr> in
      case dirtied e of None \<Rightarrow> j1 | Some a \<Rightarrow> journal_dirty a j1)"

subsection \<open>The state database\<close>

record Log =
  log_Address :: address
  log_Topics :: "hash list"
  log_Data :: bytes
  log_BlockNumber :: u64
  log_TxHash :: hash
  log_TxIndex :: u64
  log_BlockHash :: hash
  log_Index :: u64

record ('d, 'a, 's) StateDB =
  sdb_db :: 'd
  sdb_trie :: 'a
  stateObjects :: "(address, 's stateObject) gomap"
  stateObjectsDirty :: "(address, unit) gomap"
  sdb_dbErr :: bool
  sdb_refund :: u64
  sdb_thash :: hash
  sdb_bhash :: hash
  sdb_txIndex :: int
  sdb_logs :: "(hash, Log list) gomap"
  logSize :: u64
  sdb_preimages :: "(hash, bytes) gomap"
  sdb_journal :: "'s journal"
  validRevisions :: "(nat \<times> nat) list"
  nextRevisionId :: nat

definition New :: "('d, 'a, 's) sdb_env \<Rightarrow> 'd \<Rightarrow> hash \<Rightarrow> ('d, 'a, 's) StateDB option" where
  "New E db root =
     (case db_OpenTrie E db root of
        None \<Rightarrow> None
      | Some tr \<Rightarrow> Some \<lparr>sdb_db = db, sdb_trie = tr, stateObjects = [], stateObjectsDirty = [], sdb_dbErr = False,
          sdb_refund = 0, sdb_thash = 0, sdb_bhash = 0, sdb_txIndex = 0, sdb_logs = [], logSize = 0,
          sdb_preimages = [], sdb_journal = newJournal, validRevisions = [], nextRevisionId = 0\<rparr>)"

definition sdb_setError :: "bool \<Rightarrow> ('d, 'a, 's) StateDB \<Rightarrow> ('d, 'a, 's) StateDB" where
  "sdb_setError err s = s\<lparr>sdb_dbErr := sdb_dbErr s \<or> err\<rparr>"

definition journaled :: "'s journalEntry \<Rightarrow> ('d, 'a, 's) StateDB \<Rightarrow> ('d, 'a, 's) StateDB" where
  "journaled e s = s\<lparr>sdb_journal := journal_append e (sdb_journal s)\<rparr>"

definition setStateObject :: "'s stateObject \<Rightarrow> ('d, 'a, 's) StateDB \<Rightarrow> ('d, 'a, 's) StateDB" where
  "setStateObject o' s = s\<lparr>stateObjects := gm_set (so_address o') o' (stateObjects s)\<rparr>"

definition clearJournalAndRefund :: "('d, 'a, 's) StateDB \<Rightarrow> ('d, 'a, 's) StateDB" where
  "clearJournalAndRefund s = s\<lparr>sdb_journal := newJournal, validRevisions := [], sdb_refund := 0\<rparr>"

definition sdb_Reset :: "('d, 'a, 's) sdb_env \<Rightarrow> hash \<Rightarrow> ('d, 'a, 's) StateDB \<Rightarrow> ('d, 'a, 's) StateDB option" where
  "sdb_Reset E root s =
     (case db_OpenTrie E (sdb_db s) root of
        None \<Rightarrow> None
      | Some tr \<Rightarrow> Some (clearJournalAndRefund (s\<lparr>sdb_trie := tr, stateObjects := [], stateObjectsDirty := [],
          sdb_thash := 0, sdb_bhash := 0, sdb_txIndex := 0, sdb_logs := [], logSize := 0, sdb_preimages := []\<rparr>)))"

definition getStateObject ::
  "('d, 'a, 's) sdb_env \<Rightarrow> address \<Rightarrow> ('d, 'a, 's) StateDB \<Rightarrow> ('d, 'a, 's) StateDB \<times> 's stateObject option" where
  "getStateObject E addr s =
     (case gm_get (stateObjects s) addr of
        Some obj \<Rightarrow> (s, if deleted obj then None else Some obj)
      | None \<Rightarrow>
          let (enc, err) = at_TryGet E (sdb_trie s) addr in
          if enc = [] then (sdb_setError err s, None)
          else case dec_Account E enc of
                 None \<Rightarrow> (s, None)
               | Some data \<Rightarrow> let obj = newObject addr data in (setStateObject obj s, Some obj))"

definition createObject ::
  "('d, 'a, 's) sdb_env \<Rightarrow> address \<Rightarrow> ('d, 'a, 's) StateDB \<Rightarrow>
   ('d, 'a, 's) StateDB \<times> 's stateObject \<times> 's stateObject option" where
  "createObject E addr s =
     (let (s1, prev) = getStateObject E addr s;
          newobj = setNonce 0 (newObject addr (newAccount E));
          s2 = (case prev of None \<Rightarrow> journaled (createObjectChange addr) s1
                | Some p \<Rightarrow> journaled (resetObjectChange p) s1)
      in (setStateObject newobj s2, newobj, prev))"

definition GetOrNewStateObject ::
  "('d, 'a, 's) sdb_env \<Rightarrow> address \<Rightarrow> ('d, 'a, 's) StateDB \<Rightarrow> ('d, 'a, 's) StateDB \<times> 's stateObject" where
  "GetOrNewStateObject E addr s =
     (let (s1, obj) = getStateObject E addr s in
      case obj of
        Some o' \<Rightarrow> if deleted o' then (case createObject E addr s1 of (s2, n, _) \<Rightarrow> (s2, n)) else (s1, o')
      | None \<Rightarrow> (case createObject E addr s1 of (s2, n, _) \<Rightarrow> (s2, n)))"

definition CreateAccount :: "('d, 'a, 's) sdb_env \<Rightarrow> address \<Rightarrow> ('d, 'a, 's) StateDB \<Rightarrow> ('d, 'a, 's) StateDB" where
  "CreateAccount E addr s =
     (let (s1, newObj, prev) = createObject E addr s in
      case prev of None \<Rightarrow> s1 | Some p \<Rightarrow> setStateObject (setBalance (acc_Balance (so_data p)) newObj) s1)"

subsubsection \<open>Reads\<close>

text \<open>A read may load the object and fill its caches.\<close>

definition Exist :: "('d, 'a, 's) sdb_env \<Rightarrow> address \<Rightarrow> ('d, 'a, 's) StateDB \<Rightarrow> ('d, 'a, 's) StateDB \<times> bool" where
  "Exist E addr s = (let (s1, obj) = getStateObject E addr s in (s1, obj \<noteq> None))"

definition Empty :: "('d, 'a, 's) sdb_env \<Rightarrow> address \<Rightarrow> ('d, 'a, 's) StateDB \<Rightarrow> ('d, 'a, 's) StateDB \<times> bool" where
  "Empty E addr s =
     (let (s1, obj) = getStateObject E addr s in (s1, case obj of None \<Rightarrow> True | Some o' \<Rightarrow> so_empty E o'))"

definition GetBalance :: "('d, 'a, 's) sdb_env \<Rightarrow> address \<Rightarrow> ('d, 'a, 's) StateDB \<Rightarrow> ('d, 'a, 's) StateDB \<times> bigint" where
  "GetBalance E addr s =
     (let (s1, obj) = getStateObject E addr s in
      (s1, case obj of None \<Rightarrow> 0 | Some o' \<Rightarrow> acc_Balance (so_data o')))"

definition GetNonce :: "('d, 'a, 's) sdb_env \<Rightarrow> address \<Rightarrow> ('d, 'a, 's) StateDB \<Rightarrow> ('d, 'a, 's) StateDB \<times> u64" where
  "GetNonce E addr s =
     (let (s1, obj) = getStateObject E addr s in
      (s1, case obj of None \<Rightarrow> 0 | Some o' \<Rightarrow> acc_Nonce (so_data o')))"

definition GetCode :: "('d, 'a, 's) sdb_env \<Rightarrow> address \<Rightarrow> ('d, 'a, 's) StateDB \<Rightarrow> ('d, 'a, 's) StateDB \<times> bytes option" where
  "GetCode E addr s =
     (let (s1, obj) = getStateObject E addr s in
      case obj of
        None \<Rightarrow> (s1, None)
      | Some o' \<Rightarrow> let (o1, c) = so_Code E (sdb_db s1) o' in (setStateObject o1 s1, c))"

text \<open>The store answers a size from its cache or by reading the code, with the same result.\<close>

definition GetCodeSize :: "('d, 'a, 's) sdb_env \<Rightarrow> address \<Rightarrow> ('d, 'a, 's) StateDB \<Rightarrow> ('d, 'a, 's) StateDB \<times> nat" where
  "GetCodeSize E addr s =
     (let (s1, obj) = getStateObject E addr s in
      case obj of
        None \<Rightarrow> (s1, 0)
      | Some o' \<Rightarrow>
          (case so_code o' of
             Some c \<Rightarrow> (s1, length c)
           | None \<Rightarrow>
               (case db_ContractCode E (sdb_db s1) (acc_CodeHash (so_data o')) of
                  Some c \<Rightarrow> (s1, length c)
                | None \<Rightarrow> (sdb_setError True s1, 0))))"

definition GetCodeHash :: "('d, 'a, 's) sdb_env \<Rightarrow> address \<Rightarrow> ('d, 'a, 's) StateDB \<Rightarrow> ('d, 'a, 's) StateDB \<times> hash" where
  "GetCodeHash E addr s =
     (let (s1, obj) = getStateObject E addr s in
      (s1, case obj of None \<Rightarrow> 0 | Some o' \<Rightarrow> acc_CodeHash (so_data o')))"

definition GetState ::
  "('d, 'a, 's) sdb_env \<Rightarrow> address \<Rightarrow> hash \<Rightarrow> ('d, 'a, 's) StateDB \<Rightarrow> ('d, 'a, 's) StateDB \<times> hash" where
  "GetState E addr key s =
     (let (s1, obj) = getStateObject E addr s in
      case obj of
        None \<Rightarrow> (s1, 0)
      | Some o' \<Rightarrow> let (o1, v) = so_GetState E (sdb_db s1) o' key in (setStateObject o1 s1, v))"

definition GetCommittedState ::
  "('d, 'a, 's) sdb_env \<Rightarrow> address \<Rightarrow> hash \<Rightarrow> ('d, 'a, 's) StateDB \<Rightarrow> ('d, 'a, 's) StateDB \<times> hash" where
  "GetCommittedState E addr key s =
     (let (s1, obj) = getStateObject E addr s in
      case obj of
        None \<Rightarrow> (s1, 0)
      | Some o' \<Rightarrow> let (o1, v) = so_GetCommittedState E (sdb_db s1) o' key in (setStateObject o1 s1, v))"

definition HasSuicided :: "('d, 'a, 's) sdb_env \<Rightarrow> address \<Rightarrow> ('d, 'a, 's) StateDB \<Rightarrow> ('d, 'a, 's) StateDB \<times> bool" where
  "HasSuicided E addr s =
     (let (s1, obj) = getStateObject E addr s in (s1, case obj of None \<Rightarrow> False | Some o' \<Rightarrow> suicided o'))"

definition GetLogs :: "hash \<Rightarrow> ('d, 'a, 's) StateDB \<Rightarrow> Log list" where
  "GetLogs h s = (case gm_get (sdb_logs s) h of None \<Rightarrow> [] | Some l \<Rightarrow> l)"

definition Logs :: "('d, 'a, 's) StateDB \<Rightarrow> Log list" where
  "Logs s = concat (map snd (sdb_logs s))"

definition GetRefund :: "('d, 'a, 's) StateDB \<Rightarrow> u64" where
  "GetRefund s = sdb_refund s"

subsubsection \<open>Writes\<close>

definition ripemd :: address where
  "ripemd = 3"

definition so_touch :: "address \<Rightarrow> ('d, 'a, 's) StateDB \<Rightarrow> ('d, 'a, 's) StateDB" where
  "so_touch a s =
     (let s1 = journaled (touchChange a) s in
      if a = ripemd then s1\<lparr>sdb_journal := journal_dirty a (sdb_journal s1)\<rparr> else s1)"

definition so_SetBalance :: "'s stateObject \<Rightarrow> bigint \<Rightarrow> ('d, 'a, 's) StateDB \<Rightarrow> ('d, 'a, 's) StateDB" where
  "so_SetBalance o' amount s =
     setStateObject (setBalance amount o')
       (journaled (balanceChange (so_address o') (acc_Balance (so_data o'))) s)"

definition so_AddBalance ::
  "('d, 'a, 's) sdb_env \<Rightarrow> 's stateObject \<Rightarrow> bigint \<Rightarrow> ('d, 'a, 's) StateDB \<Rightarrow> ('d, 'a, 's) StateDB" where
  "so_AddBalance E o' amount s =
     (if amount = 0 then (if so_empty E o' then so_touch (so_address o') s else s)
      else so_SetBalance o' (acc_Balance (so_data o') + amount) s)"

definition so_SubBalance :: "'s stateObject \<Rightarrow> bigint \<Rightarrow> ('d, 'a, 's) StateDB \<Rightarrow> ('d, 'a, 's) StateDB" where
  "so_SubBalance o' amount s =
     (if amount = 0 then s else so_SetBalance o' (acc_Balance (so_data o') - amount) s)"

definition so_SetNonce :: "'s stateObject \<Rightarrow> u64 \<Rightarrow> ('d, 'a, 's) StateDB \<Rightarrow> ('d, 'a, 's) StateDB" where
  "so_SetNonce o' nonce s =
     setStateObject (setNonce nonce o') (journaled (nonceChange (so_address o') (acc_Nonce (so_data o'))) s)"

definition so_SetCode ::
  "('d, 'a, 's) sdb_env \<Rightarrow> 's stateObject \<Rightarrow> hash \<Rightarrow> bytes \<Rightarrow> ('d, 'a, 's) StateDB \<Rightarrow> ('d, 'a, 's) StateDB" where
  "so_SetCode E o' codeHash code s =
     (let (o1, prevcode) = so_Code E (sdb_db s) o' in
      setStateObject (setCode codeHash (Some code) o1)
        (journaled (codeChange (so_address o1) prevcode (acc_CodeHash (so_data o1))) s))"

definition so_SetState ::
  "('d, 'a, 's) sdb_env \<Rightarrow> 's stateObject \<Rightarrow> hash \<Rightarrow> hash \<Rightarrow> ('d, 'a, 's) StateDB \<Rightarrow> ('d, 'a, 's) StateDB" where
  "so_SetState E o' key val s =
     (let (o1, prev) = so_GetState E (sdb_db s) o' key in
      if prev = val then setStateObject o1 s
      else setStateObject (setState key val o1) (journaled (storageChange (so_address o1) key prev) s))"

definition AddBalance ::
  "('d, 'a, 's) sdb_env \<Rightarrow> address \<Rightarrow> bigint \<Rightarrow> ('d, 'a, 's) StateDB \<Rightarrow> ('d, 'a, 's) StateDB" where
  "AddBalance E addr amount s = (let (s1, o') = GetOrNewStateObject E addr s in so_AddBalance E o' amount s1)"

definition SubBalance ::
  "('d, 'a, 's) sdb_env \<Rightarrow> address \<Rightarrow> bigint \<Rightarrow> ('d, 'a, 's) StateDB \<Rightarrow> ('d, 'a, 's) StateDB" where
  "SubBalance E addr amount s = (let (s1, o') = GetOrNewStateObject E addr s in so_SubBalance o' amount s1)"

definition SetBalance ::
  "('d, 'a, 's) sdb_env \<Rightarrow> address \<Rightarrow> bigint \<Rightarrow> ('d, 'a, 's) StateDB \<Rightarrow> ('d, 'a, 's) StateDB" where
  "SetBalance E addr amount s = (let (s1, o') = GetOrNewStateObject E addr s in so_SetBalance o' amount s1)"

definition SetNonce ::
  "('d, 'a, 's) sdb_env \<Rightarrow> address \<Rightarrow> u64 \<Rightarrow> ('d, 'a, 's) StateDB \<Rightarrow> ('d, 'a, 's) StateDB" where
  "SetNonce E addr nonce s = (let (s1, o') = GetOrNewStateObject E addr s in so_SetNonce o' nonce s1)"

definition SetCode ::
  "('d, 'a, 's) sdb_env \<Rightarrow> address \<Rightarrow> bytes \<Rightarrow> ('d, 'a, 's) StateDB \<Rightarrow> ('d, 'a, 's) StateDB" where
  "SetCode E addr code s =
     (let (s1, o') = GetOrNewStateObject E addr s in so_SetCode E o' (keccak_code E code) code s1)"

definition SetState ::
  "('d, 'a, 's) sdb_env \<Rightarrow> address \<Rightarrow> hash \<Rightarrow> hash \<Rightarrow> ('d, 'a, 's) StateDB \<Rightarrow> ('d, 'a, 's) StateDB" where
  "SetState E addr key val s = (let (s1, o') = GetOrNewStateObject E addr s in so_SetState E o' key val s1)"

definition Suicide ::
  "('d, 'a, 's) sdb_env \<Rightarrow> address \<Rightarrow> ('d, 'a, 's) StateDB \<Rightarrow> ('d, 'a, 's) StateDB \<times> bool" where
  "Suicide E addr s =
     (let (s1, obj) = getStateObject E addr s in
      case obj of
        None \<Rightarrow> (s1, False)
      | Some o' \<Rightarrow>
          (setStateObject (setBalance 0 (o'\<lparr>suicided := True\<rparr>))
             (journaled (suicideChange addr (suicided o') (acc_Balance (so_data o'))) s1), True))"

definition AddLog :: "Log \<Rightarrow> ('d, 'a, 's) StateDB \<Rightarrow> ('d, 'a, 's) StateDB" where
  "AddLog l s =
     (let s1 = journaled (addLogChange (sdb_thash s)) s;
          l1 = l\<lparr>log_TxHash := sdb_thash s, log_BlockHash := sdb_bhash s, log_TxIndex := of_int (sdb_txIndex s),
                log_Index := logSize s\<rparr>
      in s1\<lparr>sdb_logs := gm_set (sdb_thash s) (GetLogs (sdb_thash s) s @ [l1]) (sdb_logs s), logSize := logSize s + 1\<rparr>)"

definition AddPreimage :: "hash \<Rightarrow> bytes \<Rightarrow> ('d, 'a, 's) StateDB \<Rightarrow> ('d, 'a, 's) StateDB" where
  "AddPreimage h preimage s =
     (if gm_get (sdb_preimages s) h = None
      then (journaled (addPreimageChange h) s)\<lparr>sdb_preimages := gm_set h preimage (sdb_preimages s)\<rparr>
      else s)"

definition AddRefund :: "u64 \<Rightarrow> ('d, 'a, 's) StateDB \<Rightarrow> ('d, 'a, 's) StateDB" where
  "AddRefund gas s = (journaled (refundChange (sdb_refund s)) s)\<lparr>sdb_refund := sdb_refund s + gas\<rparr>"

definition SubRefund :: "u64 \<Rightarrow> ('d, 'a, 's) StateDB \<Rightarrow> ('d, 'a, 's) StateDB option" where
  "SubRefund gas s =
     (if sdb_refund s < gas then None
      else Some ((journaled (refundChange (sdb_refund s)) s)\<lparr>sdb_refund := sdb_refund s - gas\<rparr>))"

definition Prepare :: "hash \<Rightarrow> hash \<Rightarrow> i32 \<Rightarrow> ('d, 'a, 's) StateDB \<Rightarrow> ('d, 'a, 's) StateDB" where
  "Prepare th bh ti s = s\<lparr>sdb_thash := th, sdb_bhash := bh, sdb_txIndex := sint ti\<rparr>"

subsubsection \<open>Snapshots\<close>

definition with_object ::
  "('d, 'a, 's) sdb_env \<Rightarrow> address \<Rightarrow> ('s stateObject \<Rightarrow> 's stateObject) \<Rightarrow> ('d, 'a, 's) StateDB \<Rightarrow> ('d, 'a, 's) StateDB option" where
  "with_object E a f s =
     (let (s1, obj) = getStateObject E a s in
      case obj of None \<Rightarrow> None | Some o' \<Rightarrow> Some (setStateObject (f o') s1))"

text \<open>Undoing one entry; an entry of an object that is not there is a nil dereference.\<close>

fun je_revert ::
  "('d, 'a, 's) sdb_env \<Rightarrow> 's journalEntry \<Rightarrow> ('d, 'a, 's) StateDB \<Rightarrow> ('d, 'a, 's) StateDB option" where
  "je_revert E (createObjectChange a) s =
     Some (s\<lparr>stateObjects := gm_del a (stateObjects s), stateObjectsDirty := gm_del a (stateObjectsDirty s)\<rparr>)"
| "je_revert E (resetObjectChange prev) s = Some (setStateObject prev s)"
| "je_revert E (suicideChange a p b) s =
     (let (s1, obj) = getStateObject E a s in
      Some (case obj of None \<Rightarrow> s1 | Some o' \<Rightarrow> setStateObject (setBalance b (o'\<lparr>suicided := p\<rparr>)) s1))"
| "je_revert E (balanceChange a p) s = with_object E a (setBalance p) s"
| "je_revert E (nonceChange a p) s = with_object E a (setNonce p) s"
| "je_revert E (storageChange a k v) s = with_object E a (setState k v) s"
| "je_revert E (codeChange a c h) s = with_object E a (setCode h c) s"
| "je_revert E (refundChange p) s = Some (s\<lparr>sdb_refund := p\<rparr>)"
| "je_revert E (addLogChange h) s =
     (let l = GetLogs h s in
      if l = [] then None
      else Some (s\<lparr>sdb_logs := (if length l = 1 then gm_del h (sdb_logs s) else gm_set h (butlast l) (sdb_logs s)),
                   logSize := logSize s - 1\<rparr>))"
| "je_revert E (addPreimageChange h) s = Some (s\<lparr>sdb_preimages := gm_del h (sdb_preimages s)\<rparr>)"
| "je_revert E (touchChange a) s = Some s"

definition journal_undirty :: "address \<Rightarrow> 's journal \<Rightarrow> 's journal" where
  "journal_undirty a j =
     (let n = dirty_count j a - 1 in
      j\<lparr>dirties := (if n = 0 then gm_del a (dirties j) else gm_set a n (dirties j))\<rparr>)"

text \<open>One iteration of \<open>journal.revert\<close>: undo the last entry and drop its dirty mark.\<close>

definition revert_last ::
  "('d, 'a, 's) sdb_env \<Rightarrow> ('d, 'a, 's) StateDB \<Rightarrow> ('d, 'a, 's) StateDB option" where
  "revert_last E s =
     (let e = last (entries (sdb_journal s)) in
      case je_revert E e s of
        None \<Rightarrow> None
      | Some s1 \<Rightarrow>
          let j = sdb_journal s1; j1 = (case dirtied e of None \<Rightarrow> j | Some a \<Rightarrow> journal_undirty a j)
          in Some (s1\<lparr>sdb_journal := j1\<lparr>entries := butlast (entries j1)\<rparr>\<rparr>))"

fun journal_revert ::
  "('d, 'a, 's) sdb_env \<Rightarrow> nat \<Rightarrow> ('d, 'a, 's) StateDB \<Rightarrow> ('d, 'a, 's) StateDB option" where
  "journal_revert E 0 s = Some s"
| "journal_revert E (Suc n) s = (case revert_last E s of None \<Rightarrow> None | Some s1 \<Rightarrow> journal_revert E n s1)"

definition Snapshot :: "('d, 'a, 's) StateDB \<Rightarrow> ('d, 'a, 's) StateDB \<times> nat" where
  "Snapshot s =
     (let i = nextRevisionId s in
      (s\<lparr>nextRevisionId := i + 1, validRevisions := validRevisions s @ [(i, length (entries (sdb_journal s)))]\<rparr>, i))"

definition RevertToSnapshot ::
  "('d, 'a, 's) sdb_env \<Rightarrow> nat \<Rightarrow> ('d, 'a, 's) StateDB \<Rightarrow> ('d, 'a, 's) StateDB option" where
  "RevertToSnapshot E revid s =
     (let idx = sort_search (length (validRevisions s)) (\<lambda>i. revid \<le> fst (validRevisions s ! i)) in
      if idx = length (validRevisions s) \<or> fst (validRevisions s ! idx) \<noteq> revid then None
      else let snapshot = snd (validRevisions s ! idx) in
           case journal_revert E (length (entries (sdb_journal s)) - snapshot) s of
             None \<Rightarrow> None
           | Some s1 \<Rightarrow> Some (s1\<lparr>validRevisions := take idx (validRevisions s1)\<rparr>))"

subsubsection \<open>Finalising, committing and copying\<close>

definition updateStateObject :: "('d, 'a, 's) sdb_env \<Rightarrow> 's stateObject \<Rightarrow> ('d, 'a, 's) StateDB \<Rightarrow> ('d, 'a, 's) StateDB" where
  "updateStateObject E o' s =
     (let (tr, err) = at_TryUpdate E (sdb_trie s) (so_address o') (enc_Account E (so_data o'))
      in sdb_setError err (s\<lparr>sdb_trie := tr\<rparr>))"

definition deleteStateObject :: "('d, 'a, 's) sdb_env \<Rightarrow> 's stateObject \<Rightarrow> ('d, 'a, 's) StateDB \<Rightarrow> ('d, 'a, 's) StateDB" where
  "deleteStateObject E o' s =
     (let s1 = setStateObject (o'\<lparr>deleted := True\<rparr>) s; (tr, err) = at_TryDelete E (sdb_trie s1) (so_address o')
      in sdb_setError err (s1\<lparr>sdb_trie := tr\<rparr>))"

text \<open>
  The loop body of \<open>Finalise\<close>.  The type assertion on what \<open>Load\<close> returned comes before the check
  whether there was anything, so an address without a live object panics.
\<close>

definition finalise_one ::
  "('d, 'a, 's) sdb_env \<Rightarrow> bool \<Rightarrow> address \<Rightarrow> ('d, 'a, 's) StateDB \<Rightarrow> ('d, 'a, 's) StateDB option" where
  "finalise_one E deleteEmptyObjects addr s =
     (case gm_get (stateObjects s) addr of
        None \<Rightarrow> None
      | Some o' \<Rightarrow>
          let s1 = (if suicided o' \<or> deleteEmptyObjects \<and> so_empty E o' then deleteStateObject E o' s
                    else let o1 = updateRoot E (sdb_db s) o' in updateStateObject E o1 (setStateObject o1 s))
          in Some (s1\<lparr>stateObjectsDirty := gm_set addr () (stateObjectsDirty s1)\<rparr>))"

fun finalise_loop ::
  "('d, 'a, 's) sdb_env \<Rightarrow> bool \<Rightarrow> address list \<Rightarrow> ('d, 'a, 's) StateDB \<Rightarrow> ('d, 'a, 's) StateDB option" where
  "finalise_loop E de [] s = Some s"
| "finalise_loop E de (addr # addrs) s =
     (case finalise_one E de addr s of None \<Rightarrow> None | Some s1 \<Rightarrow> finalise_loop E de addrs s1)"

definition Finalise :: "('d, 'a, 's) sdb_env \<Rightarrow> bool \<Rightarrow> ('d, 'a, 's) StateDB \<Rightarrow> ('d, 'a, 's) StateDB option" where
  "Finalise E deleteEmptyObjects s =
     map_option clearJournalAndRefund (finalise_loop E deleteEmptyObjects (gm_keys (dirties (sdb_journal s))) s)"

definition IntermediateRoot ::
  "('d, 'a, 's) sdb_env \<Rightarrow> bool \<Rightarrow> ('d, 'a, 's) StateDB \<Rightarrow> (('d, 'a, 's) StateDB \<times> hash) option" where
  "IntermediateRoot E deleteEmptyObjects s =
     map_option (\<lambda>s1. (s1, at_Hash E (sdb_trie s1))) (Finalise E deleteEmptyObjects s)"

text \<open>The callback of \<open>Commit\<close> on one live object; the second component says whether to go on.\<close>

definition commit_one ::
  "('d, 'a, 's) sdb_env \<Rightarrow> bool \<Rightarrow> address \<Rightarrow> ('d, 'a, 's) StateDB \<Rightarrow> ('d, 'a, 's) StateDB \<times> bool" where
  "commit_one E deleteEmptyObjects addr s =
     (case gm_get (stateObjects s) addr of
        None \<Rightarrow> (s, True)
      | Some o' \<Rightarrow>
          let isDirty = (gm_get (stateObjectsDirty s) addr \<noteq> None);
              undirty = (\<lambda>s. s\<lparr>stateObjectsDirty := gm_del addr (stateObjectsDirty s)\<rparr>) in
          if suicided o' \<or> isDirty \<and> deleteEmptyObjects \<and> so_empty E o' then (undirty (deleteStateObject E o' s), True)
          else if isDirty
          then let (db1, o1) = (case so_code o' of
                     Some c \<Rightarrow> if dirtyCode o' then (db_InsertBlob E (sdb_db s) (acc_CodeHash (so_data o')) c, o'\<lparr>dirtyCode := False\<rparr>)
                               else (sdb_db s, o')
                   | None \<Rightarrow> (sdb_db s, o'));
                   (db2, o2, err) = CommitTrie E db1 o1;
                   s1 = setStateObject o2 (s\<lparr>sdb_db := db2\<rparr>)
               in if err then (s1, False) else (undirty (updateStateObject E o2 s1), True)
          else (undirty s, True))"

fun commit_loop ::
  "('d, 'a, 's) sdb_env \<Rightarrow> bool \<Rightarrow> address list \<Rightarrow> ('d, 'a, 's) StateDB \<Rightarrow> ('d, 'a, 's) StateDB \<times> bool" where
  "commit_loop E de [] s = (s, True)"
| "commit_loop E de (addr # addrs) s =
     (case commit_one E de addr s of (s1, go) \<Rightarrow> if go then commit_loop E de addrs s1 else (s1, False))"

text \<open>
  The result is the root and whether an error is returned.  When an object cannot be committed the
  error of the callback is shadowed: the zero root comes back with no error.
\<close>

definition Commit ::
  "('d, 'a, 's) sdb_env \<Rightarrow> bool \<Rightarrow> ('d, 'a, 's) StateDB \<Rightarrow> ('d, 'a, 's) StateDB \<times> hash \<times> bool" where
  "Commit E deleteEmptyObjects s =
     (let s1 = s\<lparr>stateObjectsDirty := fold (\<lambda>a m. gm_set a () m) (gm_keys (dirties (sdb_journal s))) (stateObjectsDirty s)\<rparr>;
          (s2, writeToTrie) = commit_loop E deleteEmptyObjects (gm_keys (stateObjects s1)) s1
      in if \<not> writeToTrie then (clearJournalAndRefund s2, 0, False)
         else case at_Commit E (sdb_db s2) (sdb_trie s2) of (db, tr, root, err) \<Rightarrow>
                (clearJournalAndRefund (s2\<lparr>sdb_db := db, sdb_trie := tr\<rparr>), root, err))"

text \<open>
  \<open>Copy\<close>: the first loop copies the live objects of the journal's dirty addresses; the second one
  meets an address only if it has no live object, and then its type assertion panics.
\<close>

definition Copy :: "('d, 'a, 's) StateDB \<Rightarrow> ('d, 'a, 's) StateDB option" where
  "Copy s =
     (let live = filter (\<lambda>a. gm_get (stateObjects s) a \<noteq> None) (gm_keys (dirties (sdb_journal s))) in
      if \<exists>a \<in> set (gm_keys (stateObjectsDirty s)). gm_get (stateObjects s) a = None then None
      else Some \<lparr>sdb_db = sdb_db s, sdb_trie = sdb_trie s,
        stateObjects = fold (\<lambda>a m. gm_set a (deepCopy (the (gm_get (stateObjects s) a))) m) live [],
        stateObjectsDirty = fold (\<lambda>a m. gm_set a () m) live [],
        sdb_dbErr = False, sdb_refund = sdb_refund s, sdb_thash = 0, sdb_bhash = 0, sdb_txIndex = 0,
        sdb_logs = sdb_logs s, logSize = logSize s, sdb_preimages = sdb_preimages s,
        sdb_journal = newJournal, validRevisions = [], nextRevisionId = 0\<rparr>)"

end
