(* ===== verification/State_View.thy ===== *)
theory State_View
  imports State_Db
begin

text \<open>
  What a transaction can observe of the state database (\<open>sdb_abs\<close>): per account its data, code,
  storage and the self-destruct mark, and the refund counter, the logs, the preimages and the
  dirty marks of the journal.  It hides which objects and slots are cached, and reading leaves it
  alone.  An undo entry of the journal acts on it (\<open>a_undo\<close>), and \<open>je_revert\<close> refines that
  (\<open>je_revert_refines\<close>).
\<close>

subsection \<open>The observable state\<close>

record account_view =
  av_data :: Account
  av_code :: "bytes option"
  av_storage :: "hash \<Rightarrow> hash"
  av_committed :: "hash \<Rightarrow> hash"
  av_suicided :: bool

definition obj_view :: "('d, 'a, 's) sdb_env \<Rightarrow> 'd \<Rightarrow> 's stateObject \<Rightarrow> account_view" where
  "obj_view E db o' =
     \<lparr>av_data = so_data o', av_code = snd (so_Code E db o'), av_storage = (\<lambda>k. snd (so_GetState E db o' k)),
      av_committed = (\<lambda>k. snd (so_GetCommittedState E db o' k)), av_suicided = suicided o'\<rparr>"

record sdb_view =
  v_account :: "address \<Rightarrow> account_view option"
  v_refund :: u64
  v_logs :: "hash \<Rightarrow> Log list"
  v_logSize :: u64
  v_preimages :: "hash \<Rightarrow> bytes option"
  v_dirty :: "address \<Rightarrow> int"

definition account_of :: "('d, 'a, 's) sdb_env \<Rightarrow> ('d, 'a, 's) StateDB \<Rightarrow> address \<Rightarrow> account_view option" where
  "account_of E s a = map_option (obj_view E (sdb_db s)) (snd (getStateObject E a s))"

text \<open>The dirty mark of the RIPEMD precompile is exempt: the journal keeps it on purpose.\<close>

definition dirty_marks :: "'s journal \<Rightarrow> address \<Rightarrow> int" where
  "dirty_marks j a = (if a = ripemd then 0 else dirty_count j a)"

definition sdb_abs :: "('d, 'a, 's) sdb_env \<Rightarrow> ('d, 'a, 's) StateDB \<Rightarrow> sdb_view" where
  "sdb_abs E s =
     \<lparr>v_account = account_of E s, v_refund = sdb_refund s, v_logs = (\<lambda>h. GetLogs h s), v_logSize = logSize s,
      v_preimages = gm_get (sdb_preimages s), v_dirty = dirty_marks (sdb_journal s)\<rparr>"

text \<open>The account that the trie holds under an address.\<close>

definition trie_account :: "('d, 'a, 's) sdb_env \<Rightarrow> 'a \<Rightarrow> address \<Rightarrow> Account option" where
  "trie_account E tr a = (let enc = fst (at_TryGet E tr a) in if enc = [] then None else dec_Account E enc)"

fun entry_ok :: "('d, 'a, 's) sdb_env \<Rightarrow> 'a \<Rightarrow> 's journalEntry \<Rightarrow> bool" where
  "entry_ok E tr (createObjectChange a) = (trie_account E tr a = None)"
| "entry_ok E tr (resetObjectChange p) = (\<not> deleted p)"
| "entry_ok E tr _ = True"

text \<open>
  Well-formedness: objects are filed under their address, an object deleted by an earlier
  transaction is no longer in the trie, and the journal entries match the trie.
\<close>

definition objs_ok :: "('d, 'a, 's) sdb_env \<Rightarrow> ('d, 'a, 's) StateDB \<Rightarrow> bool" where
  "objs_ok E s \<longleftrightarrow>
     (\<forall>a o'. gm_get (stateObjects s) a = Some o' \<longrightarrow>
        so_address o' = a \<and> (deleted o' \<longrightarrow> trie_account E (sdb_trie s) a = None \<and> (suicided o' \<or> so_empty E o')))"

definition sdb_ok :: "('d, 'a, 's) sdb_env \<Rightarrow> ('d, 'a, 's) StateDB \<Rightarrow> bool" where
  "sdb_ok E s \<longleftrightarrow> objs_ok E s \<and>
     (\<forall>e \<in> set (entries (sdb_journal s)). entry_ok E (sdb_trie s) e)"

subsection \<open>Caches are not observable\<close>

lemma getTrie_idem: "getTrie E db (fst (getTrie E db o')) = (fst (getTrie E db o'), snd (getTrie E db o'))"
  by (auto simp: getTrie_def so_setError_def split: option.splits)

lemma getTrie_fields [simp]:
  "so_address (fst (getTrie E db o')) = so_address o'" "so_data (fst (getTrie E db o')) = so_data o'"
  "so_code (fst (getTrie E db o')) = so_code o'" "originStorage (fst (getTrie E db o')) = originStorage o'"
  "dirtyStorage (fst (getTrie E db o')) = dirtyStorage o'" "suicided (fst (getTrie E db o')) = suicided o'"
  "deleted (fst (getTrie E db o')) = deleted o'"
  by (auto simp: getTrie_def so_setError_def split: option.splits)

lemma getTrie_cong:
  "so_trie p = so_trie o' \<Longrightarrow> so_address p = so_address o' \<Longrightarrow> acc_Root (so_data p) = acc_Root (so_data o') \<Longrightarrow>
   snd (getTrie E db p) = snd (getTrie E db o')"
  by (auto simp: getTrie_def split: option.splits)

text \<open>The committed value of a slot, read through the trie of the object.\<close>

definition committed :: "('d, 'a, 's) sdb_env \<Rightarrow> 'd \<Rightarrow> 's stateObject \<Rightarrow> hash \<Rightarrow> hash" where
  "committed E db o' key =
     (case gm_get (originStorage o') key of
        Some v \<Rightarrow> v
      | None \<Rightarrow> (case st_TryGet E (snd (getTrie E db o')) key of
                   (enc, err) \<Rightarrow> if err \<or> enc = [] then 0 else fst (dec_slot E enc)))"

lemma snd_GetCommittedState: "snd (so_GetCommittedState E db o' key) = committed E db o' key"
  by (auto simp: so_GetCommittedState_def committed_def Let_def split: option.splits prod.splits)

lemma snd_GetState:
  "snd (so_GetState E db o' key) = (case gm_get (dirtyStorage o') key of Some v \<Rightarrow> v | None \<Rightarrow> committed E db o' key)"
  by (auto simp: so_GetState_def snd_GetCommittedState split: option.splits)

lemma so_GetCommittedState_fields:
  "so_address (fst (so_GetCommittedState E db o' key)) = so_address o'"
  "so_data (fst (so_GetCommittedState E db o' key)) = so_data o'"
  "so_code (fst (so_GetCommittedState E db o' key)) = so_code o'"
  "dirtyStorage (fst (so_GetCommittedState E db o' key)) = dirtyStorage o'"
  "suicided (fst (so_GetCommittedState E db o' key)) = suicided o'"
  "deleted (fst (so_GetCommittedState E db o' key)) = deleted o'"
  "snd (getTrie E db (fst (so_GetCommittedState E db o' key))) = snd (getTrie E db o')"
proof -
  have tr: "snd (getTrie E db p) = snd (getTrie E db o')" if "so_trie p = so_trie (fst (getTrie E db o'))" for p
    using that by (auto simp: getTrie_def so_setError_def split: option.splits)
  show "snd (getTrie E db (fst (so_GetCommittedState E db o' key))) = snd (getTrie E db o')"
  proof (cases "gm_get (originStorage o') key")
    case None
    then show ?thesis by (intro tr) (simp add: so_GetCommittedState_def so_setError_def Let_def case_prod_unfold)
  qed (simp add: so_GetCommittedState_def)
qed (simp_all add: so_GetCommittedState_def so_setError_def Let_def case_prod_unfold split: option.split)

lemma originStorage_cached:
  assumes "gm_get (originStorage o') key = None"
  shows "gm_get (originStorage (fst (so_GetCommittedState E db o' key))) =
    (if snd (st_TryGet E (snd (getTrie E db o')) key) then gm_get (originStorage o')
     else (gm_get (originStorage o'))(key \<mapsto> committed E db o' key))"
  using assms by (simp add: so_GetCommittedState_def so_setError_def committed_def Let_def gm_get_set case_prod_unfold fun_eq_iff)

lemma committed_cached: "committed E db (fst (so_GetCommittedState E db o' key)) = committed E db o'"
proof (cases "gm_get (originStorage o') key")
  case (Some v)
  then show ?thesis by (simp add: so_GetCommittedState_def)
next
  case None
  show ?thesis
  proof
    fix k
    have "committed E db (fst (so_GetCommittedState E db o' key)) k =
        (case gm_get (originStorage (fst (so_GetCommittedState E db o' key))) k of
           Some v \<Rightarrow> v
         | None \<Rightarrow> (case st_TryGet E (snd (getTrie E db o')) k of (enc, err) \<Rightarrow> if err \<or> enc = [] then 0 else fst (dec_slot E enc)))"
      by (simp only: committed_def so_GetCommittedState_fields)
    also have "\<dots> = committed E db o' k"
      unfolding originStorage_cached[OF None] by (cases "k = key") (simp_all add: committed_def None)
    finally show "committed E db (fst (so_GetCommittedState E db o' key)) k = committed E db o' k" .
  qed
qed

definition eff_code :: "('d, 'a, 's) sdb_env \<Rightarrow> 'd \<Rightarrow> bytes option \<Rightarrow> hash \<Rightarrow> bytes option" where
  "eff_code E db c h = (if c \<noteq> None then c else if h = emptyCodeHash E then None else db_ContractCode E db h)"

lemma snd_Code: "snd (so_Code E db o') = eff_code E db (so_code o') (acc_CodeHash (so_data o'))"
  by (auto simp: so_Code_def eff_code_def Let_def)

text \<open>The dirty entries over the committed ones.\<close>

definition overlay :: "(hash, hash) gomap \<Rightarrow> (hash \<Rightarrow> hash) \<Rightarrow> hash \<Rightarrow> hash" where
  "overlay d c k = (case gm_get d k of Some v \<Rightarrow> v | None \<Rightarrow> c k)"

lemma overlay_set: "overlay (gm_set k v d) c = (overlay d c)(k := v)"
  by (auto simp: overlay_def gm_get_set fun_eq_iff)

lemma obj_view_eq:
  "obj_view E db o' =
     \<lparr>av_data = so_data o', av_code = eff_code E db (so_code o') (acc_CodeHash (so_data o')),
      av_storage = overlay (dirtyStorage o') (committed E db o'),
      av_committed = committed E db o', av_suicided = suicided o'\<rparr>"
  by (simp add: obj_view_def snd_Code snd_GetState snd_GetCommittedState overlay_def fun_eq_iff)

lemma obj_view_GetCommittedState: "obj_view E db (fst (so_GetCommittedState E db o' key)) = obj_view E db o'"
  by (simp add: obj_view_eq so_GetCommittedState_fields committed_cached)

lemma so_GetState_fields:
  "so_address (fst (so_GetState E db o' key)) = so_address o'"
  "deleted (fst (so_GetState E db o' key)) = deleted o'"
  "so_data (fst (so_GetState E db o' key)) = so_data o'"
  by (auto simp: so_GetState_def so_GetCommittedState_fields split: option.splits)

lemma obj_view_GetState: "obj_view E db (fst (so_GetState E db o' key)) = obj_view E db o'"
  by (auto simp: so_GetState_def obj_view_GetCommittedState split: option.splits)

lemma so_Code_fields:
  "so_address (fst (so_Code E db o')) = so_address o'"
  "deleted (fst (so_Code E db o')) = deleted o'"
  "so_data (fst (so_Code E db o')) = so_data o'"
  by (auto simp: so_Code_def so_setError_def Let_def)

lemma committed_cong:
  "originStorage p = originStorage o' \<Longrightarrow> so_trie p = so_trie o' \<Longrightarrow> so_address p = so_address o' \<Longrightarrow>
   acc_Root (so_data p) = acc_Root (so_data o') \<Longrightarrow> committed E db p = committed E db o'"
  by (rule ext) (simp add: committed_def getTrie_cong[of p o'] cong: option.case_cong)

lemma obj_view_Code: "obj_view E db (fst (so_Code E db o')) = obj_view E db o'"
proof -
  have "committed E db (fst (so_Code E db o')) = committed E db o'"
    by (rule committed_cong) (auto simp: so_Code_def so_setError_def Let_def)
  moreover have "eff_code E db (so_code (fst (so_Code E db o'))) (acc_CodeHash (so_data o')) = eff_code E db (so_code o') (acc_CodeHash (so_data o'))"
    by (auto simp: so_Code_def so_setError_def Let_def eff_code_def)
  ultimately show ?thesis by (simp add: obj_view_eq so_Code_fields) (simp add: so_Code_def so_setError_def Let_def)
qed

subsection \<open>Updates of an object\<close>

lemma obj_view_setBalance:
  "obj_view E db (setBalance b o') = (obj_view E db o')\<lparr>av_data := (so_data o')\<lparr>acc_Balance := b\<rparr>\<rparr>"
  using committed_cong[of "setBalance b o'" o' E db] by (simp add: obj_view_eq setBalance_def)

lemma obj_view_setNonce:
  "obj_view E db (setNonce n o') = (obj_view E db o')\<lparr>av_data := (so_data o')\<lparr>acc_Nonce := n\<rparr>\<rparr>"
  using committed_cong[of "setNonce n o'" o' E db] by (simp add: obj_view_eq setNonce_def)

lemma obj_view_setCode:
  "obj_view E db (setCode h c o') =
     (obj_view E db o')\<lparr>av_data := (so_data o')\<lparr>acc_CodeHash := h\<rparr>, av_code := eff_code E db c h\<rparr>"
  using committed_cong[of "setCode h c o'" o' E db] by (simp add: obj_view_eq setCode_def)

lemma obj_view_setState:
  "obj_view E db (setState k v o') = (obj_view E db o')\<lparr>av_storage := (av_storage (obj_view E db o'))(k := v)\<rparr>"
  using committed_cong[of "setState k v o'" o' E db] by (simp add: obj_view_eq setState_def overlay_set)

lemma obj_view_suicided:
  "obj_view E db (o'\<lparr>suicided := x\<rparr>) = (obj_view E db o')\<lparr>av_suicided := x\<rparr>"
  using committed_cong[of "o'\<lparr>suicided := x\<rparr>" o' E db] by (simp add: obj_view_eq)

lemmas obj_view_updates = obj_view_setBalance obj_view_setNonce obj_view_setCode obj_view_setState obj_view_suicided

lemma set_fields [simp]:
  "so_address (setBalance b o') = so_address o'" "deleted (setBalance b o') = deleted o'"
  "so_address (setNonce n o') = so_address o'" "deleted (setNonce n o') = deleted o'"
  "so_address (setCode h c o') = so_address o'" "deleted (setCode h c o') = deleted o'"
  "so_address (setState k v o') = so_address o'" "deleted (setState k v o') = deleted o'"
  by (simp_all add: setBalance_def setNonce_def setCode_def setState_def)

subsection \<open>Loading and storing objects\<close>

lemma newObject_fields [simp]: "so_address (newObject a d) = a" "\<not> deleted (newObject a d)"
  by (simp_all add: newObject_def)

text \<open>What looking an address up yields.\<close>

lemma snd_getStateObject:
  "snd (getStateObject E a s) =
     (case gm_get (stateObjects s) a of
        Some o' \<Rightarrow> if deleted o' then None else Some o'
      | None \<Rightarrow> map_option (newObject a) (trie_account E (sdb_trie s) a))"
  by (auto simp: getStateObject_def trie_account_def Let_def case_prod_unfold split: option.splits)

lemma getStateObject_frame:
  "sdb_trie (fst (getStateObject E a s)) = sdb_trie s" "sdb_db (fst (getStateObject E a s)) = sdb_db s"
  "sdb_journal (fst (getStateObject E a s)) = sdb_journal s" "sdb_refund (fst (getStateObject E a s)) = sdb_refund s"
  "sdb_logs (fst (getStateObject E a s)) = sdb_logs s" "logSize (fst (getStateObject E a s)) = logSize s"
  "sdb_preimages (fst (getStateObject E a s)) = sdb_preimages s"
  "validRevisions (fst (getStateObject E a s)) = validRevisions s"
  "nextRevisionId (fst (getStateObject E a s)) = nextRevisionId s"
  "sdb_thash (fst (getStateObject E a s)) = sdb_thash s"
  by (auto simp: getStateObject_def sdb_setError_def setStateObject_def Let_def case_prod_unfold split: option.splits)

lemma getStateObject_live:
  "gm_get (stateObjects (fst (getStateObject E a s))) b =
     (if b = a \<and> gm_get (stateObjects s) a = None then map_option (newObject a) (trie_account E (sdb_trie s) a)
      else gm_get (stateObjects s) b)"
  by (auto simp: getStateObject_def trie_account_def sdb_setError_def setStateObject_def gm_get_set Let_def
      case_prod_unfold split: option.splits)

lemma account_of_getStateObject [simp]: "account_of E (fst (getStateObject E a s)) = account_of E s"
  by (rule ext) (auto simp: account_of_def snd_getStateObject getStateObject_live getStateObject_frame split: option.splits)

lemma account_of_set:
  "account_of E (setStateObject o' s) =
     (account_of E s)(so_address o' := if deleted o' then None else Some (obj_view E (sdb_db s) o'))"
  by (rule ext) (auto simp: account_of_def snd_getStateObject setStateObject_def gm_get_set split: option.splits)

lemma getStateObject_Some:
  "objs_ok E s \<Longrightarrow> snd (getStateObject E a s) = Some o' \<Longrightarrow> so_address o' = a \<and> \<not> deleted o'"
  by (auto simp: snd_getStateObject objs_ok_def split: option.splits if_splits)

lemma objs_ok_getStateObject: "objs_ok E s \<Longrightarrow> objs_ok E (fst (getStateObject E a s))"
  by (auto simp: objs_ok_def getStateObject_live getStateObject_frame split: if_splits)

lemma objs_ok_set: "objs_ok E s \<Longrightarrow> \<not> deleted o' \<Longrightarrow> objs_ok E (setStateObject o' s)"
  by (auto simp: objs_ok_def setStateObject_def gm_get_set split: if_splits)

text \<open>Everything but the live objects, the journal and the observable counters.\<close>

definition same_base :: "('d, 'a, 's) StateDB \<Rightarrow> ('d, 'a, 's) StateDB \<Rightarrow> bool" where
  "same_base s s' \<longleftrightarrow> sdb_db s' = sdb_db s \<and> sdb_trie s' = sdb_trie s \<and>
     validRevisions s' = validRevisions s \<and> nextRevisionId s' = nextRevisionId s"

lemma same_base_getStateObject [simp]: "same_base s (fst (getStateObject E a s))"
  by (simp add: same_base_def getStateObject_frame)

lemma same_base_refl [simp]: "same_base s s"
  by (simp add: same_base_def)

lemma same_base_trans: "same_base s t \<Longrightarrow> same_base t u \<Longrightarrow> same_base s u"
  by (simp add: same_base_def)

lemma abs_getStateObject [simp]: "sdb_abs E (fst (getStateObject E a s)) = sdb_abs E s"
  by (simp add: sdb_abs_def getStateObject_frame GetLogs_def)

lemma abs_set:
  "sdb_abs E (setStateObject o' s) = (sdb_abs E s)\<lparr>v_account := (v_account (sdb_abs E s))
     (so_address o' := if deleted o' then None else Some (obj_view E (sdb_db s) o'))\<rparr>"
  by (simp add: sdb_abs_def account_of_set setStateObject_def[of o' s] GetLogs_def account_of_set[unfolded setStateObject_def])

lemma set_frame [simp]:
  "sdb_journal (setStateObject o' s) = sdb_journal s" "sdb_db (setStateObject o' s) = sdb_db s"
  "sdb_trie (setStateObject o' s) = sdb_trie s" "same_base s (setStateObject o' s)"
  "sdb_thash (setStateObject o' s) = sdb_thash s"
  by (simp_all add: setStateObject_def same_base_def)

subsection \<open>Undo entries on the observable state\<close>

definition upd_account :: "address \<Rightarrow> (account_view \<Rightarrow> account_view) \<Rightarrow> sdb_view \<Rightarrow> sdb_view option" where
  "upd_account a f V =
     (case v_account V a of None \<Rightarrow> None | Some v \<Rightarrow> Some (V\<lparr>v_account := (v_account V)(a \<mapsto> f v)\<rparr>))"

fun a_undo :: "('d, 'a, 's) sdb_env \<Rightarrow> 'd \<Rightarrow> 's journalEntry \<Rightarrow> sdb_view \<Rightarrow> sdb_view option" where
  "a_undo E db (createObjectChange a) V = Some (V\<lparr>v_account := (v_account V)(a := None)\<rparr>)"
| "a_undo E db (resetObjectChange p) V = Some (V\<lparr>v_account := (v_account V)(so_address p \<mapsto> obj_view E db p)\<rparr>)"
| "a_undo E db (suicideChange a p b) V =
     Some (case upd_account a (\<lambda>v. v\<lparr>av_suicided := p, av_data := (av_data v)\<lparr>acc_Balance := b\<rparr>\<rparr>) V of None \<Rightarrow> V | Some V' \<Rightarrow> V')"
| "a_undo E db (balanceChange a p) V = upd_account a (\<lambda>v. v\<lparr>av_data := (av_data v)\<lparr>acc_Balance := p\<rparr>\<rparr>) V"
| "a_undo E db (nonceChange a p) V = upd_account a (\<lambda>v. v\<lparr>av_data := (av_data v)\<lparr>acc_Nonce := p\<rparr>\<rparr>) V"
| "a_undo E db (storageChange a k w) V = upd_account a (\<lambda>v. v\<lparr>av_storage := (av_storage v)(k := w)\<rparr>) V"
| "a_undo E db (codeChange a c h) V =
     upd_account a (\<lambda>v. v\<lparr>av_data := (av_data v)\<lparr>acc_CodeHash := h\<rparr>, av_code := eff_code E db c h\<rparr>) V"
| "a_undo E db (refundChange p) V = Some (V\<lparr>v_refund := p\<rparr>)"
| "a_undo E db (addLogChange h) V =
     (if v_logs V h = [] then None
      else Some (V\<lparr>v_logs := (v_logs V)(h := butlast (v_logs V h)), v_logSize := v_logSize V - 1\<rparr>))"
| "a_undo E db (addPreimageChange h) V = Some (V\<lparr>v_preimages := (v_preimages V)(h := None)\<rparr>)"
| "a_undo E db (touchChange a) V = Some V"

definition a_undirty :: "'s journalEntry \<Rightarrow> sdb_view \<Rightarrow> sdb_view" where
  "a_undirty e V = (case dirtied e of None \<Rightarrow> V
     | Some a \<Rightarrow> if a = ripemd then V else V\<lparr>v_dirty := (v_dirty V)(a := v_dirty V a - 1)\<rparr>)"

fun a_reverts :: "('d, 'a, 's) sdb_env \<Rightarrow> 'd \<Rightarrow> 's journalEntry list \<Rightarrow> sdb_view \<Rightarrow> sdb_view option" where
  "a_reverts E db [] V = Some V"
| "a_reverts E db (e # es) V = (case a_undo E db e V of None \<Rightarrow> None | Some V' \<Rightarrow> a_reverts E db es (a_undirty e V'))"

lemma a_reverts_append:
  "a_reverts E db (es @ fs) V = (case a_reverts E db es V of None \<Rightarrow> None | Some V' \<Rightarrow> a_reverts E db fs V')"
  by (induction es arbitrary: V) (auto split: option.splits)

text \<open>The concrete undo of an entry refines the one on the observable state.\<close>

definition undo_refined ::
  "('d, 'a, 's) sdb_env \<Rightarrow> ('d, 'a, 's) StateDB \<Rightarrow> sdb_view option \<Rightarrow> ('d, 'a, 's) StateDB option \<Rightarrow> bool" where
  "undo_refined E s A r \<longleftrightarrow>
     (case A of None \<Rightarrow> r = None
      | Some V \<Rightarrow> (\<exists>s'. r = Some s' \<and> sdb_abs E s' = V \<and> objs_ok E s' \<and> sdb_journal s' = sdb_journal s \<and> same_base s s'))"

lemma with_object_refined:
  assumes ok: "objs_ok E s" and f: "\<And>o'. so_address (f o') = so_address o' \<and> deleted (f o') = deleted o'"
    and g: "\<And>o'. obj_view E (sdb_db s) (f o') = g (obj_view E (sdb_db s) o')"
  shows "undo_refined E s (upd_account a g (sdb_abs E s)) (with_object E a f s)"
proof (cases "snd (getStateObject E a s)")
  case None
  then show ?thesis
    by (simp add: undo_refined_def upd_account_def with_object_def sdb_abs_def account_of_def case_prod_unfold)
next
  case (Some o')
  let ?s = "setStateObject (f o') (fst (getStateObject E a s))"
  have o': "so_address o' = a" "\<not> deleted o'" using getStateObject_Some[OF ok Some] by auto
  have view: "v_account (sdb_abs E s) a = Some (obj_view E (sdb_db s) o')"
    using Some by (simp add: sdb_abs_def account_of_def)
  have w: "with_object E a f s = Some ?s" using Some by (simp add: with_object_def case_prod_unfold)
  have abs: "sdb_abs E ?s = (sdb_abs E s)\<lparr>v_account := (v_account (sdb_abs E s))(a \<mapsto> g (obj_view E (sdb_db s) o'))\<rparr>"
    using o' f[of o'] g by (simp add: abs_set getStateObject_frame)
  have ok': "objs_ok E ?s" using objs_ok_set[OF objs_ok_getStateObject[OF ok]] o' f by simp
  show ?thesis
    using abs w ok' same_base_trans[OF same_base_getStateObject set_frame(4)]
    by (simp add: undo_refined_def upd_account_def view getStateObject_frame)
qed

lemma undo_suicide_refined:
  assumes ok: "objs_ok E s"
  shows "undo_refined E s (a_undo E (sdb_db s) (suicideChange a p b) (sdb_abs E s)) (je_revert E (suicideChange a p b) s)"
proof -
  let ?f = "\<lambda>o'. setBalance b (o'\<lparr>suicided := p\<rparr>)"
  have *: "undo_refined E s (upd_account a (\<lambda>v. v\<lparr>av_suicided := p, av_data := (av_data v)\<lparr>acc_Balance := b\<rparr>\<rparr>) (sdb_abs E s)) (with_object E a ?f s)"
    by (rule with_object_refined[OF ok]) (simp_all add: obj_view_updates, simp add: obj_view_eq)
  show ?thesis
  proof (cases "snd (getStateObject E a s)")
    case None
    then have "v_account (sdb_abs E s) a = None" by (simp add: sdb_abs_def account_of_def)
    then show ?thesis using None ok
      by (simp add: undo_refined_def upd_account_def case_prod_unfold objs_ok_getStateObject getStateObject_frame)
  next
    case (Some o')
    then have "v_account (sdb_abs E s) a = Some (obj_view E (sdb_db s) o')" by (simp add: sdb_abs_def account_of_def)
    then show ?thesis using * Some by (simp add: undo_refined_def upd_account_def with_object_def case_prod_unfold)
  qed
qed

lemma undo_create_refined:
  assumes ok: "objs_ok E s" and e: "trie_account E (sdb_trie s) a = None"
  shows "undo_refined E s (a_undo E (sdb_db s) (createObjectChange a) (sdb_abs E s)) (je_revert E (createObjectChange a) s)"
proof -
  let ?s = "s\<lparr>stateObjects := gm_del a (stateObjects s), stateObjectsDirty := gm_del a (stateObjectsDirty s)\<rparr>"
  have "account_of E ?s = (account_of E s)(a := None)"
    using e by (auto simp: account_of_def snd_getStateObject gm_get_del fun_eq_iff split: option.splits)
  moreover have "objs_ok E ?s" using ok by (auto simp: objs_ok_def gm_get_del split: if_splits)
  ultimately show ?thesis by (simp add: undo_refined_def sdb_abs_def same_base_def GetLogs_def)
qed

lemma undo_logs_refined:
  assumes ok: "objs_ok E s"
  shows "undo_refined E s (a_undo E (sdb_db s) (addLogChange h) (sdb_abs E s)) (je_revert E (addLogChange h) s)"
proof (cases "GetLogs h s = []")
  case False
  let ?s = "s\<lparr>sdb_logs := (if length (GetLogs h s) = 1 then gm_del h (sdb_logs s) else gm_set h (butlast (GetLogs h s)) (sdb_logs s)),
                   logSize := logSize s - 1\<rparr>"
  have "GetLogs k ?s = ((\<lambda>k. GetLogs k s)(h := butlast (GetLogs h s))) k" for k
    using False by (cases "GetLogs h s" rule: rev_cases) (auto simp: GetLogs_def gm_get_del gm_get_set)
  moreover have "account_of E ?s = account_of E s" "objs_ok E ?s"
    using ok by (simp_all add: account_of_def snd_getStateObject fun_eq_iff objs_ok_def split: option.splits)
  ultimately show ?thesis using False by (simp add: undo_refined_def sdb_abs_def same_base_def fun_eq_iff Let_def)
qed (simp add: undo_refined_def sdb_abs_def Let_def)

text \<open>The account part depends on the live objects and the trie alone.\<close>

lemma account_of_cong:
  "stateObjects s' = stateObjects s \<Longrightarrow> sdb_trie s' = sdb_trie s \<Longrightarrow> sdb_db s' = sdb_db s \<Longrightarrow>
   account_of E s' = account_of E s"
  by (rule ext) (simp add: account_of_def snd_getStateObject split: option.splits)

lemma objs_ok_cong:
  "stateObjects s' = stateObjects s \<Longrightarrow> sdb_trie s' = sdb_trie s \<Longrightarrow> objs_ok E s' = objs_ok E s"
  by (simp add: objs_ok_def)

lemma je_revert_refines:
  assumes ok: "objs_ok E s" and e: "entry_ok E (sdb_trie s) e"
  shows "undo_refined E s (a_undo E (sdb_db s) e (sdb_abs E s)) (je_revert E e s)"
proof (cases e)
  case (createObjectChange a)
  then show ?thesis using undo_create_refined[OF ok] e by simp
next
  case (resetObjectChange p)
  then show ?thesis using e ok by (simp add: undo_refined_def abs_set objs_ok_set)
next
  case (suicideChange a p b)
  then show ?thesis using undo_suicide_refined[OF ok] by simp
next
  case (addLogChange h)
  then show ?thesis using undo_logs_refined[OF ok] by simp
next
  case (refundChange p)
  then show ?thesis using ok account_of_cong[of "s\<lparr>sdb_refund := p\<rparr>" s E] objs_ok_cong[of "s\<lparr>sdb_refund := p\<rparr>" s E]
    by (simp add: undo_refined_def sdb_abs_def same_base_def GetLogs_def)
next
  case (addPreimageChange h)
  let ?s = "s\<lparr>sdb_preimages := gm_del h (sdb_preimages s)\<rparr>"
  have "gm_get (sdb_preimages ?s) = (gm_get (sdb_preimages s))(h := None)" by (auto simp: gm_get_del fun_eq_iff)
  then show ?thesis using addPreimageChange ok account_of_cong[of ?s s E] objs_ok_cong[of ?s s E]
    by (simp add: undo_refined_def sdb_abs_def same_base_def GetLogs_def)
qed (auto simp: undo_refined_def[where r = "Some s"] ok obj_view_updates, (auto intro!: with_object_refined[OF ok] simp: obj_view_updates, (simp_all add: obj_view_eq)?)+)

end
