(* ===== verification/State_Revert.thy ===== *)
theory State_Revert
  imports State_View
begin

text \<open>
  Snapshots of the state database (\<open>Snapshot\<close> and \<open>RevertToSnapshot\<close> of \<open>statedb.go\<close>, \<open>journal.go\<close>).
  Every operation leaves entries in the journal that lead back to what was observable before
  it (\<open>undoable\<close>), whatever is run between a snapshot and the revert to it, nested snapshots and
  reverts included.  So \<open>RevertToSnapshot\<close> restores everything observable.
\<close>

subsection \<open>Reverting the journal\<close>

lemma dirty_marks_undirty:
  "dirty_marks (journal_undirty a j) = (if a = ripemd then dirty_marks j else (dirty_marks j)(a := dirty_marks j a - 1))"
  by (auto simp: dirty_marks_def journal_undirty_def dirty_count_def gm_get_set gm_get_del Let_def fun_eq_iff
      split: option.splits)

lemma dirty_marks_entries [simp]: "dirty_marks (j\<lparr>entries := x\<rparr>) = dirty_marks j"
  by (simp add: dirty_marks_def dirty_count_def fun_eq_iff)

lemma journal_undirty_entries [simp]: "entries (journal_undirty a j) = entries j"
  by (simp add: journal_undirty_def Let_def)

lemma abs_journal: "sdb_abs E (s\<lparr>sdb_journal := j\<rparr>) = (sdb_abs E s)\<lparr>v_dirty := dirty_marks j\<rparr>"
  using account_of_cong[of "s\<lparr>sdb_journal := j\<rparr>" s E] by (simp add: sdb_abs_def GetLogs_def)

lemma revert_last_refines:
  assumes ok: "sdb_ok E s" and es: "entries (sdb_journal s) = es @ [e]"
    and V: "a_undo E (sdb_db s) e (sdb_abs E s) = Some V"
  shows "\<exists>s'. revert_last E s = Some s' \<and> sdb_abs E s' = a_undirty e V \<and> sdb_ok E s' \<and>
    entries (sdb_journal s') = es \<and> same_base s s'"
proof -
  have "undo_refined E s (Some V) (je_revert E e s)"
    using je_revert_refines[of E s e] ok es V by (simp add: sdb_ok_def)
  then obtain s1 where s1: "je_revert E e s = Some s1" "sdb_abs E s1 = V" "objs_ok E s1"
    "sdb_journal s1 = sdb_journal s" "same_base s s1"
    by (auto simp: undo_refined_def)
  let ?j = "case dirtied e of None \<Rightarrow> sdb_journal s | Some a \<Rightarrow> journal_undirty a (sdb_journal s)"
  let ?s = "s1\<lparr>sdb_journal := ?j\<lparr>entries := butlast (entries ?j)\<rparr>\<rparr>"
  have en: "entries ?j = es @ [e]" using es by (simp split: option.split)
  have dm: "v_dirty V = dirty_marks (sdb_journal s)" using s1(2,4) by (auto simp: sdb_abs_def)
  have "sdb_abs E ?s = a_undirty e V"
    using s1(2) dm by (auto simp: abs_journal a_undirty_def dirty_marks_undirty split: option.split)
  moreover have "sdb_ok E ?s"
    using ok s1(3,5) en es objs_ok_cong[of ?s s1 E] by (auto simp: sdb_ok_def same_base_def)
  ultimately show ?thesis using s1 en es by (simp add: revert_last_def Let_def same_base_def)
qed

lemma journal_revert_refines:
  "sdb_ok E s \<Longrightarrow> entries (sdb_journal s) = es @ fs \<Longrightarrow> a_reverts E (sdb_db s) (rev fs) (sdb_abs E s) = Some V \<Longrightarrow>
   \<exists>s'. journal_revert E (length fs) s = Some s' \<and> sdb_abs E s' = V \<and> sdb_ok E s' \<and>
     entries (sdb_journal s') = es \<and> same_base s s'"
proof (induction fs arbitrary: s V rule: rev_induct)
  case Nil
  then show ?case by simp
next
  case (snoc e fs)
  obtain V1 where V1: "a_undo E (sdb_db s) e (sdb_abs E s) = Some V1"
    "a_reverts E (sdb_db s) (rev fs) (a_undirty e V1) = Some V"
    using snoc.prems(3) by (auto split: option.splits)
  obtain s1 where s1: "revert_last E s = Some s1" "sdb_abs E s1 = a_undirty e V1" "sdb_ok E s1"
    "entries (sdb_journal s1) = es @ fs" "same_base s s1"
    using revert_last_refines[OF snoc.prems(1), of "es @ fs" e V1] snoc.prems(2) V1(1) by auto
  have "a_reverts E (sdb_db s1) (rev fs) (sdb_abs E s1) = Some V" using V1(2) s1(2,5) by (simp add: same_base_def)
  from snoc.IH[OF s1(3,4) this] obtain s' where "journal_revert E (length fs) s1 = Some s'" "sdb_abs E s' = V" "sdb_ok E s'"
    "entries (sdb_journal s') = es" "same_base s1 s'" by auto
  then show ?case using s1(1) same_base_trans[OF s1(5)] by auto
qed

subsection \<open>Every operation can be undone\<close>

definition undoable :: "('d, 'a, 's) sdb_env \<Rightarrow> ('d, 'a, 's) StateDB \<Rightarrow> ('d, 'a, 's) StateDB \<Rightarrow> bool" where
  "undoable E s s' \<longleftrightarrow> sdb_ok E s' \<and> same_base s s' \<and>
     (\<exists>fs. entries (sdb_journal s') = entries (sdb_journal s) @ fs \<and>
        a_reverts E (sdb_db s) (rev fs) (sdb_abs E s') = Some (sdb_abs E s))"

lemma undoable_refl: "sdb_ok E s \<Longrightarrow> undoable E s s"
  by (simp add: undoable_def)

lemma undoable_trans: "undoable E s t \<Longrightarrow> undoable E t u \<Longrightarrow> undoable E s u"
proof -
  assume st: "undoable E s t" and tu: "undoable E t u"
  obtain fs where fs: "entries (sdb_journal t) = entries (sdb_journal s) @ fs"
    "a_reverts E (sdb_db s) (rev fs) (sdb_abs E t) = Some (sdb_abs E s)" using st by (auto simp: undoable_def)
  obtain gs where gs: "entries (sdb_journal u) = entries (sdb_journal t) @ gs"
    "a_reverts E (sdb_db t) (rev gs) (sdb_abs E u) = Some (sdb_abs E t)" using tu by (auto simp: undoable_def)
  have "a_reverts E (sdb_db s) (rev (fs @ gs)) (sdb_abs E u) = Some (sdb_abs E s)"
    using fs gs st by (simp add: a_reverts_append undoable_def same_base_def)
  then show "undoable E s u" using st tu fs(1) gs(1) same_base_trans unfolding undoable_def by (metis append.assoc)
qed

text \<open>A step that only fills caches, and a step that writes one entry.\<close>

lemma undoable_silent:
  "sdb_ok E s \<Longrightarrow> objs_ok E s' \<Longrightarrow> same_base s s' \<Longrightarrow> entries (sdb_journal s') = entries (sdb_journal s) \<Longrightarrow>
   sdb_abs E s' = sdb_abs E s \<Longrightarrow> undoable E s s'"
  by (simp add: undoable_def sdb_ok_def same_base_def)

lemma undoable_entry:
  "sdb_ok E s \<Longrightarrow> objs_ok E s' \<Longrightarrow> same_base s s' \<Longrightarrow>
   entries (sdb_journal s') = entries (sdb_journal s) @ [e] \<Longrightarrow> entry_ok E (sdb_trie s) e \<Longrightarrow>
   map_option (a_undirty e) (a_undo E (sdb_db s) e (sdb_abs E s')) = Some (sdb_abs E s) \<Longrightarrow> undoable E s s'"
  by (auto simp: undoable_def sdb_ok_def same_base_def)

text \<open>Appending an entry marks its address dirty; undoing it takes the mark away.\<close>

definition a_dirty :: "'s journalEntry \<Rightarrow> sdb_view \<Rightarrow> sdb_view" where
  "a_dirty e V = (case dirtied e of None \<Rightarrow> V
     | Some a \<Rightarrow> if a = ripemd then V else V\<lparr>v_dirty := (v_dirty V)(a := v_dirty V a + 1)\<rparr>)"

lemma a_undirty_dirty [simp]: "a_undirty e (a_dirty e V) = V"
  by (simp add: a_undirty_def a_dirty_def split: option.split)

lemma a_dirty_fields [simp]:
  "v_account (a_dirty e V) = v_account V" "v_refund (a_dirty e V) = v_refund V" "v_logs (a_dirty e V) = v_logs V"
  "v_logSize (a_dirty e V) = v_logSize V" "v_preimages (a_dirty e V) = v_preimages V"
  by (simp_all add: a_dirty_def split: option.split)

lemma dirty_marks_dirty:
  "dirty_marks (journal_dirty a j) = (if a = ripemd then dirty_marks j else (dirty_marks j)(a := dirty_marks j a + 1))"
  by (auto simp: dirty_marks_def journal_dirty_def dirty_count_def gm_get_set fun_eq_iff)

lemma abs_journaled: "sdb_abs E (journaled e s) = a_dirty e (sdb_abs E s)"
proof -
  have "v_dirty (sdb_abs E s) = dirty_marks (sdb_journal s)" by (simp add: sdb_abs_def)
  then show ?thesis
    by (auto simp: journaled_def abs_journal a_dirty_def journal_append_def dirty_marks_dirty Let_def split: option.split)
qed

lemma entries_journaled [simp]:
  "entries (sdb_journal (journaled e s)) = entries (sdb_journal s) @ [e]"
  by (simp add: journaled_def journal_append_def journal_dirty_def Let_def split: option.split)

lemma journaled_frame [simp]:
  "sdb_db (journaled e s) = sdb_db s" "sdb_trie (journaled e s) = sdb_trie s" "same_base s (journaled e s)"
  "stateObjects (journaled e s) = stateObjects s" "objs_ok E (journaled e s) = objs_ok E s"
  "sdb_refund (journaled e s) = sdb_refund s" "sdb_logs (journaled e s) = sdb_logs s" "logSize (journaled e s) = logSize s"
  "sdb_preimages (journaled e s) = sdb_preimages s"
  by (simp_all add: journaled_def same_base_def objs_ok_def)

lemma same_base_set_journaled [simp]: "same_base s (setStateObject o' (journaled e s))"
  by (rule same_base_trans[OF journaled_frame(3) set_frame(4)])

lemma same_base_set: "same_base s (setStateObject o' t) = same_base s t"
  by (simp add: same_base_def setStateObject_def)

lemma sdb_ok_objs: "sdb_ok E s \<Longrightarrow> objs_ok E s"
  by (simp add: sdb_ok_def)

text \<open>Writing an object under an entry that puts the old view of it back.\<close>

lemma undoable_write:
  assumes ok: "sdb_ok E s" and e: "entry_ok E (sdb_trie s) e" and p: "\<not> deleted p"
    and undo: "\<And>V. v_account V (so_address p) = Some (obj_view E (sdb_db s) p) \<Longrightarrow>
      a_undo E (sdb_db s) e V = Some (V\<lparr>v_account := (v_account V)(so_address p := account_of E s (so_address p))\<rparr>)"
  shows "undoable E s (setStateObject p (journaled e s))"
proof (rule undoable_entry[OF ok])
  let ?A = "sdb_abs E s"
  have acc: "v_account ?A = account_of E s" by (simp add: sdb_abs_def)
  have V: "sdb_abs E (setStateObject p (journaled e s)) =
      (a_dirty e ?A)\<lparr>v_account := (v_account ?A)(so_address p \<mapsto> obj_view E (sdb_db s) p)\<rparr>"
    using p by (simp add: abs_set abs_journaled)
  have "a_undo E (sdb_db s) e (sdb_abs E (setStateObject p (journaled e s))) = Some ((a_dirty e ?A)\<lparr>v_account := v_account ?A\<rparr>)"
    unfolding V by (subst undo) (simp_all add: acc)
  also have "(a_dirty e ?A)\<lparr>v_account := v_account ?A\<rparr> = a_dirty e ?A"
    by (simp add: a_dirty_def split: option.split)
  finally show "map_option (a_undirty e) (a_undo E (sdb_db s) e (sdb_abs E (setStateObject p (journaled e s)))) = Some ?A"
    by simp
qed (use e p ok in \<open>simp_all add: objs_ok_set sdb_ok_objs\<close>)

lemma undoable_getStateObject: "sdb_ok E s \<Longrightarrow> undoable E s (fst (getStateObject E a s))"
  by (rule undoable_silent) (simp_all add: objs_ok_getStateObject sdb_ok_objs getStateObject_frame)

lemma undoable_reload:
  assumes ok: "sdb_ok E s" and p: "\<not> deleted p" and v: "account_of E s (so_address p) = Some (obj_view E (sdb_db s) p)"
  shows "undoable E s (setStateObject p s)"
proof (rule undoable_silent[OF ok])
  have "v_account (sdb_abs E s) (so_address p) = Some (obj_view E (sdb_db s) p)" using v by (simp add: sdb_abs_def)
  then show "sdb_abs E (setStateObject p s) = sdb_abs E s" using p by (simp add: abs_set fun_upd_idem)
qed (use ok p in \<open>simp_all add: objs_ok_set sdb_ok_objs\<close>)

lemma undoable_create:
  assumes ok: "sdb_ok E s" and n: "snd (getStateObject E a s) = None" and p: "so_address p = a" "\<not> deleted p"
  shows "undoable E s (setStateObject p (journaled (createObjectChange a) s))"
proof (rule undoable_write[OF ok])
  show "entry_ok E (sdb_trie s) (createObjectChange a)"
    using n sdb_ok_objs[OF ok] by (auto simp: snd_getStateObject objs_ok_def split: option.splits if_splits)
qed (use p n in \<open>simp_all add: account_of_def\<close>)

lemma undoable_reset:
  assumes ok: "sdb_ok E s" and n: "snd (getStateObject E a s) = Some q" and p: "so_address p = a" "\<not> deleted p"
  shows "undoable E s (setStateObject p (journaled (resetObjectChange q) s))"
  using getStateObject_Some[OF sdb_ok_objs[OF ok] n] p n
  by (intro undoable_write[OF ok]) (simp_all add: account_of_def)

text \<open>An object in hand that shows what the database shows under its address.\<close>

definition in_hand :: "('d, 'a, 's) sdb_env \<Rightarrow> ('d, 'a, 's) StateDB \<Rightarrow> 's stateObject \<Rightarrow> bool" where
  "in_hand E s o' \<longleftrightarrow> account_of E s (so_address o') = Some (obj_view E (sdb_db s) o') \<and> \<not> deleted o'"

lemma in_hand_load:
  assumes "objs_ok E s" "snd (getStateObject E a s) = Some o'"
  shows "in_hand E (fst (getStateObject E a s)) o'" and "so_address o' = a"
  using getStateObject_Some[OF assms] assms(2) by (simp_all add: in_hand_def account_of_def[of E s] getStateObject_frame)

lemma getStateObject_again: "snd (getStateObject E a (fst (getStateObject E a s))) = snd (getStateObject E a s)"
  by (auto simp: snd_getStateObject getStateObject_live getStateObject_frame split: option.splits)

lemma createObject_new:
  "snd (getStateObject E a s) = None \<Longrightarrow>
   createObject E a s = (let n = setNonce 0 (newObject a (newAccount E))
     in (setStateObject n (journaled (createObjectChange a) (fst (getStateObject E a s))), n, None))"
  by (simp add: createObject_def case_prod_unfold Let_def)

lemma createObject_reset:
  "snd (getStateObject E a s) = Some p \<Longrightarrow>
   createObject E a s = (let n = setNonce 0 (newObject a (newAccount E))
     in (setStateObject n (journaled (resetObjectChange p) (fst (getStateObject E a s))), n, Some p))"
  by (simp add: createObject_def case_prod_unfold Let_def)

lemma undoable_sdb_ok: "undoable E s s' \<Longrightarrow> sdb_ok E s'"
  by (simp add: undoable_def)

lemma in_hand_stored: "\<not> deleted p \<Longrightarrow> in_hand E (setStateObject p s) p"
  by (simp add: in_hand_def account_of_set)

lemma createObject_none_undoable:
  assumes ok: "sdb_ok E s" and n: "snd (getStateObject E a s) = None"
  shows "undoable E s (fst (createObject E a s))" "in_hand E (fst (createObject E a s)) (fst (snd (createObject E a s)))"
    "so_address (fst (snd (createObject E a s))) = a"
proof -
  let ?s = "fst (getStateObject E a s)"
  have ok1: "sdb_ok E ?s" using undoable_getStateObject[OF ok] by (rule undoable_sdb_ok)
  have n1: "snd (getStateObject E a ?s) = None" using n by (simp add: getStateObject_again)
  show "undoable E s (fst (createObject E a s))"
    using undoable_trans[OF undoable_getStateObject[OF ok] undoable_create[OF ok1 n1]] n
    by (simp add: createObject_new Let_def)
qed (use n in \<open>simp_all add: createObject_new Let_def in_hand_stored\<close>)

lemma GetOrNew_undoable:
  assumes ok: "sdb_ok E s" and r: "GetOrNewStateObject E a s = (s1, o')"
  shows "undoable E s s1" "in_hand E s1 o'" "so_address o' = a"
proof -
  let ?s = "fst (getStateObject E a s)"
  have u: "undoable E s ?s" by (rule undoable_getStateObject[OF ok])
  have "undoable E s s1 \<and> in_hand E s1 o' \<and> so_address o' = a"
  proof (cases "snd (getStateObject E a s)")
    case None
    have ok1: "sdb_ok E ?s" using u by (rule undoable_sdb_ok)
    have n1: "snd (getStateObject E a ?s) = None" using None by (simp add: getStateObject_again)
    have "s1 = fst (createObject E a ?s)" "o' = fst (snd (createObject E a ?s))"
      using r None by (auto simp: GetOrNewStateObject_def case_prod_unfold Let_def)
    then show ?thesis using createObject_none_undoable[OF ok1 n1] undoable_trans[OF u] by simp
  next
    case (Some q)
    then show ?thesis using r u in_hand_load[OF sdb_ok_objs[OF ok] Some] getStateObject_Some[OF sdb_ok_objs[OF ok] Some]
      by (simp add: GetOrNewStateObject_def case_prod_unfold Let_def)
  qed
  then show "undoable E s s1" "in_hand E s1 o'" "so_address o' = a" by auto
qed

subsubsection \<open>Writes to an object\<close>

lemma so_SetBalance_undoable: "sdb_ok E s \<Longrightarrow> in_hand E s o' \<Longrightarrow> undoable E s (so_SetBalance o' b s)"
  unfolding so_SetBalance_def
  by (rule undoable_write) (simp_all add: in_hand_def upd_account_def obj_view_updates, simp add: obj_view_eq)

lemma so_SetNonce_undoable: "sdb_ok E s \<Longrightarrow> in_hand E s o' \<Longrightarrow> undoable E s (so_SetNonce o' n s)"
  unfolding so_SetNonce_def
  by (rule undoable_write) (simp_all add: in_hand_def upd_account_def obj_view_updates, simp add: obj_view_eq)

lemma undoable_mark_ripemd:
  assumes ok: "sdb_ok E s"
  shows "undoable E s (s\<lparr>sdb_journal := journal_dirty ripemd (sdb_journal s)\<rparr>)"
proof (rule undoable_silent[OF ok])
  have "v_dirty (sdb_abs E s) = dirty_marks (sdb_journal s)" by (simp add: sdb_abs_def)
  then show "sdb_abs E (s\<lparr>sdb_journal := journal_dirty ripemd (sdb_journal s)\<rparr>) = sdb_abs E s"
    by (simp add: abs_journal dirty_marks_dirty)
qed (use sdb_ok_objs[OF ok] in \<open>simp_all add: objs_ok_def same_base_def journal_dirty_def\<close>)

lemma so_touch_undoable: "sdb_ok E s \<Longrightarrow> undoable E s (so_touch a s)"
proof -
  assume ok: "sdb_ok E s"
  have u: "undoable E s (journaled (touchChange a) s)"
    by (rule undoable_entry[OF ok, of _ "touchChange a"]) (simp_all add: ok sdb_ok_objs abs_journaled)
  show ?thesis using u undoable_trans[OF u undoable_mark_ripemd[OF undoable_sdb_ok[OF u]]]
    by (auto simp: so_touch_def Let_def)
qed

lemma so_SetCode_undoable:
  assumes ok: "sdb_ok E s" and h: "in_hand E s o'"
  shows "undoable E s (so_SetCode E o' ch c s)"
proof -
  let ?o = "fst (so_Code E (sdb_db s) o')" and ?c = "snd (so_Code E (sdb_db s) o')"
  have v: "obj_view E (sdb_db s) ?o = obj_view E (sdb_db s) o'" by (rule obj_view_Code)
  have c: "eff_code E (sdb_db s) ?c (acc_CodeHash (so_data o')) = ?c"
    by (simp add: snd_Code) (simp add: eff_code_def)
  have "undoable E s (setStateObject (setCode ch (Some c) ?o) (journaled (codeChange (so_address o') ?c (acc_CodeHash (so_data o'))) s))"
  proof (rule undoable_write[OF ok])
    fix V :: sdb_view
    assume V: "v_account V (so_address (setCode ch (Some c) ?o)) = Some (obj_view E (sdb_db s) (setCode ch (Some c) ?o))"
    show "a_undo E (sdb_db s) (codeChange (so_address o') ?c (acc_CodeHash (so_data o'))) V =
      Some (V\<lparr>v_account := (v_account V)(so_address (setCode ch (Some c) ?o) := account_of E s (so_address (setCode ch (Some c) ?o)))\<rparr>)"
      using V h c by (simp add: in_hand_def upd_account_def obj_view_updates so_Code_fields v) (simp add: obj_view_eq snd_Code)
  qed (use h in \<open>simp_all add: in_hand_def so_Code_fields\<close>)
  then show ?thesis by (simp add: so_SetCode_def Let_def case_prod_unfold so_Code_fields)
qed

lemma so_SetState_undoable:
  assumes ok: "sdb_ok E s" and h: "in_hand E s o'"
  shows "undoable E s (so_SetState E o' k val s)"
proof -
  let ?o = "fst (so_GetState E (sdb_db s) o' k)" and ?p = "snd (so_GetState E (sdb_db s) o' k)"
  have v: "obj_view E (sdb_db s) ?o = obj_view E (sdb_db s) o'" by (rule obj_view_GetState)
  have p: "av_storage (obj_view E (sdb_db s) o') k = ?p" by (simp add: obj_view_def)
  have "undoable E s (setStateObject ?o s)"
    using undoable_reload[OF ok, of ?o] h by (simp add: in_hand_def so_GetState_fields v)
  moreover have "undoable E s (setStateObject (setState k val ?o) (journaled (storageChange (so_address o') k ?p) s))"
    by (rule undoable_write[OF ok])
      (use h p in \<open>simp_all add: in_hand_def upd_account_def obj_view_updates so_GetState_fields v fun_upd_idem\<close>)
  ultimately show ?thesis by (simp add: so_SetState_def Let_def case_prod_unfold so_GetState_fields)
qed

subsubsection \<open>Operations of the database\<close>

lemma so_AddBalance_undoable: "sdb_ok E s \<Longrightarrow> in_hand E s o' \<Longrightarrow> undoable E s (so_AddBalance E o' b s)"
  by (simp add: so_AddBalance_def so_SetBalance_undoable so_touch_undoable undoable_refl)

lemma so_SubBalance_undoable: "sdb_ok E s \<Longrightarrow> in_hand E s o' \<Longrightarrow> undoable E s (so_SubBalance o' b s)"
  by (simp add: so_SubBalance_def so_SetBalance_undoable undoable_refl)

lemma via_GetOrNew:
  assumes ok: "sdb_ok E s" and f: "\<And>s1 o'. sdb_ok E s1 \<Longrightarrow> in_hand E s1 o' \<Longrightarrow> undoable E s1 (f o' s1)"
  shows "undoable E s (let (s1, o') = GetOrNewStateObject E a s in f o' s1)"
proof -
  obtain s1 o' where r: "GetOrNewStateObject E a s = (s1, o')" by force
  note g = GetOrNew_undoable[OF ok r]
  show ?thesis using undoable_trans[OF g(1) f[OF undoable_sdb_ok[OF g(1)] g(2)]] by (simp add: r)
qed

lemma object_writes_undoable:
  assumes ok: "sdb_ok E s"
  shows "undoable E s (AddBalance E a b s)" "undoable E s (SubBalance E a b s)" "undoable E s (SetBalance E a b s)"
    "undoable E s (SetNonce E a n s)" "undoable E s (SetCode E a c s)" "undoable E s (SetState E a k v s)"
  unfolding AddBalance_def SubBalance_def SetBalance_def SetNonce_def SetCode_def SetState_def
  by (intro via_GetOrNew[OF ok] so_AddBalance_undoable so_SubBalance_undoable so_SetBalance_undoable
      so_SetNonce_undoable so_SetCode_undoable so_SetState_undoable; assumption)+

lemma Suicide_undoable:
  assumes ok: "sdb_ok E s"
  shows "undoable E s (fst (Suicide E a s))"
proof (cases "snd (getStateObject E a s)")
  case None
  then show ?thesis using undoable_getStateObject[OF ok] by (simp add: Suicide_def case_prod_unfold Let_def)
next
  case (Some o')
  let ?s = "fst (getStateObject E a s)" and ?p = "setBalance 0 (o'\<lparr>suicided := True\<rparr>)"
  note h = in_hand_load[OF sdb_ok_objs[OF ok] Some]
  have ok1: "sdb_ok E ?s" by (rule undoable_sdb_ok[OF undoable_getStateObject[OF ok]])
  have "undoable E ?s (setStateObject ?p (journaled (suicideChange a (suicided o') (acc_Balance (so_data o'))) ?s))"
    by (rule undoable_write[OF ok1])
      (use h in \<open>simp_all add: in_hand_def upd_account_def obj_view_updates\<close>, simp add: obj_view_eq)
  then show ?thesis using Some undoable_trans[OF undoable_getStateObject[OF ok]]
    by (simp add: Suicide_def case_prod_unfold Let_def)
qed

lemma CreateAccount_undoable:
  assumes ok: "sdb_ok E s"
  shows "undoable E s (CreateAccount E a s)"
proof (cases "snd (getStateObject E a s)")
  case None
  then show ?thesis using createObject_none_undoable(1)[OF ok None] by (simp add: CreateAccount_def createObject_new Let_def)
next
  case (Some q)
  let ?s = "fst (getStateObject E a s)" and ?n = "setNonce 0 (newObject a (newAccount E))"
  let ?p = "setBalance (acc_Balance (so_data q)) ?n"
  let ?t = "journaled (resetObjectChange q) ?s"
  have ok1: "sdb_ok E ?s" by (rule undoable_sdb_ok[OF undoable_getStateObject[OF ok]])
  have q: "snd (getStateObject E a ?s) = Some q" using Some by (simp add: getStateObject_again)
  have eq: "sdb_abs E (setStateObject ?p (setStateObject ?n ?t)) = sdb_abs E (setStateObject ?p ?t)"
    by (simp add: abs_set)
  have u: "undoable E ?s (setStateObject ?p ?t)" by (rule undoable_reset[OF ok1 q]) simp_all
  then have "undoable E ?s (setStateObject ?p (setStateObject ?n ?t))"
    using sdb_ok_objs[OF undoable_sdb_ok[OF undoable_reset[OF ok1 q, of ?n]]]
    by (simp add: undoable_def eq sdb_ok_def objs_ok_set same_base_set)
  then show ?thesis using undoable_trans[OF undoable_getStateObject[OF ok]] Some
    by (simp add: CreateAccount_def createObject_reset Let_def)
qed

definition stamped_log :: "Log \<Rightarrow> ('d, 'a, 's) StateDB \<Rightarrow> Log" where
  "stamped_log l s = l\<lparr>log_TxHash := sdb_thash s, log_BlockHash := sdb_bhash s, log_TxIndex := of_int (sdb_txIndex s),
     log_Index := logSize s\<rparr>"

lemma AddLog_undoable: "sdb_ok E s \<Longrightarrow> undoable E s (AddLog l s)"
proof (rule undoable_entry[of _ _ _ "addLogChange (sdb_thash s)"])
  assume ok: "sdb_ok E s"
  show "objs_ok E (AddLog l s)" "same_base s (AddLog l s)"
    "entries (sdb_journal (AddLog l s)) = entries (sdb_journal s) @ [addLogChange (sdb_thash s)]"
    using sdb_ok_objs[OF ok] by (simp_all add: AddLog_def Let_def objs_ok_def same_base_def journaled_def journal_append_def)
  have "account_of E (AddLog l s) = account_of E s"
    by (rule account_of_cong) (simp_all add: AddLog_def Let_def)
  moreover have "GetLogs h (AddLog l s) = (if h = sdb_thash s then GetLogs h s @ [stamped_log l s] else GetLogs h s)" for h
    by (simp add: AddLog_def Let_def GetLogs_def gm_get_set stamped_log_def)
  moreover have "dirty_marks (sdb_journal (AddLog l s)) = dirty_marks (sdb_journal s)"
    by (simp add: AddLog_def journaled_def journal_append_def Let_def)
  ultimately show "map_option (a_undirty (addLogChange (sdb_thash s)))
      (a_undo E (sdb_db s) (addLogChange (sdb_thash s)) (sdb_abs E (AddLog l s))) = Some (sdb_abs E s)"
    by (auto simp: sdb_abs_def a_undirty_def AddLog_def[of l s] Let_def journaled_def fun_eq_iff)
qed simp_all

lemma AddPreimage_undoable:
  assumes ok: "sdb_ok E s"
  shows "undoable E s (AddPreimage h b s)"
proof (cases "gm_get (sdb_preimages s) h")
  case None
  let ?s = "(journaled (addPreimageChange h) s)\<lparr>sdb_preimages := gm_set h b (sdb_preimages s)\<rparr>"
  have "account_of E ?s = account_of E s" by (rule account_of_cong) simp_all
  moreover have "gm_get (sdb_preimages ?s) = (gm_get (sdb_preimages s))(h \<mapsto> b)" by (auto simp: gm_get_set)
  moreover have "dirty_marks (sdb_journal ?s) = dirty_marks (sdb_journal s)" by (simp add: journaled_def journal_append_def Let_def)
  ultimately have "undoable E s ?s" using sdb_ok_objs[OF ok] None
    by (intro undoable_entry[OF ok, of _ "addPreimageChange h"])
      (simp_all add: objs_ok_def same_base_def sdb_abs_def GetLogs_def a_undirty_def, auto simp: journaled_def fun_eq_iff)
  then show ?thesis using None by (simp add: AddPreimage_def)
qed (simp add: AddPreimage_def undoable_refl[OF ok])

lemma set_refund_undoable:
  assumes ok: "sdb_ok E s"
  shows "undoable E s ((journaled (refundChange (sdb_refund s)) s)\<lparr>sdb_refund := r\<rparr>)"
proof -
  let ?s = "(journaled (refundChange (sdb_refund s)) s)\<lparr>sdb_refund := r\<rparr>"
  have "account_of E ?s = account_of E s" by (rule account_of_cong) simp_all
  moreover have "dirty_marks (sdb_journal ?s) = dirty_marks (sdb_journal s)" by (simp add: journaled_def journal_append_def Let_def)
  ultimately show ?thesis using sdb_ok_objs[OF ok]
    by (intro undoable_entry[OF ok, of _ "refundChange (sdb_refund s)"])
      (simp_all add: objs_ok_def same_base_def sdb_abs_def GetLogs_def a_undirty_def, simp add: journaled_def)
qed

subsubsection \<open>Reads\<close>

lemma reload_undoable:
  assumes ok: "sdb_ok E s" and o': "snd (getStateObject E a s) = Some o'"
    and p: "so_address p = so_address o'" "deleted p = deleted o'" "obj_view E (sdb_db s) p = obj_view E (sdb_db s) o'"
  shows "undoable E s (setStateObject p (fst (getStateObject E a s)))"
proof -
  note u = undoable_getStateObject[OF ok, of a]
  have "undoable E (fst (getStateObject E a s)) (setStateObject p (fst (getStateObject E a s)))"
    using in_hand_load[OF sdb_ok_objs[OF ok] o'] p
    by (intro undoable_reload undoable_sdb_ok[OF u]) (simp_all add: in_hand_def getStateObject_frame)
  then show ?thesis using undoable_trans[OF u] by simp
qed

lemma cached_reads_undoable:
  assumes ok: "sdb_ok E s"
  shows "undoable E s (fst (GetCode E a s))" "undoable E s (fst (GetState E a k s))"
    "undoable E s (fst (GetCommittedState E a k s))"
  using undoable_getStateObject[OF ok, of a]
  by (auto simp: GetCode_def GetState_def GetCommittedState_def case_prod_unfold Let_def getStateObject_frame
      so_Code_fields obj_view_Code so_GetState_fields obj_view_GetState so_GetCommittedState_fields obj_view_GetCommittedState
      split: option.split intro!: reload_undoable[OF ok])

lemma plain_reads_undoable:
  assumes ok: "sdb_ok E s"
  shows "undoable E s (fst (Exist E a s))" "undoable E s (fst (Empty E a s))" "undoable E s (fst (GetBalance E a s))"
    "undoable E s (fst (GetNonce E a s))" "undoable E s (fst (GetCodeHash E a s))" "undoable E s (fst (HasSuicided E a s))"
  using undoable_getStateObject[OF ok, of a]
  by (simp_all add: Exist_def Empty_def GetBalance_def GetNonce_def GetCodeHash_def HasSuicided_def case_prod_unfold Let_def)

subsection \<open>Runs of operations\<close>

text \<open>The operations that the interpreter and the state transition call on the database.\<close>

datatype sdb_op =
    OpCreateAccount address
  | OpAddBalance address bigint
  | OpSubBalance address bigint
  | OpSetBalance address bigint
  | OpSetNonce address u64
  | OpSetCode address bytes
  | OpSetState address hash hash
  | OpSuicide address
  | OpAddLog Log
  | OpAddPreimage hash bytes
  | OpAddRefund u64
  | OpSubRefund u64
  | OpExist address
  | OpEmpty address
  | OpGetBalance address
  | OpGetNonce address
  | OpGetCodeHash address
  | OpHasSuicided address
  | OpGetCode address
  | OpGetState address hash
  | OpGetCommittedState address hash
  | OpSnapshot
  | OpRevert nat

fun sdb_do :: "('d, 'a, 's) sdb_env \<Rightarrow> sdb_op \<Rightarrow> ('d, 'a, 's) StateDB \<Rightarrow> ('d, 'a, 's) StateDB option" where
  "sdb_do E (OpCreateAccount a) s = Some (CreateAccount E a s)"
| "sdb_do E (OpAddBalance a b) s = Some (AddBalance E a b s)"
| "sdb_do E (OpSubBalance a b) s = Some (SubBalance E a b s)"
| "sdb_do E (OpSetBalance a b) s = Some (SetBalance E a b s)"
| "sdb_do E (OpSetNonce a n) s = Some (SetNonce E a n s)"
| "sdb_do E (OpSetCode a c) s = Some (SetCode E a c s)"
| "sdb_do E (OpSetState a k v) s = Some (SetState E a k v s)"
| "sdb_do E (OpSuicide a) s = Some (fst (Suicide E a s))"
| "sdb_do E (OpAddLog l) s = Some (AddLog l s)"
| "sdb_do E (OpAddPreimage h b) s = Some (AddPreimage h b s)"
| "sdb_do E (OpAddRefund g) s = Some (AddRefund g s)"
| "sdb_do E (OpSubRefund g) s = SubRefund g s"
| "sdb_do E (OpExist a) s = Some (fst (Exist E a s))"
| "sdb_do E (OpEmpty a) s = Some (fst (Empty E a s))"
| "sdb_do E (OpGetBalance a) s = Some (fst (GetBalance E a s))"
| "sdb_do E (OpGetNonce a) s = Some (fst (GetNonce E a s))"
| "sdb_do E (OpGetCodeHash a) s = Some (fst (GetCodeHash E a s))"
| "sdb_do E (OpHasSuicided a) s = Some (fst (HasSuicided E a s))"
| "sdb_do E (OpGetCode a) s = Some (fst (GetCode E a s))"
| "sdb_do E (OpGetState a k) s = Some (fst (GetState E a k s))"
| "sdb_do E (OpGetCommittedState a k) s = Some (fst (GetCommittedState E a k s))"
| "sdb_do E OpSnapshot s = Some (fst (Snapshot s))"
| "sdb_do E (OpRevert i) s = RevertToSnapshot E i s"

fun sdb_run :: "('d, 'a, 's) sdb_env \<Rightarrow> sdb_op list \<Rightarrow> ('d, 'a, 's) StateDB \<Rightarrow> ('d, 'a, 's) StateDB option" where
  "sdb_run E [] s = Some s"
| "sdb_run E (p # ps) s = (case sdb_do E p s of None \<Rightarrow> None | Some s1 \<Rightarrow> sdb_run E ps s1)"

text \<open>An operation that leaves the revisions up to \<open>i\<close> alone: it reverts to a later one at most.\<close>

fun inner_op :: "nat \<Rightarrow> sdb_op \<Rightarrow> bool" where
  "inner_op i (OpRevert j) = (i < j)"
| "inner_op i _ = True"

fun plain_op :: "sdb_op \<Rightarrow> bool" where
  "plain_op (OpRevert j) = False"
| "plain_op OpSnapshot = False"
| "plain_op _ = True"

lemma plain_op_undoable:
  assumes ok: "sdb_ok E s"
  shows "plain_op p \<Longrightarrow> sdb_do E p s = Some s' \<Longrightarrow> undoable E s s'"
  by (cases p)
    (auto simp: CreateAccount_undoable[OF ok] object_writes_undoable[OF ok] Suicide_undoable[OF ok] AddLog_undoable[OF ok]
      AddPreimage_undoable[OF ok] AddRefund_def SubRefund_def set_refund_undoable[OF ok] plain_reads_undoable[OF ok]
      cached_reads_undoable[OF ok] split: if_splits)

subsection \<open>Revisions\<close>

text \<open>
  The snapshots taken so far have increasing identifiers below the next one, and refer to
  increasing positions of the journal.
\<close>

definition revs_ok :: "('d, 'a, 's) StateDB \<Rightarrow> bool" where
  "revs_ok s \<longleftrightarrow> sorted_wrt (<) (map fst (validRevisions s) @ [nextRevisionId s]) \<and>
     sorted (map snd (validRevisions s) @ [length (entries (sdb_journal s))])"

lemma find_revision:
  fixes i :: nat
  assumes "sorted_wrt (<) (map fst (A @ (i, n) # B))"
  shows "sort_search (length (A @ (i, n) # B)) (\<lambda>k. i \<le> fst ((A @ (i, n) # B) ! k)) = length A"
proof -
  let ?R = "A @ (i, n) # B" and ?f = "\<lambda>k. i \<le> fst ((A @ (i, n) # B) ! k)"
  have lt: "fst (?R ! k) < fst (?R ! l)" if "k < l" "l < length ?R" for k l
    using sorted_wrt_nth_less[OF assms that(1)] that nth_map[of k ?R fst] nth_map[of l ?R fst] by simp
  have mono: "?f l" if "?f k" "k \<le> l" "l < length ?R" for k l
    using that lt[of k l] by (cases "k = l") auto
  note c = sort_search_correct[of ?f "length ?R", OF mono]
  have A: "?f (length A)" by simp
  show ?thesis
  proof (rule antisym)
    show "sort_search (length ?R) ?f \<le> length A" using c(2)[where k = "length A"] A by (meson not_le)
    show "length A \<le> sort_search (length ?R) ?f"
    proof (rule ccontr)
      assume "\<not> length A \<le> sort_search (length ?R) ?f"
      then have lt': "sort_search (length ?R) ?f < length A" by simp
      then have "?f (sort_search (length ?R) ?f)" using c(3)[where k = "sort_search (length ?R) ?f"] by simp
      moreover have "fst (?R ! sort_search (length ?R) ?f) < fst (?R ! length A)" using lt[OF lt'] by simp
      ultimately show False by simp
    qed
  qed
qed

lemma RevertToSnapshot_spec:
  assumes ok: "sdb_ok E s" and R: "revs_ok s" and v: "validRevisions s = A @ (i, length es) # B"
    and es: "entries (sdb_journal s) = es @ fs" and V: "a_reverts E (sdb_db s) (rev fs) (sdb_abs E s) = Some V"
  shows "\<exists>s'. RevertToSnapshot E i s = Some s' \<and> sdb_abs E s' = V \<and> sdb_ok E s' \<and> revs_ok s' \<and>
    entries (sdb_journal s') = es \<and> validRevisions s' = A \<and> sdb_db s' = sdb_db s \<and> sdb_trie s' = sdb_trie s \<and>
    nextRevisionId s' = nextRevisionId s"
proof -
  obtain s1 where s1: "journal_revert E (length fs) s = Some s1" "sdb_abs E s1 = V" "sdb_ok E s1"
    "entries (sdb_journal s1) = es" "same_base s s1" using journal_revert_refines[OF ok es V] by auto
  have srt: "sorted_wrt (<) (map fst (A @ (i, length es) # B))" using R v by (simp add: revs_ok_def sorted_wrt_append)
  have idx: "sort_search (length (validRevisions s)) (\<lambda>k. i \<le> fst (validRevisions s ! k)) = length A"
    unfolding v by (rule find_revision[OF srt])
  let ?s = "s1\<lparr>validRevisions := A\<rparr>"
  have r: "RevertToSnapshot E i s = Some ?s"
    unfolding RevertToSnapshot_def Let_def idx using s1(1,5) es by (simp add: v same_base_def)
  have "sdb_abs E ?s = V" using s1(2) account_of_cong[of ?s s1 E] by (simp add: sdb_abs_def GetLogs_def)
  moreover have "sdb_ok E ?s" using s1(3) by (simp add: sdb_ok_def objs_ok_def)
  moreover have "revs_ok ?s" using R v s1(4,5) by (auto simp: revs_ok_def same_base_def sorted_wrt_append)
  ultimately show ?thesis using r s1(4,5) by (simp add: same_base_def)
qed

lemma sort_search_loop_bound: "i \<le> j \<Longrightarrow> sort_search_loop f i j \<le> j"
proof (induction "j - i" arbitrary: i j rule: less_induct)
  case less
  define h where "h = (i + j) div 2"
  have h: "i \<le> h" "h < j" "h - i < j - i" "j - (h + 1) < j - i" if "i < j" using that by (auto simp: h_def)
  have "sort_search_loop f i h \<le> j" "sort_search_loop f (h + 1) j \<le> j" if "i < j"
    using less.hyps[of j "h + 1"] less.hyps[of h i] h[OF that] by simp_all
  then show ?case using less.prems by (subst sort_search_loop.simps) (simp add: Let_def h_def[symmetric])
qed

lemma RevertToSnapshot_known:
  assumes "RevertToSnapshot E j s = Some s'"
  shows "\<exists>A n B. validRevisions s = A @ (j, n) # B"
proof -
  let ?idx = "sort_search (length (validRevisions s)) (\<lambda>i. j \<le> fst (validRevisions s ! i))"
  have mono: "?idx \<le> length (validRevisions s) \<Longrightarrow> ?idx < length (validRevisions s)" "fst (validRevisions s ! ?idx) = j"
    using assms by (auto simp: RevertToSnapshot_def Let_def split: if_splits)
  have "?idx \<le> length (validRevisions s)" unfolding sort_search_def by (rule sort_search_loop_bound) simp
  then have "validRevisions s ! ?idx \<in> set (validRevisions s)" using mono(1) by simp
  then show ?thesis using mono(2) by (metis prod.collapse split_list)
qed

subsection \<open>Between a snapshot and the revert to it\<close>

definition within :: "('d, 'a, 's) sdb_env \<Rightarrow> ('d, 'a, 's) StateDB \<Rightarrow> ('d, 'a, 's) StateDB \<Rightarrow> bool" where
  "within E s0 s \<longleftrightarrow> sdb_ok E s \<and> revs_ok s \<and> sdb_db s = sdb_db s0 \<and> sdb_trie s = sdb_trie s0 \<and>
     (\<exists>fs rs. validRevisions s = validRevisions s0 @ (nextRevisionId s0, length (entries (sdb_journal s0))) # rs \<and>
        entries (sdb_journal s) = entries (sdb_journal s0) @ fs \<and>
        a_reverts E (sdb_db s0) (rev fs) (sdb_abs E s) = Some (sdb_abs E s0))"

lemma abs_Snapshot [simp]: "sdb_abs E (fst (Snapshot s)) = sdb_abs E s"
  using account_of_cong[of "fst (Snapshot s)" s E] by (simp add: sdb_abs_def GetLogs_def Snapshot_def Let_def)

lemma sdb_ok_Snapshot: "sdb_ok E s \<Longrightarrow> sdb_ok E (fst (Snapshot s))"
  by (simp add: sdb_ok_def objs_ok_def Snapshot_def Let_def)

lemma revs_ok_Snapshot: "revs_ok s \<Longrightarrow> revs_ok (fst (Snapshot s))"
  by (auto simp: revs_ok_def Snapshot_def Let_def sorted_wrt_append less_Suc_eq)

lemma within_start: "sdb_ok E s \<Longrightarrow> revs_ok s \<Longrightarrow> within E s (fst (Snapshot s))"
  by (simp add: within_def sdb_ok_Snapshot revs_ok_Snapshot, simp add: Snapshot_def Let_def)

lemma within_Snapshot: "within E s0 s \<Longrightarrow> within E s0 (fst (Snapshot s))"
  by (auto simp: within_def sdb_ok_Snapshot revs_ok_Snapshot) (auto simp: Snapshot_def Let_def)

lemma within_undoable:
  assumes w: "within E s0 s" and u: "undoable E s s'"
  shows "within E s0 s'"
proof -
  obtain fs rs where f: "validRevisions s = validRevisions s0 @ (nextRevisionId s0, length (entries (sdb_journal s0))) # rs"
    "entries (sdb_journal s) = entries (sdb_journal s0) @ fs"
    "a_reverts E (sdb_db s0) (rev fs) (sdb_abs E s) = Some (sdb_abs E s0)" using w by (auto simp: within_def)
  obtain gs where g: "entries (sdb_journal s') = entries (sdb_journal s) @ gs"
    "a_reverts E (sdb_db s) (rev gs) (sdb_abs E s') = Some (sdb_abs E s)" using u by (auto simp: undoable_def)
  have "a_reverts E (sdb_db s0) (rev (fs @ gs)) (sdb_abs E s') = Some (sdb_abs E s0)"
    using f(3) g(2) w by (simp add: a_reverts_append within_def)
  moreover have "revs_ok s'"
    using w u g(1) by (fastforce simp: within_def undoable_def revs_ok_def same_base_def sorted_wrt_append)
  ultimately show ?thesis using w u f(1,2) g(1) by (auto simp: within_def undoable_def same_base_def)
qed

lemma increasing_split:
  assumes "sorted_wrt (<) (map fst (R0 @ (i, n0) # rs))" and "R0 @ (i, n0) # rs = A @ (j, n) # B" and "(i::nat) < j"
  shows "\<exists>rs'. A = R0 @ (i, n0) # rs'"
proof -
  have lt: "k < j" if "(k, m) \<in> set A" for k m
    using assms(1) that unfolding assms(2) by (fastforce simp: sorted_wrt_append)
  have gt: "j < k" if "(k, m) \<in> set B" for k m
    using assms(1) that unfolding assms(2) by (fastforce simp: sorted_wrt_append)
  have "(i, n0) \<in> set (A @ (j, n) # B)" using assms(2) by (metis in_set_conv_decomp)
  then have iA: "(i, n0) \<in> set A" using assms(3) gt by fastforce
  have nR: "(j, n) \<notin> set R0" using assms(1,3) by (fastforce simp: sorted_wrt_append)
  have "length R0 < length A"
  proof (rule ccontr)
    assume "\<not> length R0 < length A"
    then have "length A < length R0 \<or> length A = length R0" by auto
    moreover have "(R0 @ (i, n0) # rs) ! length A = (j, n)" by (simp add: assms(2))
    ultimately show False using nR assms(3) by (auto simp: nth_append) (metis nth_mem)
  qed
  then have "take (length R0 + 1) (A @ (j, n) # B) = take (length R0 + 1) A" by simp
  moreover have "take (length R0 + 1) (R0 @ (i, n0) # rs) = R0 @ [(i, n0)]" by simp
  ultimately have "A = (R0 @ [(i, n0)]) @ drop (length R0 + 1) A" using assms(2) by (metis append_take_drop_id)
  then show ?thesis by auto
qed

lemma within_Revert:
  assumes w: "within E s0 s" and r: "RevertToSnapshot E j s = Some s'" and j: "nextRevisionId s0 < j"
  shows "within E s0 s'"
proof -
  let ?n0 = "length (entries (sdb_journal s0))"
  obtain fs rs where f: "validRevisions s = validRevisions s0 @ (nextRevisionId s0, ?n0) # rs"
    "entries (sdb_journal s) = entries (sdb_journal s0) @ fs"
    "a_reverts E (sdb_db s0) (rev fs) (sdb_abs E s) = Some (sdb_abs E s0)" using w by (auto simp: within_def)
  obtain A n B where v: "validRevisions s = A @ (j, n) # B" using RevertToSnapshot_known[OF r] by auto
  have R: "revs_ok s" and ok: "sdb_ok E s" using w by (auto simp: within_def)
  have "sorted_wrt (<) (map fst (validRevisions s))" using R by (simp add: revs_ok_def sorted_wrt_append)
  then obtain rs' where A: "A = validRevisions s0 @ (nextRevisionId s0, ?n0) # rs'"
    unfolding f(1) using increasing_split[OF _ trans[OF f(1)[symmetric] v] j] by blast
  have n: "?n0 \<le> n" "n \<le> ?n0 + length fs" using R v A f(2) by (auto simp: revs_ok_def sorted_wrt_append)
  define k where "k = n - ?n0"
  have k: "length (entries (sdb_journal s0) @ take k fs) = n" using n by (simp add: k_def)
  have split: "entries (sdb_journal s) = (entries (sdb_journal s0) @ take k fs) @ drop k fs" using f(2) by simp
  have "rev fs = rev (drop k fs) @ rev (take k fs)" by (metis append_take_drop_id rev_append)
  then obtain V where V: "a_reverts E (sdb_db s) (rev (drop k fs)) (sdb_abs E s) = Some V"
    "a_reverts E (sdb_db s0) (rev (take k fs)) V = Some (sdb_abs E s0)"
    using f(3) w by (auto simp: a_reverts_append within_def split: option.splits)
  have v': "validRevisions s = A @ (j, length (entries (sdb_journal s0) @ take k fs)) # B" using v k by simp
  have *: "sdb_abs E s' = V" "sdb_ok E s'" "revs_ok s'" "entries (sdb_journal s') = entries (sdb_journal s0) @ take k fs"
    "validRevisions s' = A" "sdb_db s' = sdb_db s" "sdb_trie s' = sdb_trie s"
    using RevertToSnapshot_spec[OF ok R v' split V(1)] r by simp_all
  have "sdb_db s = sdb_db s0" "sdb_trie s = sdb_trie s0" using w by (simp_all add: within_def)
  then show ?thesis using * A V(2) unfolding within_def by (intro conjI exI[of _ "take k fs"] exI[of _ rs']) simp_all
qed

lemma within_do: "within E s0 s \<Longrightarrow> inner_op (nextRevisionId s0) p \<Longrightarrow> sdb_do E p s = Some s' \<Longrightarrow> within E s0 s'"
proof -
  assume w: "within E s0 s" and p: "inner_op (nextRevisionId s0) p" and d: "sdb_do E p s = Some s'"
  consider "plain_op p" | "p = OpSnapshot" | j where "p = OpRevert j" by (cases p) auto
  then show "within E s0 s'"
  proof cases
    case 1
    have "sdb_ok E s" using w by (simp add: within_def)
    then show ?thesis using within_undoable[OF w plain_op_undoable[OF _ 1 d]] by simp
  next
    case 2
    then show ?thesis using within_Snapshot[OF w] d by simp
  next
    case 3
    then show ?thesis using within_Revert[OF w] p d by simp
  qed
qed

lemma within_run:
  "within E s0 s \<Longrightarrow> list_all (inner_op (nextRevisionId s0)) ps \<Longrightarrow> sdb_run E ps s = Some s' \<Longrightarrow> within E s0 s'"
proof (induction ps arbitrary: s)
  case (Cons p ps)
  obtain t where t: "sdb_do E p s = Some t" "sdb_run E ps t = Some s'" using Cons.prems(3) by (auto split: option.splits)
  have "within E s0 t" using within_do[OF Cons.prems(1) _ t(1)] Cons.prems(2) by simp
  then show ?case using Cons.IH t(2) Cons.prems(2) by simp
qed simp

lemma within_back:
  assumes w: "within E s0 s"
  shows "\<exists>s'. RevertToSnapshot E (nextRevisionId s0) s = Some s' \<and> sdb_abs E s' = sdb_abs E s0 \<and> sdb_ok E s' \<and> revs_ok s' \<and>
    entries (sdb_journal s') = entries (sdb_journal s0) \<and> validRevisions s' = validRevisions s0"
proof -
  obtain fs rs where f: "validRevisions s = validRevisions s0 @ (nextRevisionId s0, length (entries (sdb_journal s0))) # rs"
    "entries (sdb_journal s) = entries (sdb_journal s0) @ fs"
    "a_reverts E (sdb_db s) (rev fs) (sdb_abs E s) = Some (sdb_abs E s0)" using w unfolding within_def by force
  have "sdb_ok E s" "revs_ok s" using w by (auto simp: within_def)
  from RevertToSnapshot_spec[OF this f(1,2,3)] show ?thesis by blast
qed

text \<open>
  C5: Whatever operations run after a snapshot (nested snapshots and reverts to them included),
  \<open>RevertToSnapshot\<close> with the identifier of the snapshot does not panic and restores everything
  observable: accounts, code, storage, self-destruct marks, refund, logs, preimages and dirty
  marks, the journal and the list of valid revisions.
\<close>

theorem RevertToSnapshot_restores:
  assumes "sdb_ok E s" and "revs_ok s" and "Snapshot s = (s1, i)"
    and "list_all (inner_op i) ops" and "sdb_run E ops s1 = Some s2"
  shows "\<exists>s3. RevertToSnapshot E i s2 = Some s3 \<and> sdb_abs E s3 = sdb_abs E s \<and> sdb_ok E s3 \<and> revs_ok s3 \<and>
    entries (sdb_journal s3) = entries (sdb_journal s) \<and> validRevisions s3 = validRevisions s"
proof -
  have i: "i = nextRevisionId s" "s1 = fst (Snapshot s)" using assms(3) by (auto simp: Snapshot_def Let_def)
  have "within E s s2" using within_run[OF within_start[OF assms(1,2)]] assms(4,5) i by simp
  then show ?thesis unfolding i(1) by (rule within_back)
qed

text \<open>
  A small surrounding for examples: tries are lists of entries, an account is encoded by its nonce,
  balance and code hash, nothing is persisted.
\<close>

definition demo_env :: "(unit, (address, bytes) gomap, (hash, bytes) gomap) sdb_env" where
  "demo_env =
     \<lparr>at_TryGet = (\<lambda>t a. (case gm_get t a of None \<Rightarrow> [] | Some b \<Rightarrow> b, False)),
      at_TryUpdate = (\<lambda>t a b. (gm_set a b t, False)), at_TryDelete = (\<lambda>t a. (gm_del a t, False)),
      at_Hash = (\<lambda>t. of_nat (length t)), at_Commit = (\<lambda>d t. (d, t, of_nat (length t), False)),
      st_TryGet = (\<lambda>t k. (case gm_get t k of None \<Rightarrow> [] | Some b \<Rightarrow> b, False)),
      st_TryUpdate = (\<lambda>t k b. (gm_set k b t, False)), st_TryDelete = (\<lambda>t k. (gm_del k t, False)),
      st_Hash = (\<lambda>t. of_nat (length t)), st_Commit = (\<lambda>d t. (d, t, of_nat (length t), False)), st_empty = [],
      db_OpenTrie = (\<lambda>d h. Some [(7, [1, 100, 0])]), db_OpenStorageTrie = (\<lambda>d h r. Some []),
      db_ContractCode = (\<lambda>d h. None), db_InsertBlob = (\<lambda>d h b. d),
      enc_Account = (\<lambda>A. [ucast (acc_Nonce A), of_int (acc_Balance A), ucast (acc_CodeHash A)]),
      dec_Account = (\<lambda>b. case b of [n, v, h] \<Rightarrow> Some \<lparr>acc_Nonce = ucast n, acc_Balance = uint v, acc_Root = 0, acc_CodeHash = ucast h\<rparr> | _ \<Rightarrow> None),
      enc_slot = (\<lambda>v. [ucast v]), dec_slot = (\<lambda>b. case b of [v] \<Rightarrow> (ucast v, False) | _ \<Rightarrow> (0, True)),
      keccak_addr = ucast, keccak_code = (\<lambda>c. of_nat (length c))\<rparr>"

definition demo_ops :: "sdb_op list" where
  "demo_ops = [OpAddBalance 7 5, OpSetState 7 1 2, OpSnapshot, OpSetNonce 9 4, OpSuicide 7, OpRevert 1,
     OpCreateAccount 7, OpSetCode 7 [96, 0], OpAddBalance ripemd 0, OpAddRefund 10, OpSubRefund 4]"

theorem RevertToSnapshot_restores_witness:
  "\<exists>s s2 s3. New demo_env () 0 = Some s \<and> sdb_run demo_env demo_ops (fst (Snapshot s)) = Some s2 \<and>
     RevertToSnapshot demo_env 0 s2 = Some s3 \<and> sdb_abs demo_env s3 = sdb_abs demo_env s"
proof -
  define s where "s = the (New demo_env () 0)"
  have s: "New demo_env () 0 = Some s" by (simp add: s_def New_def demo_env_def)
  have ok: "sdb_ok demo_env s" "revs_ok s" "snd (Snapshot s) = 0"
    by (simp_all add: s_def New_def demo_env_def sdb_ok_def objs_ok_def revs_ok_def newJournal_def Snapshot_def Let_def)
  have "sdb_run demo_env demo_ops (fst (Snapshot (the (New demo_env () 0)))) \<noteq> None" by code_simp
  then obtain s2 where s2: "sdb_run demo_env demo_ops (fst (Snapshot s)) = Some s2" by (auto simp: s_def)
  have "list_all (inner_op 0) demo_ops" by (simp add: demo_ops_def)
  from RevertToSnapshot_restores[OF ok(1,2) _ this s2] ok(3) s s2 show ?thesis by (metis prod.collapse)
qed

end
