(* ===== verification/State_Finalise.thy ===== *)
theory State_Finalise
  imports State_Revert
begin

text \<open>
  The end of a transaction: \<open>Finalise\<close>, \<open>Commit\<close> and \<open>Copy\<close> of \<open>statedb.go\<close>.  What \<open>Finalise\<close> does to
  every dirtied object, when it panics, and what a copy of the database keeps.
\<close>

subsection \<open>Finalise\<close>

lemma updateTrie_step_fields:
  "so_address (fst (updateTrie_step E kv st)) = so_address (fst st)"
  "so_data (fst (updateTrie_step E kv st)) = so_data (fst st)"
  "suicided (fst (updateTrie_step E kv st)) = suicided (fst st)"
  "deleted (fst (updateTrie_step E kv st)) = deleted (fst st)"
  "so_code (fst (updateTrie_step E kv st)) = so_code (fst st)"
  by (auto simp: updateTrie_step_def so_setError_def Let_def case_prod_unfold)

lemma updateTrie_fold_fields:
  "so_address (fst (fold (updateTrie_step E) kvs st)) = so_address (fst st)"
  "so_data (fst (fold (updateTrie_step E) kvs st)) = so_data (fst st)"
  "suicided (fst (fold (updateTrie_step E) kvs st)) = suicided (fst st)"
  "deleted (fst (fold (updateTrie_step E) kvs st)) = deleted (fst st)"
  "so_code (fst (fold (updateTrie_step E) kvs st)) = so_code (fst st)"
  by (induction kvs arbitrary: st) (simp_all add: updateTrie_step_fields)

lemma updateTrie_fields [simp]:
  "so_address (updateTrie E db o') = so_address o'" "so_data (updateTrie E db o') = so_data o'"
  "suicided (updateTrie E db o') = suicided o'" "deleted (updateTrie E db o') = deleted o'"
  "so_code (updateTrie E db o') = so_code o'"
  by (simp_all add: updateTrie_def Let_def case_prod_unfold updateTrie_fold_fields)

lemma updateRoot_fields [simp]:
  "so_address (updateRoot E db o') = so_address o'" "suicided (updateRoot E db o') = suicided o'"
  "deleted (updateRoot E db o') = deleted o'" "so_code (updateRoot E db o') = so_code o'"
  "acc_Nonce (so_data (updateRoot E db o')) = acc_Nonce (so_data o')"
  "acc_Balance (so_data (updateRoot E db o')) = acc_Balance (so_data o')"
  "acc_CodeHash (so_data (updateRoot E db o')) = acc_CodeHash (so_data o')"
  by (simp_all add: updateRoot_def Let_def)

text \<open>The object that \<open>Finalise\<close> leaves for a dirtied one.\<close>

definition finalised :: "('d, 'a, 's) sdb_env \<Rightarrow> bool \<Rightarrow> 'd \<Rightarrow> 's stateObject \<Rightarrow> 's stateObject" where
  "finalised E de db o' =
     (if suicided o' \<or> de \<and> so_empty E o' then o'\<lparr>deleted := True\<rparr> else updateRoot E db o')"

lemma finalised_address [simp]: "so_address (finalised E de db o') = so_address o'"
  by (simp add: finalised_def)

lemma finalise_one_live:
  assumes "gm_get (stateObjects s) a = Some o'" and "so_address o' = a"
  obtains s' where "finalise_one E de a s = Some s'" "sdb_db s' = sdb_db s"
    "gm_get (stateObjects s') = (gm_get (stateObjects s))(a \<mapsto> finalised E de (sdb_db s) o')"
    "gm_get (stateObjectsDirty s') = (gm_get (stateObjectsDirty s))(a \<mapsto> ())"
    "sdb_logs s' = sdb_logs s" "sdb_preimages s' = sdb_preimages s"
  using assms
  by (auto simp: finalise_one_def finalised_def deleteStateObject_def updateStateObject_def setStateObject_def sdb_setError_def
      gm_get_set Let_def case_prod_unfold)

lemma finalise_one_None: "gm_get (stateObjects s) a = None \<Longrightarrow> finalise_one E de a s = None"
  by (simp add: finalise_one_def)

definition addressed :: "('d, 'a, 's) StateDB \<Rightarrow> bool" where
  "addressed s \<longleftrightarrow> (\<forall>a o'. gm_get (stateObjects s) a = Some o' \<longrightarrow> so_address o' = a)"

lemma addressed_finalise_one:
  "addressed s \<Longrightarrow> gm_get (stateObjects s') = (gm_get (stateObjects s))(a \<mapsto> finalised E de db o') \<Longrightarrow> so_address o' = a \<Longrightarrow> addressed s'"
  by (simp add: addressed_def)

lemma finalise_loop_None:
  "addressed s \<Longrightarrow> finalise_loop E de as s = None \<longleftrightarrow> (\<exists>a \<in> set as. gm_get (stateObjects s) a = None)"
proof (induction as arbitrary: s)
  case (Cons b as)
  show ?case
  proof (cases "gm_get (stateObjects s) b")
    case (Some o')
    have ad: "so_address o' = b" using Cons.prems Some by (simp add: addressed_def)
    obtain s1 where s1: "finalise_one E de b s = Some s1"
      "gm_get (stateObjects s1) = (gm_get (stateObjects s))(b \<mapsto> finalised E de (sdb_db s) o')"
      using finalise_one_live[OF Some ad] by metis
    show ?thesis using Cons.IH[OF addressed_finalise_one[OF Cons.prems s1(2) ad]] Some by (simp add: s1) force
  qed (simp add: finalise_one_None)
qed simp

definition finalise_effect ::
  "('d, 'a, 's) sdb_env \<Rightarrow> bool \<Rightarrow> address set \<Rightarrow> ('d, 'a, 's) StateDB \<Rightarrow> ('d, 'a, 's) StateDB \<Rightarrow> bool" where
  "finalise_effect E de D s s' \<longleftrightarrow>
     (\<forall>a. gm_get (stateObjects s') a =
        (if a \<in> D then map_option (finalised E de (sdb_db s)) (gm_get (stateObjects s) a) else gm_get (stateObjects s) a)) \<and>
     (\<forall>a. gm_get (stateObjectsDirty s') a = (if a \<in> D then Some () else gm_get (stateObjectsDirty s) a)) \<and>
     sdb_db s' = sdb_db s \<and> sdb_logs s' = sdb_logs s \<and> sdb_preimages s' = sdb_preimages s"

lemma finalise_loop_effect:
  "addressed s \<Longrightarrow> distinct as \<Longrightarrow> finalise_loop E de as s = Some s' \<Longrightarrow> finalise_effect E de (set as) s s'"
proof (induction as arbitrary: s)
  case Nil
  then show ?case by (simp add: finalise_effect_def)
next
  case (Cons b as)
  obtain t where t: "finalise_one E de b s = Some t" "finalise_loop E de as t = Some s'"
    using Cons.prems(3) by (auto split: option.splits)
  obtain o' where o': "gm_get (stateObjects s) b = Some o'" using t(1) finalise_one_None[of s b] by (cases "gm_get (stateObjects s) b") auto
  have ad: "so_address o' = b" using Cons.prems(1) o' by (simp add: addressed_def)
  obtain s1 where s1: "finalise_one E de b s = Some s1" "sdb_db s1 = sdb_db s"
    "gm_get (stateObjects s1) = (gm_get (stateObjects s))(b \<mapsto> finalised E de (sdb_db s) o')"
    "gm_get (stateObjectsDirty s1) = (gm_get (stateObjectsDirty s))(b \<mapsto> ())"
    "sdb_logs s1 = sdb_logs s" "sdb_preimages s1 = sdb_preimages s" by (rule finalise_one_live[OF o' ad])
  have "finalise_effect E de (set as) s1 s'"
    using Cons.IH[OF addressed_finalise_one[OF Cons.prems(1) s1(3) ad]] Cons.prems(2) t s1(1) by simp
  then show ?case using o' Cons.prems(2) by (auto simp: finalise_effect_def s1(2-6))
qed


definition demo_state :: "(unit, (address, bytes) gomap, (hash, bytes) gomap) StateDB" where
  "demo_state = the (sdb_run demo_env [OpAddBalance 7 5, OpSetState 7 1 2, OpSetCode 9 [96, 0], OpSuicide 7] (the (New demo_env () 0)))"

lemma demo_state_keys:
  "gm_keys (stateObjects demo_state) = [7, 9] \<and> map (so_address \<circ> snd) (stateObjects demo_state) = [7, 9] \<and>
   gm_keys (dirties (sdb_journal demo_state)) = [7, 9]"
  unfolding demo_state_def by code_simp


subsection \<open>Where the end of a transaction goes wrong\<close>


text \<open>A copy of a finalised database has no live objects: the second loop of \<open>Copy\<close> never copies one.\<close>

lemma Copy_finalised: "dirties (sdb_journal s) = [] \<Longrightarrow> Copy s = Some c \<Longrightarrow> stateObjects c = []"
  by (auto simp: Copy_def Let_def split: if_splits)

lemma Finalise_Copy_empty: "Finalise E de s = Some s1 \<Longrightarrow> Copy s1 = Some c \<Longrightarrow> stateObjects c = []"
  by (rule Copy_finalised[of s1]) (auto simp: Finalise_def clearJournalAndRefund_def newJournal_def)


text \<open>
  When the storage of an account cannot be committed, \<open>Commit\<close> returns the zero root and no error.
\<close>

lemma Commit_swallows_error:
  "\<exists>s'. Commit (demo_env\<lparr>st_Commit := (\<lambda>d t. (d, t, 0, True))\<rparr>) True demo_state = (s', 0, False) \<and>
     snd (snd (CommitTrie (demo_env\<lparr>st_Commit := (\<lambda>d t. (d, t, 0, True))\<rparr>) () (the (gm_get (stateObjects demo_state) 9))))"
proof -
  have "snd (Commit (demo_env\<lparr>st_Commit := (\<lambda>d t. (d, t, 0, True))\<rparr>) True demo_state) = (0, False)"
    "snd (snd (CommitTrie (demo_env\<lparr>st_Commit := (\<lambda>d t. (d, t, 0, True))\<rparr>) () (the (gm_get (stateObjects demo_state) 9))))"
    unfolding demo_state_def by code_simp+
  then show ?thesis by (metis prod.collapse)
qed

end
