(* ===== verification/Chain_Config.thy ===== *)
theory Chain_Config
  imports Common_Math
begin

text \<open>
  Package \<open>params\<close>: the fork schedule of a chain (\<open>config.go\<close>), the gas prices of the phases
  (\<open>gas_table.go\<close>) and the protocol constants (\<open>protocol_params.go\<close>).  A block number that may be
  nil is an \<open>option\<close>.
\<close>

subsection \<open>Constants\<close>

abbreviation CallValueTransferGas :: u64 where "CallValueTransferGas \<equiv> 9000"
abbreviation CallNewAccountGas :: u64 where "CallNewAccountGas \<equiv> 25000"
abbreviation TxGas :: u64 where "TxGas \<equiv> 21000"
abbreviation TxGasContractCreation :: u64 where "TxGasContractCreation \<equiv> 53000"
abbreviation TxDataZeroGas :: u64 where "TxDataZeroGas \<equiv> 4"
abbreviation TxDataNonZeroGas :: u64 where "TxDataNonZeroGas \<equiv> 68"
abbreviation QuadCoeffDiv :: u64 where "QuadCoeffDiv \<equiv> 512"
abbreviation LogDataGas :: u64 where "LogDataGas \<equiv> 8"
abbreviation CallStipend :: u64 where "CallStipend \<equiv> 2300"
abbreviation Sha3Gas :: u64 where "Sha3Gas \<equiv> 30"
abbreviation Sha3WordGas :: u64 where "Sha3WordGas \<equiv> 6"
abbreviation SstoreSetGas :: u64 where "SstoreSetGas \<equiv> 20000"
abbreviation SstoreResetGas :: u64 where "SstoreResetGas \<equiv> 5000"
abbreviation SstoreClearGas :: u64 where "SstoreClearGas \<equiv> 5000"
abbreviation SstoreRefundGas :: u64 where "SstoreRefundGas \<equiv> 15000"
abbreviation NetSstoreNoopGas :: u64 where "NetSstoreNoopGas \<equiv> 200"
abbreviation NetSstoreInitGas :: u64 where "NetSstoreInitGas \<equiv> 20000"
abbreviation NetSstoreCleanGas :: u64 where "NetSstoreCleanGas \<equiv> 5000"
abbreviation NetSstoreDirtyGas :: u64 where "NetSstoreDirtyGas \<equiv> 200"
abbreviation NetSstoreClearRefund :: u64 where "NetSstoreClearRefund \<equiv> 15000"
abbreviation NetSstoreResetRefund :: u64 where "NetSstoreResetRefund \<equiv> 4800"
abbreviation NetSstoreResetClearRefund :: u64 where "NetSstoreResetClearRefund \<equiv> 19800"
abbreviation JumpdestGas :: u64 where "JumpdestGas \<equiv> 1"
abbreviation CreateDataGas :: u64 where "CreateDataGas \<equiv> 200"
abbreviation CallCreateDepth :: nat where "CallCreateDepth \<equiv> 1024"
abbreviation ExpGas :: u64 where "ExpGas \<equiv> 10"
abbreviation LogGas :: u64 where "LogGas \<equiv> 375"
abbreviation LogTopicGas :: u64 where "LogTopicGas \<equiv> 375"
abbreviation CopyGas :: u64 where "CopyGas \<equiv> 3"
abbreviation StackLimit :: nat where "StackLimit \<equiv> 1024"
abbreviation CreateGas :: u64 where "CreateGas \<equiv> 32000"
abbreviation Create2Gas :: u64 where "Create2Gas \<equiv> 32000"
abbreviation SuicideRefundGas :: u64 where "SuicideRefundGas \<equiv> 24000"
abbreviation MemoryGas :: u64 where "MemoryGas \<equiv> 3"
abbreviation MaxCodeSize :: nat where "MaxCodeSize \<equiv> 24576"

subsection \<open>Forks\<close>

record ChainConfig =
  ChainID :: "bigint option"
  HomesteadBlock :: "bigint option"
  DAOForkBlock :: "bigint option"
  DAOForkSupport :: bool
  EIP150Block :: "bigint option"
  EIP150Hash :: hash
  EIP155Block :: "bigint option"
  EIP158Block :: "bigint option"
  ByzantiumBlock :: "bigint option"
  ConstantinopleBlock :: "bigint option"
  PetersburgBlock :: "bigint option"
  EWASMBlock :: "bigint option"

definition isForked :: "bigint option \<Rightarrow> bigint option \<Rightarrow> bool" where
  "isForked s head = (case (s, head) of (Some s', Some h) \<Rightarrow> s' \<le> h | _ \<Rightarrow> False)"

definition IsHomestead :: "ChainConfig \<Rightarrow> bigint option \<Rightarrow> bool" where
  "IsHomestead c num = isForked (HomesteadBlock c) num"

definition IsDAOFork :: "ChainConfig \<Rightarrow> bigint option \<Rightarrow> bool" where
  "IsDAOFork c num = isForked (DAOForkBlock c) num"

definition IsEIP150 :: "ChainConfig \<Rightarrow> bigint option \<Rightarrow> bool" where
  "IsEIP150 c num = isForked (EIP150Block c) num"

definition IsEIP155 :: "ChainConfig \<Rightarrow> bigint option \<Rightarrow> bool" where
  "IsEIP155 c num = isForked (EIP155Block c) num"

definition IsEIP158 :: "ChainConfig \<Rightarrow> bigint option \<Rightarrow> bool" where
  "IsEIP158 c num = isForked (EIP158Block c) num"

definition IsByzantium :: "ChainConfig \<Rightarrow> bigint option \<Rightarrow> bool" where
  "IsByzantium c num = isForked (ByzantiumBlock c) num"

definition IsConstantinople :: "ChainConfig \<Rightarrow> bigint option \<Rightarrow> bool" where
  "IsConstantinople c num = isForked (ConstantinopleBlock c) num"

definition IsPetersburg :: "ChainConfig \<Rightarrow> bigint option \<Rightarrow> bool" where
  "IsPetersburg c num \<longleftrightarrow>
     isForked (PetersburgBlock c) num \<or> PetersburgBlock c = None \<and> isForked (ConstantinopleBlock c) num"

definition IsEWASM :: "ChainConfig \<Rightarrow> bigint option \<Rightarrow> bool" where
  "IsEWASM c num = isForked (EWASMBlock c) num"

subsection \<open>Gas prices\<close>

record GasTable =
  gt_ExtcodeSize :: u64
  gt_ExtcodeCopy :: u64
  gt_ExtcodeHash :: u64
  gt_Balance :: u64
  gt_SLoad :: u64
  gt_Calls :: u64
  gt_Suicide :: u64
  gt_ExpByte :: u64
  gt_CreateBySuicide :: u64

definition GasTableHomestead :: GasTable where
  "GasTableHomestead = \<lparr>gt_ExtcodeSize = 20, gt_ExtcodeCopy = 20, gt_ExtcodeHash = 0, gt_Balance = 20, gt_SLoad = 50,
     gt_Calls = 40, gt_Suicide = 0, gt_ExpByte = 10, gt_CreateBySuicide = 0\<rparr>"

definition GasTableEIP150 :: GasTable where
  "GasTableEIP150 = \<lparr>gt_ExtcodeSize = 700, gt_ExtcodeCopy = 700, gt_ExtcodeHash = 0, gt_Balance = 400, gt_SLoad = 200,
     gt_Calls = 700, gt_Suicide = 5000, gt_ExpByte = 10, gt_CreateBySuicide = 25000\<rparr>"

definition GasTableEIP158 :: GasTable where
  "GasTableEIP158 = \<lparr>gt_ExtcodeSize = 700, gt_ExtcodeCopy = 700, gt_ExtcodeHash = 0, gt_Balance = 400, gt_SLoad = 200,
     gt_Calls = 700, gt_Suicide = 5000, gt_ExpByte = 50, gt_CreateBySuicide = 25000\<rparr>"

definition GasTableConstantinople :: GasTable where
  "GasTableConstantinople = \<lparr>gt_ExtcodeSize = 700, gt_ExtcodeCopy = 700, gt_ExtcodeHash = 400, gt_Balance = 400, gt_SLoad = 200,
     gt_Calls = 700, gt_Suicide = 5000, gt_ExpByte = 50, gt_CreateBySuicide = 25000\<rparr>"

definition config_GasTable :: "ChainConfig \<Rightarrow> bigint option \<Rightarrow> GasTable" where
  "config_GasTable c num =
     (if num = None then GasTableHomestead
      else if IsConstantinople c num then GasTableConstantinople
      else if IsEIP158 c num then GasTableEIP158
      else if IsEIP150 c num then GasTableEIP150
      else GasTableHomestead)"

subsection \<open>Rules\<close>

record Rules =
  r_ChainID :: bigint
  r_IsHomestead :: bool
  r_IsEIP150 :: bool
  r_IsEIP155 :: bool
  r_IsEIP158 :: bool
  r_IsByzantium :: bool
  r_IsConstantinople :: bool
  r_IsPetersburg :: bool

definition config_Rules :: "ChainConfig \<Rightarrow> bigint option \<Rightarrow> Rules" where
  "config_Rules c num =
     \<lparr>r_ChainID = (case ChainID c of None \<Rightarrow> 0 | Some i \<Rightarrow> i), r_IsHomestead = IsHomestead c num, r_IsEIP150 = IsEIP150 c num,
      r_IsEIP155 = IsEIP155 c num, r_IsEIP158 = IsEIP158 c num, r_IsByzantium = IsByzantium c num,
      r_IsConstantinople = IsConstantinople c num, r_IsPetersburg = IsPetersburg c num\<rparr>"

subsection \<open>Compatibility of two schedules\<close>

definition configNumEqual :: "bigint option \<Rightarrow> bigint option \<Rightarrow> bool" where
  "configNumEqual x y = (case x of None \<Rightarrow> y = None | Some x' \<Rightarrow> (case y of None \<Rightarrow> x = None | Some y' \<Rightarrow> x' = y'))"

definition isForkIncompatible :: "bigint option \<Rightarrow> bigint option \<Rightarrow> bigint option \<Rightarrow> bool" where
  "isForkIncompatible s1 s2 head \<longleftrightarrow> (isForked s1 head \<or> isForked s2 head) \<and> \<not> configNumEqual s1 s2"

record ConfigCompatError =
  What :: string
  StoredConfig :: "bigint option"
  NewConfig :: "bigint option"
  RewindTo :: u64

definition newCompatError :: "string \<Rightarrow> bigint option \<Rightarrow> bigint option \<Rightarrow> ConfigCompatError" where
  "newCompatError w storedblock newblock =
     (let rew = (case storedblock of
                   None \<Rightarrow> newblock
                 | Some s \<Rightarrow> (case newblock of None \<Rightarrow> storedblock | Some n \<Rightarrow> if s < n then storedblock else newblock))
      in \<lparr>What = w, StoredConfig = storedblock, NewConfig = newblock,
          RewindTo = (case rew of None \<Rightarrow> 0 | Some r \<Rightarrow> if 0 < r then Uint64 r - 1 else 0)\<rparr>)"

definition checkCompatible :: "ChainConfig \<Rightarrow> ChainConfig \<Rightarrow> bigint \<Rightarrow> ConfigCompatError option" where
  "checkCompatible c newcfg head =
     (let h = Some head in
      if isForkIncompatible (HomesteadBlock c) (HomesteadBlock newcfg) h
      then Some (newCompatError ''Homestead fork block'' (HomesteadBlock c) (HomesteadBlock newcfg))
      else if isForkIncompatible (DAOForkBlock c) (DAOForkBlock newcfg) h
      then Some (newCompatError ''DAO fork block'' (DAOForkBlock c) (DAOForkBlock newcfg))
      else if IsDAOFork c h \<and> DAOForkSupport c \<noteq> DAOForkSupport newcfg
      then Some (newCompatError ''DAO fork support flag'' (DAOForkBlock c) (DAOForkBlock newcfg))
      else if isForkIncompatible (EIP150Block c) (EIP150Block newcfg) h
      then Some (newCompatError ''EIP150 fork block'' (EIP150Block c) (EIP150Block newcfg))
      else if isForkIncompatible (EIP155Block c) (EIP155Block newcfg) h
      then Some (newCompatError ''EIP155 fork block'' (EIP155Block c) (EIP155Block newcfg))
      else if isForkIncompatible (EIP158Block c) (EIP158Block newcfg) h
      then Some (newCompatError ''EIP158 fork block'' (EIP158Block c) (EIP158Block newcfg))
      else if IsEIP158 c h \<and> \<not> configNumEqual (ChainID c) (ChainID newcfg)
      then Some (newCompatError ''EIP158 chain ID'' (EIP158Block c) (EIP158Block newcfg))
      else if isForkIncompatible (ByzantiumBlock c) (ByzantiumBlock newcfg) h
      then Some (newCompatError ''Byzantium fork block'' (ByzantiumBlock c) (ByzantiumBlock newcfg))
      else if isForkIncompatible (ConstantinopleBlock c) (ConstantinopleBlock newcfg) h
      then Some (newCompatError ''Constantinople fork block'' (ConstantinopleBlock c) (ConstantinopleBlock newcfg))
      else if isForkIncompatible (PetersburgBlock c) (PetersburgBlock newcfg) h
      then Some (newCompatError ''ConstantinopleFix fork block'' (PetersburgBlock c) (PetersburgBlock newcfg))
      else if isForkIncompatible (EWASMBlock c) (EWASMBlock newcfg) h
      then Some (newCompatError ''ewasm fork block'' (EWASMBlock c) (EWASMBlock newcfg))
      else None)"

text \<open>A conflict found at \<open>head\<close> asks for a rewind below it, or to block 0.\<close>

lemma newCompatError_below:
  assumes "isForked s (Some (uint (h :: u64))) \<or> isForked n (Some (uint h))"
  shows "RewindTo (newCompatError w s n) < h \<or> RewindTo (newCompatError w s n) = 0"
proof -
  have *: "Uint64 r - 1 < h" if "0 < r" "r \<le> uint h" for r
  proof -
    have r: "uint (Uint64 r) = r" using that uint_bounded[of h] Uint64_small[of r] by simp
    then have "uint (Uint64 r - 1) = r - 1" using that uint_bounded[of h]
      by (simp add: uint_sub_if')
    then show ?thesis using that by (simp add: word_less_def)
  qed
  show ?thesis using assms
    by (auto simp: newCompatError_def isForked_def Let_def split: option.splits if_splits intro: *)
qed

lemma checkCompatible_below:
  assumes "checkCompatible c n (uint h) = Some e"
  shows "RewindTo e < h \<or> RewindTo e = 0"
proof -
  have inc: "RewindTo (newCompatError w s m) < h \<or> RewindTo (newCompatError w s m) = 0"
    if "isForkIncompatible s m (Some (uint h)) \<or> isForked s (Some (uint h))" for w s m
    using newCompatError_below[of s h m w] that by (auto simp: isForkIncompatible_def)
  show ?thesis using assms
    by (auto simp: checkCompatible_def Let_def IsDAOFork_def IsEIP158_def split: if_splits intro!: inc)
qed

function CheckCompatible_loop ::
  "ChainConfig \<Rightarrow> ChainConfig \<Rightarrow> ConfigCompatError option \<Rightarrow> u64 \<Rightarrow> ConfigCompatError option" where
  "CheckCompatible_loop c newcfg lasterr bhead =
     (case checkCompatible c newcfg (uint bhead) of
        None \<Rightarrow> lasterr
      | Some err \<Rightarrow>
          if lasterr \<noteq> None \<and> RewindTo err = RewindTo (the lasterr) then lasterr
          else CheckCompatible_loop c newcfg (Some err) (RewindTo err))"
  by pat_completeness auto
termination
proof (relation "measures [\<lambda>(c, n, l, h). unat h, \<lambda>(c, n, l, h). if l \<noteq> None \<and> RewindTo (the l) = h then 0 else 1]")
  fix c n :: ChainConfig and l :: "ConfigCompatError option" and err :: ConfigCompatError and h :: u64
  assume e: "checkCompatible c n (uint h) = Some err" and ne: "\<not> (l \<noteq> None \<and> RewindTo err = RewindTo (the l))"
  have "RewindTo err < h \<or> RewindTo err = 0 \<and> h = 0"
    using checkCompatible_below[OF e] by (auto simp: word_gt_0)
  then show "((c, n, Some err, RewindTo err), c, n, l, h) \<in>
    measures [\<lambda>(c, n, l, h). unat h, \<lambda>(c, n, l, h). if l \<noteq> None \<and> RewindTo (the l) = h then 0 else 1]"
    using ne by (auto simp: word_less_nat_alt)
qed simp

declare CheckCompatible_loop.simps [simp del]

definition CheckCompatible :: "ChainConfig \<Rightarrow> ChainConfig \<Rightarrow> u64 \<Rightarrow> ConfigCompatError option" where
  "CheckCompatible c newcfg height = CheckCompatible_loop c newcfg None height"

lemma CheckCompatible_loop_result:
  "\<exists>e'. CheckCompatible_loop c n (Some e) (RewindTo e) = Some e' \<and> RewindTo e' \<le> RewindTo e \<and>
     (checkCompatible c n (uint (RewindTo e')) = None \<or> RewindTo e' = 0)"
proof (induction "unat (RewindTo e)" arbitrary: e rule: less_induct)
  case less
  note unf = CheckCompatible_loop.simps[of c n "Some e" "RewindTo e"]
  show ?case
  proof (cases "checkCompatible c n (uint (RewindTo e))")
    case None
    then show ?thesis by (simp add: unf)
  next
    case (Some f)
    show ?thesis
    proof (cases "RewindTo f = RewindTo e")
      case True
      have r: "CheckCompatible_loop c n (Some e) (RewindTo e) = Some e" using True Some by (simp add: unf)
      have "RewindTo e = 0" using checkCompatible_below[OF Some] True by simp
      then show ?thesis using r by (intro exI[of _ e]) simp
    next
      case False
      then have lt: "RewindTo f < RewindTo e" using checkCompatible_below[OF Some] by (auto simp: word_gt_0)
      then obtain e' where "CheckCompatible_loop c n (Some f) (RewindTo f) = Some e'" "RewindTo e' \<le> RewindTo f"
        "checkCompatible c n (uint (RewindTo e')) = None \<or> RewindTo e' = 0"
        using less.hyps[of f] by (auto simp: word_less_nat_alt)
      then show ?thesis using Some False lt by (simp add: unf)
    qed
  qed
qed


end
