(* ===== verification/Evm_Data.thy ===== *)
theory Evm_Data
  imports Chain_Config State_Db
begin

text \<open>
  The data of the virtual machine (\<open>core/vm\<close>): the stack, the memory, the contract with its
  jump-destination analysis (\<open>stack.go\<close>, \<open>memory.go\<close>, \<open>common.go\<close>, \<open>analysis.go\<close>, \<open>contract.go\<close>,
  \<open>memory_table.go\<close>, \<open>stack_table.go\<close>) and the interfaces of the machine to the state and to its
  context (\<open>interface.go\<close>, \<open>evm.go\<close>).

  Integers on the stack are values: the integer pool of the code only recycles memory.  The stack is
  a list with its top first.  A run-time panic is the value \<open>Panics\<close>, and \<open>NoFuel\<close> stands for a
  recursion that was cut off.
\<close>

subsection \<open>Results\<close>

datatype 'a outcome = NoFuel | Panics | Value 'a

definition obind :: "'a outcome \<Rightarrow> ('a \<Rightarrow> 'b outcome) \<Rightarrow> 'b outcome" where
  "obind m f = (case m of NoFuel \<Rightarrow> NoFuel | Panics \<Rightarrow> Panics | Value x \<Rightarrow> f x)"

definition of_opt :: "'a option \<Rightarrow> 'a outcome" where
  "of_opt m = (case m of None \<Rightarrow> Panics | Some x \<Rightarrow> Value x)"

lemma obind_simps [simp]: "obind NoFuel f = NoFuel" "obind Panics f = Panics" "obind (Value x) f = f x"
  by (simp_all add: obind_def)

lemma of_opt_simps [simp]: "of_opt None = Panics" "of_opt (Some x) = Value x"
  by (simp_all add: of_opt_def)

datatype vm_error =
    ErrOutOfGas | ErrCodeStoreOutOfGas | ErrDepth | ErrInsufficientBalance | ErrContractAddressCollision
  | ErrNoCompatibleInterpreter | errGasUintOverflow | errWriteProtection | errReturnDataOutOfBounds
  | errExecutionReverted | errMaxCodeSizeExceeded | errInvalidOpcode | errInvalidJump | errStackUnderflow | errStackLimit
  | errPrecompile

subsection \<open>Conversions\<close>

text \<open>\<open>Int64\<close> and \<open>Uint64\<close> of a big integer take its low 64 bits; a Go \<open>int\<close> has 64 bits.\<close>

definition Int64 :: "bigint \<Rightarrow> int" where
  "Int64 x = sint (word_of_int x :: 64 word)"

definition BigToAddress :: "bigint \<Rightarrow> address" where
  "BigToAddress b = word_of_int \<bar>b\<bar>"

definition BigToHash :: "bigint \<Rightarrow> hash" where
  "BigToHash b = word_of_int \<bar>b\<bar>"

definition RightPadBytes :: "bytes \<Rightarrow> int \<Rightarrow> bytes" where
  "RightPadBytes s l = (if l \<le> int (length s) then s else s @ replicate (nat l - length s) 0)"

text \<open>A slice \<open>data[a:b]\<close>; bounds outside the slice panic.\<close>

definition slice :: "bytes \<Rightarrow> int \<Rightarrow> int \<Rightarrow> bytes option" where
  "slice d a b = (if 0 \<le> a \<and> a \<le> b \<and> b \<le> int (length d) then Some (take (nat (b - a)) (drop (nat a) d)) else None)"

subsection \<open>common.go\<close>

definition calcMemSize :: "bigint \<Rightarrow> bigint \<Rightarrow> bigint" where
  "calcMemSize off l = (if l = 0 then 0 else off + l)"

definition getDataBig :: "bytes \<Rightarrow> bigint \<Rightarrow> bigint \<Rightarrow> bytes option" where
  "getDataBig data start sz =
     (let dlen = int (length data); s = BigMin start dlen; e = BigMin (s + sz) dlen in
      map_option (\<lambda>d. RightPadBytes d (Int64 sz)) (slice data (uint (Uint64 s)) (uint (Uint64 e))))"

definition bigUint64 :: "bigint \<Rightarrow> u64 \<times> bool" where
  "bigUint64 v = (Uint64 v, 64 < BitLen v)"

definition toWordSize :: "u64 \<Rightarrow> u64" where
  "toWordSize sz = (if sz > max_u64 - 31 then max_u64 div 32 + 1 else (sz + 31) div 32)"

definition allZero :: "bytes \<Rightarrow> bool" where
  "allZero b = list_all (\<lambda>x. x = 0) b"

subsection \<open>stack.go\<close>

definition stack_Back :: "bigint list \<Rightarrow> nat \<Rightarrow> bigint option" where
  "stack_Back st n = (if n < length st then Some (st ! n) else None)"

definition stack_swap :: "bigint list \<Rightarrow> nat \<Rightarrow> bigint list option" where
  "stack_swap st n = (if 0 < n \<and> n \<le> length st then Some (st[n - 1 := st ! 0, 0 := st ! (n - 1)]) else None)"

definition stack_dup :: "bigint list \<Rightarrow> nat \<Rightarrow> bigint list option" where
  "stack_dup st n = (if 0 < n \<and> n \<le> length st then Some (st ! (n - 1) # st) else None)"

definition stack_require :: "bigint list \<Rightarrow> nat \<Rightarrow> vm_error option" where
  "stack_require st n = (if length st < n then Some errStackUnderflow else None)"

subsection \<open>stack_table.go\<close>

definition makeStackFunc :: "nat \<Rightarrow> nat \<Rightarrow> bigint list \<Rightarrow> vm_error option" where
  "makeStackFunc pop push st =
     (case stack_require st pop of
        Some err \<Rightarrow> Some err
      | None \<Rightarrow> if int (length st) + int push - int pop > int StackLimit then Some errStackLimit else None)"

definition makeDupStackFunc :: "nat \<Rightarrow> bigint list \<Rightarrow> vm_error option" where
  "makeDupStackFunc n = makeStackFunc n (n + 1)"

definition makeSwapStackFunc :: "nat \<Rightarrow> bigint list \<Rightarrow> vm_error option" where
  "makeSwapStackFunc n = makeStackFunc n n"

subsection \<open>memory.go\<close>

record Memory =
  mem_store :: bytes
  lastGasCost :: u64

definition NewMemory :: Memory where
  "NewMemory = \<lparr>mem_store = [], lastGasCost = 0\<rparr>"

definition mem_Set :: "Memory \<Rightarrow> u64 \<Rightarrow> u64 \<Rightarrow> bytes \<Rightarrow> Memory option" where
  "mem_Set m offset sz val =
     (if sz = 0 then Some m
      else if unat (offset + sz) > length (mem_store m) \<or> offset > offset + sz then None
      else let off = unat offset; v = take (unat sz) val in
           Some (m\<lparr>mem_store := take off (mem_store m) @ v @ drop (off + length v) (mem_store m)\<rparr>))"

definition mem_Set32 :: "Memory \<Rightarrow> u64 \<Rightarrow> bigint \<Rightarrow> Memory option" where
  "mem_Set32 m offset val =
     (if unat (offset + 32) > length (mem_store m) \<or> offset > offset + 32 then None
      else let off = unat offset in
           Some (m\<lparr>mem_store := take off (mem_store m) @ ReadBits val (replicate 32 0) @ drop (off + 32) (mem_store m)\<rparr>))"

definition mem_Resize :: "Memory \<Rightarrow> u64 \<Rightarrow> Memory" where
  "mem_Resize m sz =
     (if length (mem_store m) < unat sz
      then m\<lparr>mem_store := mem_store m @ replicate (unat sz - length (mem_store m)) 0\<rparr> else m)"

text \<open>\<open>Get\<close> and \<open>GetPtr\<close> return the same bytes; the second one without copying them.\<close>

definition mem_Get :: "Memory \<Rightarrow> int \<Rightarrow> int \<Rightarrow> bytes option" where
  "mem_Get m offset sz =
     (if sz = 0 then Some []
      else if int (length (mem_store m)) > offset
      then slice (mem_store m) offset (offset + sz)
      else Some [])"

subsection \<open>analysis.go\<close>

type_synonym bitvec = bytes

definition bitvec_or :: "bitvec \<Rightarrow> nat \<Rightarrow> byte \<Rightarrow> bitvec option" where
  "bitvec_or bits i v = (if i < length bits then Some (bits[i := bits ! i OR v]) else None)"

definition bitvec_set :: "bitvec \<Rightarrow> nat \<Rightarrow> bitvec option" where
  "bitvec_set bits pos = bitvec_or bits (pos div 8) (drop_bit (pos mod 8) 0x80)"

definition bitvec_set8 :: "bitvec \<Rightarrow> nat \<Rightarrow> bitvec option" where
  "bitvec_set8 bits pos =
     (case bitvec_or bits (pos div 8) (drop_bit (pos mod 8) 0xFF) of
        None \<Rightarrow> None
      | Some b \<Rightarrow> bitvec_or b (pos div 8 + 1) (NOT (drop_bit (pos mod 8) 0xFF)))"

definition codeSegment :: "bitvec \<Rightarrow> nat \<Rightarrow> bool option" where
  "codeSegment bits pos =
     (if pos div 8 < length bits then Some (bits ! (pos div 8) AND drop_bit (pos mod 8) 0x80 = 0) else None)"

text \<open>The two inner loops of \<open>codeBitmap\<close>: marking the operand of a PUSH by eights, then one by one.\<close>

fun set_loop :: "nat \<Rightarrow> bitvec \<Rightarrow> nat \<Rightarrow> (bitvec \<times> nat) option" where
  "set_loop 0 bits pc = Some (bits, pc)"
| "set_loop (Suc n) bits pc = (case bitvec_set bits pc of None \<Rightarrow> None | Some b \<Rightarrow> set_loop n b (pc + 1))"

function set8_loop :: "nat \<Rightarrow> bitvec \<Rightarrow> nat \<Rightarrow> (bitvec \<times> nat) option" where
  "set8_loop numbits bits pc =
     (if 8 \<le> numbits then (case bitvec_set8 bits pc of None \<Rightarrow> None | Some b \<Rightarrow> set8_loop (numbits - 8) b (pc + 8))
      else set_loop numbits bits pc)"
  by pat_completeness auto
termination
  by (relation "measure (\<lambda>(n, b, pc). n)") auto

declare set8_loop.simps [simp del]

definition is_PUSH :: "byte \<Rightarrow> bool" where
  "is_PUSH op \<longleftrightarrow> 0x60 \<le> op \<and> op \<le> 0x7f"

lemma set_loop_pc: "set_loop n bits pc = Some (b, p) \<Longrightarrow> p = pc + n"
  by (induction n arbitrary: bits pc) (fastforce split: option.splits)+

lemma set8_loop_pc: "set8_loop n bits pc = Some (b, p) \<Longrightarrow> p = pc + n"
proof (induction n bits pc rule: set8_loop.induct)
  case (1 n bits pc)
  show ?case
    using "1.prems" "1.IH" unfolding set8_loop.simps[of n bits pc]
    by (fastforce split: if_splits option.splits dest: set_loop_pc)
qed

function codeBitmap_loop :: "bytes \<Rightarrow> bitvec \<Rightarrow> nat \<Rightarrow> bitvec option" where
  "codeBitmap_loop code bits pc =
     (if pc < length code
      then let op = code ! pc in
           if is_PUSH op
           then (case set8_loop (unat (op - 0x60) + 1) bits (pc + 1) of
                   None \<Rightarrow> None
                 | Some (b, pc') \<Rightarrow> codeBitmap_loop code b pc')
           else codeBitmap_loop code bits (pc + 1)
      else Some bits)"
  by pat_completeness auto
termination
  by (relation "measure (\<lambda>(c, b, pc). length c - pc)") (auto dest: set8_loop_pc)

declare codeBitmap_loop.simps [simp del]

definition codeBitmap :: "bytes \<Rightarrow> bitvec option" where
  "codeBitmap code = codeBitmap_loop code (replicate (length code div 8 + 1 + 4) 0) 0"

subsection \<open>contract.go\<close>

text \<open>
  The reference to the caller is only used while a contract is set up, so it is an argument there.
  The map \<open>jumpdests\<close> that a contract shares with its callers is a field of the machine.
\<close>

record Contract =
  CallerAddress :: address
  c_self :: address
  c_analysis :: "bitvec option"
  c_Code :: bytes
  c_CodeHash :: hash
  c_CodeAddr :: "address option"
  c_Input :: bytes
  c_Gas :: u64
  c_value :: bigint

datatype ContractRef = AccountRef address | IsContract Contract

fun ref_Address :: "ContractRef \<Rightarrow> address" where
  "ref_Address (AccountRef a) = a"
| "ref_Address (IsContract c) = c_self c"

definition NewContract :: "ContractRef \<Rightarrow> address \<Rightarrow> bigint \<Rightarrow> u64 \<Rightarrow> Contract" where
  "NewContract caller object val gas =
     \<lparr>CallerAddress = ref_Address caller, c_self = object, c_analysis = None, c_Code = [], c_CodeHash = 0,
      c_CodeAddr = None, c_Input = [], c_Gas = gas, c_value = val\<rparr>"

fun AsDelegate :: "ContractRef \<Rightarrow> Contract \<Rightarrow> Contract option" where
  "AsDelegate (IsContract parent) c = Some (c\<lparr>CallerAddress := CallerAddress parent, c_value := c_value parent\<rparr>)"
| "AsDelegate (AccountRef a) c = None"

definition GetByte :: "Contract \<Rightarrow> u64 \<Rightarrow> byte" where
  "GetByte c n = (if unat n < length (c_Code c) then c_Code c ! unat n else 0)"

definition GetOp :: "Contract \<Rightarrow> u64 \<Rightarrow> byte" where
  "GetOp c n = GetByte c n"

definition UseGas :: "Contract \<Rightarrow> u64 \<Rightarrow> Contract \<times> bool" where
  "UseGas c gas = (if c_Gas c < gas then (c, False) else (c\<lparr>c_Gas := c_Gas c - gas\<rparr>, True))"

definition SetCallCode :: "address \<Rightarrow> hash \<Rightarrow> bytes \<Rightarrow> Contract \<Rightarrow> Contract" where
  "SetCallCode addr h code c = c\<lparr>c_Code := code, c_CodeHash := h, c_CodeAddr := Some addr\<rparr>"

abbreviation JUMPDEST :: byte where "JUMPDEST \<equiv> 0x5b"

definition validJumpdest ::
  "(hash, bitvec) gomap \<Rightarrow> Contract \<Rightarrow> bigint \<Rightarrow> ((hash, bitvec) gomap \<times> Contract \<times> bool) option" where
  "validJumpdest jumpdests c dest =
     (let udest = unat (Uint64 dest) in
      if 63 \<le> BitLen dest \<or> length (c_Code c) \<le> udest then Some (jumpdests, c, False)
      else if c_Code c ! udest \<noteq> JUMPDEST then Some (jumpdests, c, False)
      else if c_CodeHash c \<noteq> 0
      then (case gm_get jumpdests (c_CodeHash c) of
              Some a \<Rightarrow> map_option (\<lambda>r. (jumpdests, c, r)) (codeSegment a udest)
            | None \<Rightarrow> (case codeBitmap (c_Code c) of
                         None \<Rightarrow> None
                       | Some a \<Rightarrow> map_option (\<lambda>r. (gm_set (c_CodeHash c) a jumpdests, c, r)) (codeSegment a udest)))
      else (case c_analysis c of
              Some a \<Rightarrow> map_option (\<lambda>r. (jumpdests, c, r)) (codeSegment a udest)
            | None \<Rightarrow> (case codeBitmap (c_Code c) of
                         None \<Rightarrow> None
                       | Some a \<Rightarrow> map_option (\<lambda>r. (jumpdests, c\<lparr>c_analysis := Some a\<rparr>, r)) (codeSegment a udest))))"

subsection \<open>memory_table.go\<close>

text \<open>\<open>back2 i j\<close> is the size of the memory that the offset and length at two stack positions ask for.\<close>

definition back2 :: "nat \<Rightarrow> nat \<Rightarrow> bigint list \<Rightarrow> bigint option" where
  "back2 i j st = (case stack_Back st i of None \<Rightarrow> None | Some off \<Rightarrow> map_option (calcMemSize off) (stack_Back st j))"

definition memorySha3 :: "bigint list \<Rightarrow> bigint option" where
  "memorySha3 = back2 0 1"

definition memoryCallDataCopy :: "bigint list \<Rightarrow> bigint option" where
  "memoryCallDataCopy = back2 0 2"

definition memoryReturnDataCopy :: "bigint list \<Rightarrow> bigint option" where
  "memoryReturnDataCopy = back2 0 2"

definition memoryCodeCopy :: "bigint list \<Rightarrow> bigint option" where
  "memoryCodeCopy = back2 0 2"

definition memoryExtCodeCopy :: "bigint list \<Rightarrow> bigint option" where
  "memoryExtCodeCopy = back2 1 3"

definition memoryMLoad :: "bigint list \<Rightarrow> bigint option" where
  "memoryMLoad st = map_option (\<lambda>off. calcMemSize off 32) (stack_Back st 0)"

definition memoryMStore8 :: "bigint list \<Rightarrow> bigint option" where
  "memoryMStore8 st = map_option (\<lambda>off. calcMemSize off 1) (stack_Back st 0)"

definition memoryMStore :: "bigint list \<Rightarrow> bigint option" where
  "memoryMStore st = map_option (\<lambda>off. calcMemSize off 32) (stack_Back st 0)"

definition memoryCreate :: "bigint list \<Rightarrow> bigint option" where
  "memoryCreate = back2 1 2"

definition memoryCreate2 :: "bigint list \<Rightarrow> bigint option" where
  "memoryCreate2 = back2 1 2"

definition max_back2 :: "bigint option \<Rightarrow> bigint option \<Rightarrow> bigint option" where
  "max_back2 x y = (case x of None \<Rightarrow> None | Some a \<Rightarrow> map_option (BigMax a) y)"

definition memoryCall :: "bigint list \<Rightarrow> bigint option" where
  "memoryCall st = max_back2 (back2 5 6 st) (back2 3 4 st)"

definition memoryDelegateCall :: "bigint list \<Rightarrow> bigint option" where
  "memoryDelegateCall st = max_back2 (back2 4 5 st) (back2 2 3 st)"

definition memoryStaticCall :: "bigint list \<Rightarrow> bigint option" where
  "memoryStaticCall st = max_back2 (back2 4 5 st) (back2 2 3 st)"

definition memoryReturn :: "bigint list \<Rightarrow> bigint option" where
  "memoryReturn = back2 0 1"

definition memoryRevert :: "bigint list \<Rightarrow> bigint option" where
  "memoryRevert = back2 0 1"

definition memoryLog :: "bigint list \<Rightarrow> bigint option" where
  "memoryLog = back2 0 1"

subsection \<open>The interface to the state, and the machine\<close>

text \<open>
  The operations of \<open>vm.StateDB\<close> on a state of type \<open>'w\<close>.  Reads return the state as well since they
  may fill caches; \<open>SubRefund\<close> and \<open>RevertToSnapshot\<close> may panic.
\<close>

record 'w vm_StateDB =
  vs_CreateAccount :: "address \<Rightarrow> 'w \<Rightarrow> 'w"
  vs_SubBalance :: "address \<Rightarrow> bigint \<Rightarrow> 'w \<Rightarrow> 'w"
  vs_AddBalance :: "address \<Rightarrow> bigint \<Rightarrow> 'w \<Rightarrow> 'w"
  vs_GetBalance :: "address \<Rightarrow> 'w \<Rightarrow> 'w \<times> bigint"
  vs_GetNonce :: "address \<Rightarrow> 'w \<Rightarrow> 'w \<times> u64"
  vs_SetNonce :: "address \<Rightarrow> u64 \<Rightarrow> 'w \<Rightarrow> 'w"
  vs_GetCodeHash :: "address \<Rightarrow> 'w \<Rightarrow> 'w \<times> hash"
  vs_GetCode :: "address \<Rightarrow> 'w \<Rightarrow> 'w \<times> bytes"
  vs_SetCode :: "address \<Rightarrow> bytes \<Rightarrow> 'w \<Rightarrow> 'w"
  vs_GetCodeSize :: "address \<Rightarrow> 'w \<Rightarrow> 'w \<times> nat"
  vs_AddRefund :: "u64 \<Rightarrow> 'w \<Rightarrow> 'w"
  vs_SubRefund :: "u64 \<Rightarrow> 'w \<Rightarrow> 'w option"
  vs_GetRefund :: "'w \<Rightarrow> u64"
  vs_GetCommittedState :: "address \<Rightarrow> hash \<Rightarrow> 'w \<Rightarrow> 'w \<times> hash"
  vs_GetState :: "address \<Rightarrow> hash \<Rightarrow> 'w \<Rightarrow> 'w \<times> hash"
  vs_SetState :: "address \<Rightarrow> hash \<Rightarrow> hash \<Rightarrow> 'w \<Rightarrow> 'w"
  vs_Suicide :: "address \<Rightarrow> 'w \<Rightarrow> 'w \<times> bool"
  vs_HasSuicided :: "address \<Rightarrow> 'w \<Rightarrow> 'w \<times> bool"
  vs_Exist :: "address \<Rightarrow> 'w \<Rightarrow> 'w \<times> bool"
  vs_Empty :: "address \<Rightarrow> 'w \<Rightarrow> 'w \<times> bool"
  vs_RevertToSnapshot :: "nat \<Rightarrow> 'w \<Rightarrow> 'w option"
  vs_Snapshot :: "'w \<Rightarrow> 'w \<times> nat"
  vs_AddLog :: "Log \<Rightarrow> 'w \<Rightarrow> 'w"
  vs_AddPreimage :: "hash \<Rightarrow> bytes \<Rightarrow> 'w \<Rightarrow> 'w"

record PrecompiledContract =
  RequiredGas :: "bytes \<Rightarrow> u64"
  pc_Run :: "bytes \<Rightarrow> bytes \<times> bool"

text \<open>
  What does not change while a machine runs: the context of the block and the message, the chain
  configuration, the options, the tables of precompiled contracts and the hash functions (which
  belong to other packages).  \<open>pc_Run\<close> says whether an error came back.
\<close>

record 'w vm =
  vm_db :: "'w vm_StateDB"
  ctx_CanTransfer :: "address \<Rightarrow> bigint \<Rightarrow> 'w \<Rightarrow> 'w \<times> bool"
  ctx_Transfer :: "address \<Rightarrow> address \<Rightarrow> bigint \<Rightarrow> 'w \<Rightarrow> 'w"
  ctx_GetHash :: "u64 \<Rightarrow> hash"
  ctx_Origin :: address
  ctx_GasPrice :: bigint
  ctx_Coinbase :: address
  ctx_GasLimit :: u64
  ctx_BlockNumber :: bigint
  ctx_Time :: bigint
  ctx_Difficulty :: bigint
  vm_chainConfig :: ChainConfig
  vm_NoRecursion :: bool
  vm_EnablePreimageRecording :: bool
  PrecompiledContractsHomestead :: "(address, PrecompiledContract) gomap"
  PrecompiledContractsByzantium :: "(address, PrecompiledContract) gomap"
  vm_Keccak256Hash :: "bytes \<Rightarrow> hash"
  vm_CreateAddress :: "address \<Rightarrow> u64 \<Rightarrow> address"
  vm_CreateAddress2 :: "address \<Rightarrow> hash \<Rightarrow> hash \<Rightarrow> address"

abbreviation vm_block :: "'w vm \<Rightarrow> bigint option" where
  "vm_block V \<equiv> Some (ctx_BlockNumber V)"

definition chainRules :: "'w vm \<Rightarrow> Rules" where
  "chainRules V = config_Rules (vm_chainConfig V) (vm_block V)"

text \<open>What changes: the fields of the \<open>EVM\<close> and of its interpreter.\<close>

record 'w evm =
  evm_StateDB :: 'w
  evm_depth :: nat
  evm_abort :: bool
  evm_callGasTemp :: u64
  in_readOnly :: bool
  in_returnData :: bytes
  evm_jumpdests :: "(hash, bitvec) gomap"

text \<open>The local state of one activation of the interpreter loop.\<close>

record frame =
  fr_pc :: u64
  fr_contract :: Contract
  fr_mem :: Memory
  fr_stack :: "bigint list"

definition on_state :: "('w \<Rightarrow> 'w) \<Rightarrow> 'w evm \<Rightarrow> 'w evm" where
  "on_state f evm = evm\<lparr>evm_StateDB := f (evm_StateDB evm)\<rparr>"

definition read_state :: "('w \<Rightarrow> 'w \<times> 'r) \<Rightarrow> 'w evm \<Rightarrow> 'w evm \<times> 'r" where
  "read_state f evm = (let (w, r) = f (evm_StateDB evm) in (evm\<lparr>evm_StateDB := w\<rparr>, r))"

end
