(* ===== verification/Evm_Gas.thy ===== *)
theory Evm_Gas
  imports Evm_Data
begin

text \<open>
  The gas schedule of the virtual machine (\<open>gas.go\<close>, \<open>gas_table.go\<close>).  A gas function gets the gas
  prices, the machine, the contract, the stack, the memory and the requested memory size; it may
  record the cost of the memory, add to the refund counter and note the gas of a call, and
  returns the cost or an error.
\<close>

abbreviation GasQuickStep :: u64 where "GasQuickStep \<equiv> 2"
abbreviation GasFastestStep :: u64 where "GasFastestStep \<equiv> 3"
abbreviation GasFastStep :: u64 where "GasFastStep \<equiv> 5"
abbreviation GasMidStep :: u64 where "GasMidStep \<equiv> 8"
abbreviation GasSlowStep :: u64 where "GasSlowStep \<equiv> 10"
abbreviation GasExtStep :: u64 where "GasExtStep \<equiv> 20"

type_synonym 'w gas_result = "('w evm \<times> Memory \<times> (vm_error + u64)) outcome"
type_synonym 'w gasFunc = "GasTable \<Rightarrow> 'w vm \<Rightarrow> 'w evm \<Rightarrow> Contract \<Rightarrow> bigint list \<Rightarrow> Memory \<Rightarrow> u64 \<Rightarrow> 'w gas_result"

definition callGas :: "GasTable \<Rightarrow> u64 \<Rightarrow> u64 \<Rightarrow> bigint \<Rightarrow> vm_error + u64" where
  "callGas gt availableGas base callCost =
     (let a = availableGas - base; gas = a - a div 64 in
      if gt_CreateBySuicide gt > 0 \<and> (64 < BitLen callCost \<or> gas < Uint64 callCost) then Inr gas
      else if 64 < BitLen callCost then Inl errGasUintOverflow
      else Inr (Uint64 callCost))"

definition memoryGasCost :: "Memory \<Rightarrow> u64 \<Rightarrow> Memory \<times> (vm_error + u64)" where
  "memoryGasCost mem newMemSize =
     (if newMemSize = 0 then (mem, Inr 0)
      else if newMemSize > 0xffffffffe0 then (mem, Inl errGasUintOverflow)
      else let newMemSizeWords = toWordSize newMemSize; newMemSize' = newMemSizeWords * 32 in
           if unat newMemSize' > length (mem_store mem)
           then let square = newMemSizeWords * newMemSizeWords; linCoef = newMemSizeWords * MemoryGas;
                    quadCoef = square div QuadCoeffDiv; newTotalFee = linCoef + quadCoef
                in (mem\<lparr>lastGasCost := newTotalFee\<rparr>, Inr (newTotalFee - lastGasCost mem))
           else (mem, Inr 0))"

text \<open>Adding with an overflow check, and the charge per word of the length at a stack position.\<close>

definition safe_add_gas :: "u64 \<Rightarrow> vm_error + u64 \<Rightarrow> vm_error + u64" where
  "safe_add_gas k r =
     (case r of Inl e \<Rightarrow> Inl e
      | Inr gas \<Rightarrow> (case SafeAdd gas k of (s, overflow) \<Rightarrow> if overflow then Inl errGasUintOverflow else Inr s))"

definition word_gas :: "bigint \<Rightarrow> u64 \<Rightarrow> vm_error + u64 \<Rightarrow> vm_error + u64" where
  "word_gas len rate r =
     (case r of Inl e \<Rightarrow> Inl e
      | Inr gas \<Rightarrow>
          (case bigUint64 len of (words, overflow) \<Rightarrow>
             if overflow then Inl errGasUintOverflow
             else (case SafeMul (toWordSize words) rate of (w, overflow) \<Rightarrow>
                     if overflow then Inl errGasUintOverflow else safe_add_gas w (Inr gas))))"

definition with_back :: "bigint list \<Rightarrow> nat \<Rightarrow> (bigint \<Rightarrow> 'a outcome) \<Rightarrow> 'a outcome" where
  "with_back st n f = obind (of_opt (stack_Back st n)) f"

definition constGasFunc :: "u64 \<Rightarrow> 'w gasFunc" where
  "constGasFunc gas gt V evm contract st mem memorySize = Value (evm, mem, Inr gas)"

definition mem_gas :: "Memory \<Rightarrow> u64 \<Rightarrow> (vm_error + u64 \<Rightarrow> vm_error + u64) \<Rightarrow> 'w evm \<Rightarrow> 'w gas_result" where
  "mem_gas mem memorySize f evm = (case memoryGasCost mem memorySize of (mem', r) \<Rightarrow> Value (evm, mem', f r))"

definition gasCallDataCopy :: "'w gasFunc" where
  "gasCallDataCopy gt V evm contract st mem memorySize =
     with_back st 2 (\<lambda>len. mem_gas mem memorySize (word_gas len CopyGas \<circ> safe_add_gas GasFastestStep) evm)"

definition gasReturnDataCopy :: "'w gasFunc" where
  "gasReturnDataCopy gt V evm contract st mem memorySize =
     with_back st 2 (\<lambda>len. mem_gas mem memorySize (word_gas len CopyGas \<circ> safe_add_gas GasFastestStep) evm)"

subsection \<open>Storage\<close>

text \<open>The legacy rules, and the net metering of EIP-1283 that only Constantinople before Petersburg uses.\<close>

definition sstore_legacy :: "'w vm \<Rightarrow> hash \<Rightarrow> bigint \<Rightarrow> 'w evm \<Rightarrow> 'w evm \<times> u64" where
  "sstore_legacy V current y evm =
     (if current = 0 \<and> y \<noteq> 0 then (evm, SstoreSetGas)
      else if current \<noteq> 0 \<and> y = 0 then (on_state (vs_AddRefund (vm_db V) SstoreRefundGas) evm, SstoreClearGas)
      else (evm, SstoreResetGas))"

definition sub_refund :: "'w vm \<Rightarrow> u64 \<Rightarrow> 'w evm \<Rightarrow> 'w evm outcome" where
  "sub_refund V g evm =
     obind (of_opt (vs_SubRefund (vm_db V) g (evm_StateDB evm))) (\<lambda>w. Value (evm\<lparr>evm_StateDB := w\<rparr>))"

definition sstore_net :: "'w vm \<Rightarrow> address \<Rightarrow> hash \<Rightarrow> hash \<Rightarrow> hash \<Rightarrow> 'w evm \<Rightarrow> ('w evm \<times> u64) outcome" where
  "sstore_net V a key current val evm =
     (if current = val then Value (evm, NetSstoreNoopGas)
      else
        let (evm1, original) = read_state (vs_GetCommittedState (vm_db V) a key) evm;
            add = (\<lambda>g. on_state (vs_AddRefund (vm_db V) g))
        in
        if original = current
        then if original = 0 then Value (evm1, NetSstoreInitGas)
             else Value (if val = 0 then add NetSstoreClearRefund evm1 else evm1, NetSstoreCleanGas)
        else
          obind (if original \<noteq> 0
                 then if current = 0 then sub_refund V NetSstoreClearRefund evm1
                      else Value (if val = 0 then add NetSstoreClearRefund evm1 else evm1)
                 else Value evm1)
            (\<lambda>evm2. Value (if original = val
                           then (if original = 0 then add NetSstoreResetClearRefund evm2 else add NetSstoreResetRefund evm2)
                           else evm2, NetSstoreDirtyGas)))"

definition gasSStore :: "'w gasFunc" where
  "gasSStore gt V evm contract st mem memorySize =
     with_back st 1 (\<lambda>y. with_back st 0 (\<lambda>x.
       let (evm1, current) = read_state (vs_GetState (vm_db V) (c_self contract) (BigToHash x)) evm in
       if r_IsPetersburg (chainRules V) \<or> \<not> r_IsConstantinople (chainRules V)
       then let (evm2, gas) = sstore_legacy V current y evm1 in Value (evm2, mem, Inr gas)
       else obind (sstore_net V (c_self contract) (BigToHash x) current (BigToHash y) evm1)
              (\<lambda>(evm2, gas). Value (evm2, mem, Inr gas))))"

definition makeGasLog :: "u64 \<Rightarrow> 'w gasFunc" where
  "makeGasLog n gt V evm contract st mem memorySize =
     with_back st 1 (\<lambda>len.
       case bigUint64 len of (requestedSize, overflow) \<Rightarrow>
         if overflow then Value (evm, mem, Inl errGasUintOverflow)
         else mem_gas mem memorySize (\<lambda>r.
                case safe_add_gas (n * LogTopicGas) (safe_add_gas LogGas r) of
                  Inl e \<Rightarrow> Inl e
                | Inr gas \<Rightarrow>
                    (case SafeMul requestedSize LogDataGas of (m, overflow) \<Rightarrow>
                       if overflow then Inl errGasUintOverflow else safe_add_gas m (Inr gas))) evm)"

definition gasSha3 :: "'w gasFunc" where
  "gasSha3 gt V evm contract st mem memorySize =
     with_back st 1 (\<lambda>len. mem_gas mem memorySize (word_gas len Sha3WordGas \<circ> safe_add_gas Sha3Gas) evm)"

definition gasCodeCopy :: "'w gasFunc" where
  "gasCodeCopy gt V evm contract st mem memorySize =
     with_back st 2 (\<lambda>len. mem_gas mem memorySize (word_gas len CopyGas \<circ> safe_add_gas GasFastestStep) evm)"

definition gasExtCodeCopy :: "'w gasFunc" where
  "gasExtCodeCopy gt V evm contract st mem memorySize =
     with_back st 3 (\<lambda>len. mem_gas mem memorySize (word_gas len CopyGas \<circ> safe_add_gas (gt_ExtcodeCopy gt)) evm)"

definition gasExtCodeHash :: "'w gasFunc" where
  "gasExtCodeHash gt V evm contract st mem memorySize = Value (evm, mem, Inr (gt_ExtcodeHash gt))"

definition gasMLoad :: "'w gasFunc" where
  "gasMLoad gt V evm contract st mem memorySize = mem_gas mem memorySize (safe_add_gas GasFastestStep) evm"

definition gasMStore8 :: "'w gasFunc" where
  "gasMStore8 gt V evm contract st mem memorySize = mem_gas mem memorySize (safe_add_gas GasFastestStep) evm"

definition gasMStore :: "'w gasFunc" where
  "gasMStore gt V evm contract st mem memorySize = mem_gas mem memorySize (safe_add_gas GasFastestStep) evm"

definition gasCreate :: "'w gasFunc" where
  "gasCreate gt V evm contract st mem memorySize = mem_gas mem memorySize (safe_add_gas CreateGas) evm"

definition gasCreate2 :: "'w gasFunc" where
  "gasCreate2 gt V evm contract st mem memorySize =
     with_back st 2 (\<lambda>len. mem_gas mem memorySize (word_gas len Sha3WordGas \<circ> safe_add_gas Create2Gas) evm)"

definition gasBalance :: "'w gasFunc" where
  "gasBalance gt V evm contract st mem memorySize = Value (evm, mem, Inr (gt_Balance gt))"

definition gasExtCodeSize :: "'w gasFunc" where
  "gasExtCodeSize gt V evm contract st mem memorySize = Value (evm, mem, Inr (gt_ExtcodeSize gt))"

definition gasSLoad :: "'w gasFunc" where
  "gasSLoad gt V evm contract st mem memorySize = Value (evm, mem, Inr (gt_SLoad gt))"

definition gasExp :: "'w gasFunc" where
  "gasExp gt V evm contract st mem memorySize =
     with_back st 1 (\<lambda>e. let expByteLen = of_nat ((BitLen e + 7) div 8)
       in Value (evm, mem, safe_add_gas ExpGas (Inr (expByteLen * gt_ExpByte gt))))"

subsection \<open>Calls\<close>

text \<open>The common end of the call gas functions: what the callee may use, noted for the call, and charged.\<close>

definition charge_call :: "GasTable \<Rightarrow> Contract \<Rightarrow> bigint \<Rightarrow> vm_error + u64 \<Rightarrow> Memory \<Rightarrow> 'w evm \<Rightarrow> 'w gas_result" where
  "charge_call gt contract callCost r mem evm =
     (case r of
        Inl e \<Rightarrow> Value (evm, mem, Inl e)
      | Inr gas \<Rightarrow>
          (case callGas gt (c_Gas contract) gas callCost of
             Inl e \<Rightarrow> Value (evm\<lparr>evm_callGasTemp := 0\<rparr>, mem, Inl e)
           | Inr g \<Rightarrow> Value (evm\<lparr>evm_callGasTemp := g\<rparr>, mem, safe_add_gas g (Inr gas))))"

definition call_account_gas :: "'w vm \<Rightarrow> bool \<Rightarrow> address \<Rightarrow> 'w evm \<Rightarrow> 'w evm \<times> u64" where
  "call_account_gas V transfersValue a evm =
     (if IsEIP158 (vm_chainConfig V) (vm_block V)
      then if transfersValue
           then let (evm1, e) = read_state (vs_Empty (vm_db V) a) evm in (evm1, if e then CallNewAccountGas else 0)
           else (evm, 0)
      else let (evm1, e) = read_state (vs_Exist (vm_db V) a) evm in (evm1, if \<not> e then CallNewAccountGas else 0))"

definition gasCall :: "'w gasFunc" where
  "gasCall gt V evm contract st mem memorySize =
     with_back st 2 (\<lambda>val. with_back st 1 (\<lambda>a. with_back st 0 (\<lambda>callCost.
       let transfersValue = (val \<noteq> 0);
           (evm1, acc) = call_account_gas V transfersValue (BigToAddress a) evm;
           gas = gt_Calls gt + acc + (if transfersValue then CallValueTransferGas else 0);
           (mem1, r) = memoryGasCost mem memorySize
       in charge_call gt contract callCost
            (case r of Inl e \<Rightarrow> Inl e | Inr memoryGas \<Rightarrow> safe_add_gas memoryGas (Inr gas)) mem1 evm1)))"

definition gasCallCode :: "'w gasFunc" where
  "gasCallCode gt V evm contract st mem memorySize =
     with_back st 2 (\<lambda>val. with_back st 0 (\<lambda>callCost.
       let gas = gt_Calls gt + (if val \<noteq> 0 then CallValueTransferGas else 0);
           (mem1, r) = memoryGasCost mem memorySize
       in charge_call gt contract callCost
            (case r of Inl e \<Rightarrow> Inl e | Inr memoryGas \<Rightarrow> safe_add_gas memoryGas (Inr gas)) mem1 evm))"

definition gasDelegateCall :: "'w gasFunc" where
  "gasDelegateCall gt V evm contract st mem memorySize =
     with_back st 0 (\<lambda>callCost.
       let (mem1, r) = memoryGasCost mem memorySize
       in charge_call gt contract callCost (safe_add_gas (gt_Calls gt) r) mem1 evm)"

definition gasStaticCall :: "'w gasFunc" where
  "gasStaticCall gt V evm contract st mem memorySize =
     with_back st 0 (\<lambda>callCost.
       let (mem1, r) = memoryGasCost mem memorySize
       in charge_call gt contract callCost (safe_add_gas (gt_Calls gt) r) mem1 evm)"

definition gasReturn :: "'w gasFunc" where
  "gasReturn gt V evm contract st mem memorySize = mem_gas mem memorySize (\<lambda>r. r) evm"

definition gasRevert :: "'w gasFunc" where
  "gasRevert gt V evm contract st mem memorySize = mem_gas mem memorySize (\<lambda>r. r) evm"

definition suicide_account_gas :: "GasTable \<Rightarrow> 'w vm \<Rightarrow> address \<Rightarrow> address \<Rightarrow> 'w evm \<Rightarrow> 'w evm \<times> u64" where
  "suicide_account_gas gt V self a evm =
     (if IsEIP158 (vm_chainConfig V) (vm_block V)
      then let (evm1, e) = read_state (vs_Empty (vm_db V) a) evm in
           if e then let (evm2, b) = read_state (vs_GetBalance (vm_db V) self) evm1
                     in (evm2, if b \<noteq> 0 then gt_CreateBySuicide gt else 0)
           else (evm1, 0)
      else let (evm1, e) = read_state (vs_Exist (vm_db V) a) evm in (evm1, if \<not> e then gt_CreateBySuicide gt else 0))"

definition gasSuicide :: "'w gasFunc" where
  "gasSuicide gt V evm contract st mem memorySize =
     with_back st 0 (\<lambda>x.
       let (evm1, gas) = (if IsEIP150 (vm_chainConfig V) (vm_block V)
                          then let (e, g) = suicide_account_gas gt V (c_self contract) (BigToAddress x) evm in (e, gt_Suicide gt + g)
                          else (evm, 0));
           (evm2, h) = read_state (vs_HasSuicided (vm_db V) (c_self contract)) evm1;
           evm3 = (if \<not> h then on_state (vs_AddRefund (vm_db V) SuicideRefundGas) evm2 else evm2)
       in Value (evm3, mem, Inr gas))"

definition gasPush :: "'w gasFunc" where
  "gasPush gt V evm contract st mem memorySize = Value (evm, mem, Inr GasFastestStep)"

definition gasSwap :: "'w gasFunc" where
  "gasSwap gt V evm contract st mem memorySize = Value (evm, mem, Inr GasFastestStep)"

definition gasDup :: "'w gasFunc" where
  "gasDup gt V evm contract st mem memorySize = Value (evm, mem, Inr GasFastestStep)"

end
