(* ===== verification/Evm_Ops.thy ===== *)
theory Evm_Ops
  imports Evm_Gas
begin

text \<open>
  The instructions of the virtual machine (\<open>instructions.go\<close>).  The arithmetic ones are functions of
  the stack, \<open>None\<close> where the code would run off its end; the others get the machine and the frame.
  The calls back into the machine are the fields of \<open>calls\<close>.
\<close>

subsection \<open>Arithmetic and comparison\<close>

fun opAdd :: "bigint list \<Rightarrow> bigint list option" where
  "opAdd (x # y # st) = Some (U256 (x + y) # st)"
| "opAdd _ = None"

fun opSub :: "bigint list \<Rightarrow> bigint list option" where
  "opSub (x # y # st) = Some (U256 (x - y) # st)"
| "opSub _ = None"

fun opMul :: "bigint list \<Rightarrow> bigint list option" where
  "opMul (x # y # st) = Some (U256 (x * y) # st)"
| "opMul _ = None"

text \<open>\<open>Div\<close> and \<open>Mod\<close> of \<open>math/big\<close> are Euclidean; for the operands here they are those of HOL.\<close>

fun opDiv :: "bigint list \<Rightarrow> bigint list option" where
  "opDiv (x # y # st) = Some ((if y \<noteq> 0 then U256 (x div y) else 0) # st)"
| "opDiv _ = None"

fun opSdiv :: "bigint list \<Rightarrow> bigint list option" where
  "opSdiv (a # b # st) =
     (let x = S256 a; y = S256 b in
      if y = 0 \<or> x = 0 then Some (0 # st)
      else if sgn x \<noteq> sgn y then Some (U256 (- (\<bar>x\<bar> div \<bar>y\<bar>)) # st)
      else Some (U256 (\<bar>x\<bar> div \<bar>y\<bar>) # st))"
| "opSdiv _ = None"

fun opMod :: "bigint list \<Rightarrow> bigint list option" where
  "opMod (x # y # st) = Some ((if y = 0 then 0 else U256 (x mod y)) # st)"
| "opMod _ = None"

fun opSmod :: "bigint list \<Rightarrow> bigint list option" where
  "opSmod (a # b # st) =
     (let x = S256 a; y = S256 b in
      if y = 0 then Some (0 # st)
      else if x < 0 then Some (U256 (- (\<bar>x\<bar> mod \<bar>y\<bar>)) # st)
      else Some (U256 (\<bar>x\<bar> mod \<bar>y\<bar>) # st))"
| "opSmod _ = None"

fun opExp :: "bigint list \<Rightarrow> bigint list option" where
  "opExp (base # exponent # st) =
     (let cmpToOne = Cmp exponent 1 in
      if cmpToOne < 0 then Some (1 # st)
      else if base = 0 then Some (0 # st)
      else if cmpToOne = 0 then Some (base # st)
      else Some (fst (Exp base exponent) # st))"
| "opExp _ = None"

fun opSignExtend :: "bigint list \<Rightarrow> bigint list option" where
  "opSignExtend (back # st) =
     (if back < 31
      then (case st of
              [] \<Rightarrow> None
            | num # st' \<Rightarrow>
                let b = unat (Uint64 back) * 8 + 7; mask = push_bit b 1 - 1 in
                if bit num b then Some (U256 (num OR NOT mask) # st') else Some (U256 (num AND mask) # st'))
      else Some st)"
| "opSignExtend [] = None"

fun opNot :: "bigint list \<Rightarrow> bigint list option" where
  "opNot (x # st) = Some (U256 (NOT x) # st)"
| "opNot [] = None"

fun opLt :: "bigint list \<Rightarrow> bigint list option" where
  "opLt (x # y # st) = Some ((if x < y then 1 else 0) # st)"
| "opLt _ = None"

fun opGt :: "bigint list \<Rightarrow> bigint list option" where
  "opGt (x # y # st) = Some ((if x > y then 1 else 0) # st)"
| "opGt _ = None"

fun opSlt :: "bigint list \<Rightarrow> bigint list option" where
  "opSlt (x # y # st) =
     (let xSign = Cmp x tt255; ySign = Cmp y tt255 in
      if xSign \<ge> 0 \<and> ySign < 0 then Some (1 # st)
      else if xSign < 0 \<and> ySign \<ge> 0 then Some (0 # st)
      else Some ((if x < y then 1 else 0) # st))"
| "opSlt _ = None"

fun opSgt :: "bigint list \<Rightarrow> bigint list option" where
  "opSgt (x # y # st) =
     (let xSign = Cmp x tt255; ySign = Cmp y tt255 in
      if xSign \<ge> 0 \<and> ySign < 0 then Some (0 # st)
      else if xSign < 0 \<and> ySign \<ge> 0 then Some (1 # st)
      else Some ((if x > y then 1 else 0) # st))"
| "opSgt _ = None"

fun opEq :: "bigint list \<Rightarrow> bigint list option" where
  "opEq (x # y # st) = Some ((if x = y then 1 else 0) # st)"
| "opEq _ = None"

fun opIszero :: "bigint list \<Rightarrow> bigint list option" where
  "opIszero (x # st) = Some ((if x > 0 then 0 else 1) # st)"
| "opIszero [] = None"

fun opAnd :: "bigint list \<Rightarrow> bigint list option" where
  "opAnd (x # y # st) = Some ((x AND y) # st)"
| "opAnd _ = None"

fun opOr :: "bigint list \<Rightarrow> bigint list option" where
  "opOr (x # y # st) = Some ((x OR y) # st)"
| "opOr _ = None"

fun opXor :: "bigint list \<Rightarrow> bigint list option" where
  "opXor (x # y # st) = Some ((x XOR y) # st)"
| "opXor _ = None"

fun opByte :: "bigint list \<Rightarrow> bigint list option" where
  "opByte (th # val # st) = Some ((if th < 32 then uint (Byte val 32 (nat th)) else 0) # st)"
| "opByte _ = None"

fun opAddmod :: "bigint list \<Rightarrow> bigint list option" where
  "opAddmod (x # y # z # st) = Some ((if z > 0 then U256 ((x + y) mod z) else 0) # st)"
| "opAddmod _ = None"

fun opMulmod :: "bigint list \<Rightarrow> bigint list option" where
  "opMulmod (x # y # z # st) = Some ((if z > 0 then U256 ((x * y) mod z) else 0) # st)"
| "opMulmod _ = None"

fun opSHL :: "bigint list \<Rightarrow> bigint list option" where
  "opSHL (s # v # st) =
     (let shift = U256 s; val = U256 v in
      if shift \<ge> 256 then Some (0 # st) else Some (U256 (push_bit (unat (Uint64 shift)) val) # st))"
| "opSHL _ = None"

fun opSHR :: "bigint list \<Rightarrow> bigint list option" where
  "opSHR (s # v # st) =
     (let shift = U256 s; val = U256 v in
      if shift \<ge> 256 then Some (0 # st) else Some (U256 (drop_bit (unat (Uint64 shift)) val) # st))"
| "opSHR _ = None"

fun opSAR :: "bigint list \<Rightarrow> bigint list option" where
  "opSAR (s # v # st) =
     (let shift = U256 s; val = S256 v in
      if shift \<ge> 256 then Some (U256 (if val \<ge> 0 then 0 else -1) # st)
      else Some (U256 (drop_bit (unat (Uint64 shift)) val) # st))"
| "opSAR _ = None"

fun opPop :: "bigint list \<Rightarrow> bigint list option" where
  "opPop (x # st) = Some st"
| "opPop [] = None"

definition makeDup :: "nat \<Rightarrow> bigint list \<Rightarrow> bigint list option" where
  "makeDup n st = stack_dup st n"

definition makeSwap :: "nat \<Rightarrow> bigint list \<Rightarrow> bigint list option" where
  "makeSwap n st = stack_swap st (n + 1)"

subsection \<open>Calling back\<close>

type_synonym 'w call_result = "('w evm \<times> bytes \<times> u64 \<times> vm_error option) outcome"
type_synonym 'w create_result = "('w evm \<times> bytes \<times> address \<times> u64 \<times> vm_error option) outcome"

record 'w calls =
  k_Call :: "'w evm \<Rightarrow> ContractRef \<Rightarrow> address \<Rightarrow> bytes \<Rightarrow> u64 \<Rightarrow> bigint \<Rightarrow> 'w call_result"
  k_CallCode :: "'w evm \<Rightarrow> ContractRef \<Rightarrow> address \<Rightarrow> bytes \<Rightarrow> u64 \<Rightarrow> bigint \<Rightarrow> 'w call_result"
  k_DelegateCall :: "'w evm \<Rightarrow> ContractRef \<Rightarrow> address \<Rightarrow> bytes \<Rightarrow> u64 \<Rightarrow> 'w call_result"
  k_StaticCall :: "'w evm \<Rightarrow> ContractRef \<Rightarrow> address \<Rightarrow> bytes \<Rightarrow> u64 \<Rightarrow> 'w call_result"
  k_Create :: "'w evm \<Rightarrow> ContractRef \<Rightarrow> bytes \<Rightarrow> u64 \<Rightarrow> bigint \<Rightarrow> 'w create_result"
  k_Create2 :: "'w evm \<Rightarrow> ContractRef \<Rightarrow> bytes \<Rightarrow> u64 \<Rightarrow> bigint \<Rightarrow> bigint \<Rightarrow> 'w create_result"

type_synonym 'w op_result = "('w evm \<times> frame \<times> bytes \<times> vm_error option) outcome"
type_synonym 'w execution = "'w vm \<Rightarrow> 'w calls \<Rightarrow> 'w evm \<Rightarrow> frame \<Rightarrow> 'w op_result"

definition go_on :: "'w evm \<Rightarrow> frame \<Rightarrow> 'w op_result" where
  "go_on evm fr = Value (evm, fr, [], None)"

definition stack_op :: "(bigint list \<Rightarrow> bigint list option) \<Rightarrow> 'w execution" where
  "stack_op f V K evm fr = obind (of_opt (f (fr_stack fr))) (\<lambda>st. go_on evm (fr\<lparr>fr_stack := st\<rparr>))"

definition push :: "bigint \<Rightarrow> frame \<Rightarrow> frame" where
  "push x fr = fr\<lparr>fr_stack := x # fr_stack fr\<rparr>"

text \<open>Taking \<open>n\<close> values off the stack.\<close>

definition popn :: "nat \<Rightarrow> frame \<Rightarrow> (bigint list \<Rightarrow> frame \<Rightarrow> 'a outcome) \<Rightarrow> 'a outcome" where
  "popn n fr f =
     (if n \<le> length (fr_stack fr) then f (take n (fr_stack fr)) (fr\<lparr>fr_stack := drop n (fr_stack fr)\<rparr>) else Panics)"

definition fr_Get :: "frame \<Rightarrow> bigint \<Rightarrow> bigint \<Rightarrow> (bytes \<Rightarrow> 'a outcome) \<Rightarrow> 'a outcome" where
  "fr_Get fr offset sz f = obind (of_opt (mem_Get (fr_mem fr) (Int64 offset) (Int64 sz))) f"

definition fr_Set :: "frame \<Rightarrow> bigint \<Rightarrow> bigint \<Rightarrow> bytes \<Rightarrow> (frame \<Rightarrow> 'a outcome) \<Rightarrow> 'a outcome" where
  "fr_Set fr offset sz val f =
     obind (of_opt (mem_Set (fr_mem fr) (Uint64 offset) (Uint64 sz) val)) (\<lambda>m. f (fr\<lparr>fr_mem := m\<rparr>))"

abbreviation fr_address :: "frame \<Rightarrow> address" where
  "fr_address fr \<equiv> c_self (fr_contract fr)"

subsection \<open>Hashing and the environment\<close>

definition opSha3 :: "'w execution" where
  "opSha3 V K evm fr = popn 2 fr (\<lambda>xs fr.
     fr_Get fr (xs ! 0) (xs ! 1) (\<lambda>data.
       let h = vm_Keccak256Hash V data;
           evm1 = (if vm_EnablePreimageRecording V then on_state (vs_AddPreimage (vm_db V) h data) evm else evm)
       in go_on evm1 (push (uint h) fr)))"

definition opAddress :: "'w execution" where
  "opAddress V K evm fr = go_on evm (push (uint (fr_address fr)) fr)"

definition opBalance :: "'w execution" where
  "opBalance V K evm fr = popn 1 fr (\<lambda>xs fr.
     let (evm1, b) = read_state (vs_GetBalance (vm_db V) (BigToAddress (xs ! 0))) evm in go_on evm1 (push b fr))"

definition opOrigin :: "'w execution" where
  "opOrigin V K evm fr = go_on evm (push (uint (ctx_Origin V)) fr)"

definition opCaller :: "'w execution" where
  "opCaller V K evm fr = go_on evm (push (uint (CallerAddress (fr_contract fr))) fr)"

definition opCallValue :: "'w execution" where
  "opCallValue V K evm fr = go_on evm (push (c_value (fr_contract fr)) fr)"

definition opCallDataLoad :: "'w execution" where
  "opCallDataLoad V K evm fr = popn 1 fr (\<lambda>xs fr.
     obind (of_opt (getDataBig (c_Input (fr_contract fr)) (xs ! 0) 32)) (\<lambda>d. go_on evm (push (SetBytes d) fr)))"

definition opCallDataSize :: "'w execution" where
  "opCallDataSize V K evm fr = go_on evm (push (int (length (c_Input (fr_contract fr)))) fr)"

definition opCallDataCopy :: "'w execution" where
  "opCallDataCopy V K evm fr = popn 3 fr (\<lambda>xs fr.
     obind (of_opt (getDataBig (c_Input (fr_contract fr)) (xs ! 1) (xs ! 2))) (\<lambda>d.
       fr_Set fr (xs ! 0) (xs ! 2) d (go_on evm)))"

definition opReturnDataSize :: "'w execution" where
  "opReturnDataSize V K evm fr = go_on evm (push (int (length (in_returnData evm))) fr)"

definition opReturnDataCopy :: "'w execution" where
  "opReturnDataCopy V K evm fr = popn 3 fr (\<lambda>xs fr.
     let end' = xs ! 1 + xs ! 2 in
     if 64 < BitLen end' \<or> length (in_returnData evm) < unat (Uint64 end')
     then Value (evm, fr, [], Some errReturnDataOutOfBounds)
     else obind (of_opt (slice (in_returnData evm) (uint (Uint64 (xs ! 1))) (uint (Uint64 end')))) (\<lambda>d.
            fr_Set fr (xs ! 0) (xs ! 2) d (go_on evm)))"

definition opExtCodeSize :: "'w execution" where
  "opExtCodeSize V K evm fr = popn 1 fr (\<lambda>xs fr.
     let (evm1, n) = read_state (vs_GetCodeSize (vm_db V) (BigToAddress (xs ! 0))) evm in go_on evm1 (push (int n) fr))"

definition opCodeSize :: "'w execution" where
  "opCodeSize V K evm fr = go_on evm (push (int (length (c_Code (fr_contract fr)))) fr)"

definition opCodeCopy :: "'w execution" where
  "opCodeCopy V K evm fr = popn 3 fr (\<lambda>xs fr.
     obind (of_opt (getDataBig (c_Code (fr_contract fr)) (xs ! 1) (xs ! 2))) (\<lambda>d.
       fr_Set fr (xs ! 0) (xs ! 2) d (go_on evm)))"

definition opExtCodeCopy :: "'w execution" where
  "opExtCodeCopy V K evm fr = popn 4 fr (\<lambda>xs fr.
     let (evm1, code) = read_state (vs_GetCode (vm_db V) (BigToAddress (xs ! 0))) evm in
     obind (of_opt (getDataBig code (xs ! 2) (xs ! 3))) (\<lambda>d. fr_Set fr (xs ! 1) (xs ! 3) d (go_on evm1)))"

definition opExtCodeHash :: "'w execution" where
  "opExtCodeHash V K evm fr = popn 1 fr (\<lambda>xs fr.
     let a = BigToAddress (xs ! 0); (evm1, e) = read_state (vs_Empty (vm_db V) a) evm in
     if e then go_on evm1 (push 0 fr)
     else let (evm2, h) = read_state (vs_GetCodeHash (vm_db V) a) evm1 in go_on evm2 (push (uint h) fr))"

definition opGasprice :: "'w execution" where
  "opGasprice V K evm fr = go_on evm (push (ctx_GasPrice V) fr)"

definition opBlockhash :: "'w execution" where
  "opBlockhash V K evm fr = popn 1 fr (\<lambda>xs fr.
     let num = xs ! 0; n = ctx_BlockNumber V - 257 in
     if num > n \<and> num < ctx_BlockNumber V then go_on evm (push (uint (ctx_GetHash V (Uint64 num))) fr)
     else go_on evm (push 0 fr))"

definition opCoinbase :: "'w execution" where
  "opCoinbase V K evm fr = go_on evm (push (uint (ctx_Coinbase V)) fr)"

definition opTimestamp :: "'w execution" where
  "opTimestamp V K evm fr = go_on evm (push (U256 (ctx_Time V)) fr)"

definition opNumber :: "'w execution" where
  "opNumber V K evm fr = go_on evm (push (U256 (ctx_BlockNumber V)) fr)"

definition opDifficulty :: "'w execution" where
  "opDifficulty V K evm fr = go_on evm (push (U256 (ctx_Difficulty V)) fr)"

definition opGasLimit :: "'w execution" where
  "opGasLimit V K evm fr = go_on evm (push (U256 (uint (ctx_GasLimit V))) fr)"

subsection \<open>Memory, storage and jumps\<close>

definition opMload :: "'w execution" where
  "opMload V K evm fr = popn 1 fr (\<lambda>xs fr. fr_Get fr (xs ! 0) 32 (\<lambda>d. go_on evm (push (SetBytes d) fr)))"

definition opMstore :: "'w execution" where
  "opMstore V K evm fr = popn 2 fr (\<lambda>xs fr.
     obind (of_opt (mem_Set32 (fr_mem fr) (Uint64 (xs ! 0)) (xs ! 1))) (\<lambda>m. go_on evm (fr\<lparr>fr_mem := m\<rparr>)))"

definition opMstore8 :: "'w execution" where
  "opMstore8 V K evm fr = popn 2 fr (\<lambda>xs fr.
     let off = Int64 (xs ! 0); val = Int64 (xs ! 1); m = fr_mem fr in
     if 0 \<le> off \<and> off < int (length (mem_store m))
     then go_on evm (fr\<lparr>fr_mem := m\<lparr>mem_store := (mem_store m)[nat off := word_of_int (val AND 0xff)]\<rparr>\<rparr>)
     else Panics)"

definition opSload :: "'w execution" where
  "opSload V K evm fr = popn 1 fr (\<lambda>xs fr.
     let (evm1, v) = read_state (vs_GetState (vm_db V) (fr_address fr) (BigToHash (xs ! 0))) evm
     in go_on evm1 (push (uint v) fr))"

definition opSstore :: "'w execution" where
  "opSstore V K evm fr = popn 2 fr (\<lambda>xs fr.
     go_on (on_state (vs_SetState (vm_db V) (fr_address fr) (BigToHash (xs ! 0)) (BigToHash (xs ! 1))) evm) fr)"

text \<open>The check of a jump destination, which may record the analysis of the code.\<close>

definition jump_to :: "bigint \<Rightarrow> 'w evm \<Rightarrow> frame \<Rightarrow> 'w op_result" where
  "jump_to pos evm fr =
     obind (of_opt (validJumpdest (evm_jumpdests evm) (fr_contract fr) pos)) (\<lambda>(j, c, ok).
       let evm1 = evm\<lparr>evm_jumpdests := j\<rparr>; fr1 = fr\<lparr>fr_contract := c\<rparr> in
       if \<not> ok then Value (evm1, fr1, [], Some errInvalidJump) else go_on evm1 (fr1\<lparr>fr_pc := Uint64 pos\<rparr>))"

definition opJump :: "'w execution" where
  "opJump V K evm fr = popn 1 fr (\<lambda>xs fr. jump_to (xs ! 0) evm fr)"

definition opJumpi :: "'w execution" where
  "opJumpi V K evm fr = popn 2 fr (\<lambda>xs fr.
     if xs ! 1 \<noteq> 0 then jump_to (xs ! 0) evm fr else go_on evm (fr\<lparr>fr_pc := fr_pc fr + 1\<rparr>))"

definition opJumpdest :: "'w execution" where
  "opJumpdest V K evm fr = go_on evm fr"

definition opPc :: "'w execution" where
  "opPc V K evm fr = go_on evm (push (uint (fr_pc fr)) fr)"

definition opMsize :: "'w execution" where
  "opMsize V K evm fr = go_on evm (push (int (length (mem_store (fr_mem fr)))) fr)"

definition opGas :: "'w execution" where
  "opGas V K evm fr = go_on evm (push (uint (c_Gas (fr_contract fr))) fr)"

subsection \<open>Creating and calling contracts\<close>

text \<open>The gas that comes back from a call is added to the contract.\<close>

definition add_gas :: "u64 \<Rightarrow> frame \<Rightarrow> frame" where
  "add_gas g fr = fr\<lparr>fr_contract := (fr_contract fr)\<lparr>c_Gas := c_Gas (fr_contract fr) + g\<rparr>\<rparr>"

definition use_gas :: "u64 \<Rightarrow> frame \<Rightarrow> frame" where
  "use_gas g fr = fr\<lparr>fr_contract := fst (UseGas (fr_contract fr) g)\<rparr>"

definition opCreate :: "'w execution" where
  "opCreate V K evm fr = popn 3 fr (\<lambda>xs fr.
     fr_Get fr (xs ! 1) (xs ! 2) (\<lambda>input.
       let g = c_Gas (fr_contract fr);
           gas = (if IsEIP150 (vm_chainConfig V) (vm_block V) then g - g div 64 else g);
           fr1 = use_gas gas fr
       in obind (k_Create K evm (IsContract (fr_contract fr1)) input gas (xs ! 0)) (\<lambda>(evm1, res, addr, returnGas, suberr).
            let x = (if IsHomestead (vm_chainConfig V) (vm_block V) \<and> suberr = Some ErrCodeStoreOutOfGas then 0
                     else if suberr \<noteq> None \<and> suberr \<noteq> Some ErrCodeStoreOutOfGas then 0
                     else uint addr)
            in Value (evm1, add_gas returnGas (push x fr1), if suberr = Some errExecutionReverted then res else [], None))))"

definition opCreate2 :: "'w execution" where
  "opCreate2 V K evm fr = popn 4 fr (\<lambda>xs fr.
     fr_Get fr (xs ! 1) (xs ! 2) (\<lambda>input.
       let g = c_Gas (fr_contract fr); gas = g - g div 64; fr1 = use_gas gas fr
       in obind (k_Create2 K evm (IsContract (fr_contract fr1)) input gas (xs ! 0) (xs ! 3)) (\<lambda>(evm1, res, addr, returnGas, suberr).
            let x = (if suberr \<noteq> None then 0 else uint addr)
            in Value (evm1, add_gas returnGas (push x fr1), if suberr = Some errExecutionReverted then res else [], None))))"

text \<open>The common end of the four calls: the flag, the returned data and the gas left over.\<close>

definition finish_call :: "bigint \<Rightarrow> bigint \<Rightarrow> frame \<Rightarrow> 'w call_result \<Rightarrow> 'w op_result" where
  "finish_call retOffset retSize fr r =
     obind r (\<lambda>(evm1, ret, returnGas, err).
       let fr1 = push (if err \<noteq> None then 0 else 1) fr;
           end' = (\<lambda>fr2. Value (evm1, add_gas returnGas fr2, ret, None))
       in if err = None \<or> err = Some errExecutionReverted then fr_Set fr1 retOffset retSize ret end' else end' fr1)"

definition opCall :: "'w execution" where
  "opCall V K evm fr = popn 7 fr (\<lambda>xs fr.
     let val = U256 (xs ! 2) in
     fr_Get fr (xs ! 3) (xs ! 4) (\<lambda>args.
       let gas = evm_callGasTemp evm + (if val \<noteq> 0 then CallStipend else 0)
       in finish_call (xs ! 5) (xs ! 6) fr
            (k_Call K evm (IsContract (fr_contract fr)) (BigToAddress (xs ! 1)) args gas val)))"

definition opCallCode :: "'w execution" where
  "opCallCode V K evm fr = popn 7 fr (\<lambda>xs fr.
     let val = U256 (xs ! 2) in
     fr_Get fr (xs ! 3) (xs ! 4) (\<lambda>args.
       let gas = evm_callGasTemp evm + (if val \<noteq> 0 then CallStipend else 0)
       in finish_call (xs ! 5) (xs ! 6) fr
            (k_CallCode K evm (IsContract (fr_contract fr)) (BigToAddress (xs ! 1)) args gas val)))"

definition opDelegateCall :: "'w execution" where
  "opDelegateCall V K evm fr = popn 6 fr (\<lambda>xs fr.
     fr_Get fr (xs ! 2) (xs ! 3) (\<lambda>args.
       finish_call (xs ! 4) (xs ! 5) fr
         (k_DelegateCall K evm (IsContract (fr_contract fr)) (BigToAddress (xs ! 1)) args (evm_callGasTemp evm))))"

definition opStaticCall :: "'w execution" where
  "opStaticCall V K evm fr = popn 6 fr (\<lambda>xs fr.
     fr_Get fr (xs ! 2) (xs ! 3) (\<lambda>args.
       finish_call (xs ! 4) (xs ! 5) fr
         (k_StaticCall K evm (IsContract (fr_contract fr)) (BigToAddress (xs ! 1)) args (evm_callGasTemp evm))))"

definition opReturn :: "'w execution" where
  "opReturn V K evm fr = popn 2 fr (\<lambda>xs fr. fr_Get fr (xs ! 0) (xs ! 1) (\<lambda>ret. Value (evm, fr, ret, None)))"

definition opRevert :: "'w execution" where
  "opRevert V K evm fr = popn 2 fr (\<lambda>xs fr. fr_Get fr (xs ! 0) (xs ! 1) (\<lambda>ret. Value (evm, fr, ret, None)))"

definition opStop :: "'w execution" where
  "opStop V K evm fr = go_on evm fr"

definition opSuicide :: "'w execution" where
  "opSuicide V K evm fr = popn 1 fr (\<lambda>xs fr.
     let (evm1, balance) = read_state (vs_GetBalance (vm_db V) (fr_address fr)) evm;
         evm2 = on_state (vs_AddBalance (vm_db V) (BigToAddress (xs ! 0)) balance) evm1;
         (evm3, _) = read_state (vs_Suicide (vm_db V) (fr_address fr)) evm2
     in go_on evm3 fr)"

definition makeLog :: "nat \<Rightarrow> 'w execution" where
  "makeLog n V K evm fr = popn (n + 2) fr (\<lambda>xs fr.
     fr_Get fr (xs ! 0) (xs ! 1) (\<lambda>d.
       let l = \<lparr>log_Address = fr_address fr, log_Topics = map BigToHash (drop 2 xs), log_Data = d,
                log_BlockNumber = Uint64 (ctx_BlockNumber V), log_TxHash = 0, log_TxIndex = 0, log_BlockHash = 0, log_Index = 0\<rparr>
       in go_on (on_state (vs_AddLog (vm_db V) l) evm) fr))"

definition makePush :: "u64 \<Rightarrow> nat \<Rightarrow> 'w execution" where
  "makePush sz pushByteSize V K evm fr =
     (let code = c_Code (fr_contract fr); codeLen = int (length code);
          p1 = sint (fr_pc fr + 1);
          startMin = (if p1 < codeLen then p1 else codeLen);
          endMin = (if startMin + int pushByteSize < codeLen then startMin + int pushByteSize else codeLen)
      in obind (of_opt (slice code startMin endMin)) (\<lambda>d.
           go_on evm (push (SetBytes (RightPadBytes d (int pushByteSize))) (fr\<lparr>fr_pc := fr_pc fr + sz\<rparr>))))"

end
