(* ===== verification/Evm_Table.thy ===== *)
theory Evm_Table
  imports Evm_Ops
begin

text \<open>
  The instruction tables of the forks (\<open>jump_table.go\<close>).  An opcode that is not in the table is
  not valid.
\<close>

record 'w operation =
  op_execute :: "'w execution"
  op_gasCost :: "'w gasFunc"
  op_validateStack :: "bigint list \<Rightarrow> vm_error option"
  op_memorySize :: "(bigint list \<Rightarrow> bigint option) option"
  op_halts :: bool
  op_jumps :: bool
  op_writes :: bool
  op_reverts :: bool
  op_returns :: bool

definition operation_of :: "'w execution \<Rightarrow> 'w gasFunc \<Rightarrow> (bigint list \<Rightarrow> vm_error option) \<Rightarrow> 'w operation" where
  "operation_of ex gas val =
     \<lparr>op_execute = ex, op_gasCost = gas, op_validateStack = val, op_memorySize = None, op_halts = False,
      op_jumps = False, op_writes = False, op_reverts = False, op_returns = False\<rparr>"

definition frontier_arithmetic :: "(byte \<times> 'w operation) list" where
  "frontier_arithmetic =
    [(0x00, (operation_of opStop (constGasFunc 0) (makeStackFunc 0 0))\<lparr>op_halts := True\<rparr>),
     (0x01, operation_of (stack_op opAdd) (constGasFunc GasFastestStep) (makeStackFunc 2 1)),
     (0x02, operation_of (stack_op opMul) (constGasFunc GasFastStep) (makeStackFunc 2 1)),
     (0x03, operation_of (stack_op opSub) (constGasFunc GasFastestStep) (makeStackFunc 2 1)),
     (0x04, operation_of (stack_op opDiv) (constGasFunc GasFastStep) (makeStackFunc 2 1)),
     (0x05, operation_of (stack_op opSdiv) (constGasFunc GasFastStep) (makeStackFunc 2 1)),
     (0x06, operation_of (stack_op opMod) (constGasFunc GasFastStep) (makeStackFunc 2 1)),
     (0x07, operation_of (stack_op opSmod) (constGasFunc GasFastStep) (makeStackFunc 2 1)),
     (0x08, operation_of (stack_op opAddmod) (constGasFunc GasMidStep) (makeStackFunc 3 1)),
     (0x09, operation_of (stack_op opMulmod) (constGasFunc GasMidStep) (makeStackFunc 3 1)),
     (0x0a, operation_of (stack_op opExp) gasExp (makeStackFunc 2 1)),
     (0x0b, operation_of (stack_op opSignExtend) (constGasFunc GasFastStep) (makeStackFunc 2 1))]"

definition frontier_comparison :: "(byte \<times> 'w operation) list" where
  "frontier_comparison =
    [(0x10, operation_of (stack_op opLt) (constGasFunc GasFastestStep) (makeStackFunc 2 1)),
     (0x11, operation_of (stack_op opGt) (constGasFunc GasFastestStep) (makeStackFunc 2 1)),
     (0x12, operation_of (stack_op opSlt) (constGasFunc GasFastestStep) (makeStackFunc 2 1)),
     (0x13, operation_of (stack_op opSgt) (constGasFunc GasFastestStep) (makeStackFunc 2 1)),
     (0x14, operation_of (stack_op opEq) (constGasFunc GasFastestStep) (makeStackFunc 2 1)),
     (0x15, operation_of (stack_op opIszero) (constGasFunc GasFastestStep) (makeStackFunc 1 1)),
     (0x16, operation_of (stack_op opAnd) (constGasFunc GasFastestStep) (makeStackFunc 2 1)),
     (0x18, operation_of (stack_op opXor) (constGasFunc GasFastestStep) (makeStackFunc 2 1)),
     (0x17, operation_of (stack_op opOr) (constGasFunc GasFastestStep) (makeStackFunc 2 1)),
     (0x19, operation_of (stack_op opNot) (constGasFunc GasFastestStep) (makeStackFunc 1 1)),
     (0x1a, operation_of (stack_op opByte) (constGasFunc GasFastestStep) (makeStackFunc 2 1)),
     (0x20, (operation_of opSha3 gasSha3 (makeStackFunc 2 1))\<lparr>op_memorySize := Some memorySha3\<rparr>)]"

definition frontier_environment :: "(byte \<times> 'w operation) list" where
  "frontier_environment =
    [(0x30, operation_of opAddress (constGasFunc GasQuickStep) (makeStackFunc 0 1)),
     (0x31, operation_of opBalance gasBalance (makeStackFunc 1 1)),
     (0x32, operation_of opOrigin (constGasFunc GasQuickStep) (makeStackFunc 0 1)),
     (0x33, operation_of opCaller (constGasFunc GasQuickStep) (makeStackFunc 0 1)),
     (0x34, operation_of opCallValue (constGasFunc GasQuickStep) (makeStackFunc 0 1)),
     (0x35, operation_of opCallDataLoad (constGasFunc GasFastestStep) (makeStackFunc 1 1)),
     (0x36, operation_of opCallDataSize (constGasFunc GasQuickStep) (makeStackFunc 0 1)),
     (0x37, (operation_of opCallDataCopy gasCallDataCopy (makeStackFunc 3 0))\<lparr>op_memorySize := Some memoryCallDataCopy\<rparr>),
     (0x38, operation_of opCodeSize (constGasFunc GasQuickStep) (makeStackFunc 0 1)),
     (0x39, (operation_of opCodeCopy gasCodeCopy (makeStackFunc 3 0))\<lparr>op_memorySize := Some memoryCodeCopy\<rparr>),
     (0x3a, operation_of opGasprice (constGasFunc GasQuickStep) (makeStackFunc 0 1)),
     (0x3b, operation_of opExtCodeSize gasExtCodeSize (makeStackFunc 1 1)),
     (0x3c, (operation_of opExtCodeCopy gasExtCodeCopy (makeStackFunc 4 0))\<lparr>op_memorySize := Some memoryExtCodeCopy\<rparr>)]"

definition frontier_block :: "(byte \<times> 'w operation) list" where
  "frontier_block =
    [(0x40, operation_of opBlockhash (constGasFunc GasExtStep) (makeStackFunc 1 1)),
     (0x41, operation_of opCoinbase (constGasFunc GasQuickStep) (makeStackFunc 0 1)),
     (0x42, operation_of opTimestamp (constGasFunc GasQuickStep) (makeStackFunc 0 1)),
     (0x43, operation_of opNumber (constGasFunc GasQuickStep) (makeStackFunc 0 1)),
     (0x44, operation_of opDifficulty (constGasFunc GasQuickStep) (makeStackFunc 0 1)),
     (0x45, operation_of opGasLimit (constGasFunc GasQuickStep) (makeStackFunc 0 1))]"

definition frontier_storage :: "(byte \<times> 'w operation) list" where
  "frontier_storage =
    [(0x50, operation_of (stack_op opPop) (constGasFunc GasQuickStep) (makeStackFunc 1 0)),
     (0x51, (operation_of opMload gasMLoad (makeStackFunc 1 1))\<lparr>op_memorySize := Some memoryMLoad\<rparr>),
     (0x52, (operation_of opMstore gasMStore (makeStackFunc 2 0))\<lparr>op_memorySize := Some memoryMStore\<rparr>),
     (0x53, (operation_of opMstore8 gasMStore8 (makeStackFunc 2 0))\<lparr>op_memorySize := Some memoryMStore8\<rparr>),
     (0x54, operation_of opSload gasSLoad (makeStackFunc 1 1)),
     (0x55, (operation_of opSstore gasSStore (makeStackFunc 2 0))\<lparr>op_writes := True\<rparr>),
     (0x56, (operation_of opJump (constGasFunc GasMidStep) (makeStackFunc 1 0))\<lparr>op_jumps := True\<rparr>),
     (0x57, (operation_of opJumpi (constGasFunc GasSlowStep) (makeStackFunc 2 0))\<lparr>op_jumps := True\<rparr>),
     (0x58, operation_of opPc (constGasFunc GasQuickStep) (makeStackFunc 0 1)),
     (0x59, operation_of opMsize (constGasFunc GasQuickStep) (makeStackFunc 0 1)),
     (0x5a, operation_of opGas (constGasFunc GasQuickStep) (makeStackFunc 0 1)),
     (0x5b, operation_of opJumpdest (constGasFunc JumpdestGas) (makeStackFunc 0 0))]"

definition frontier_system :: "(byte \<times> 'w operation) list" where
  "frontier_system =
    [(0xf0, (operation_of opCreate gasCreate (makeStackFunc 3 1))\<lparr>op_memorySize := Some memoryCreate, op_writes := True, op_returns := True\<rparr>),
     (0xf1, (operation_of opCall gasCall (makeStackFunc 7 1))\<lparr>op_memorySize := Some memoryCall, op_returns := True\<rparr>),
     (0xf2, (operation_of opCallCode gasCallCode (makeStackFunc 7 1))\<lparr>op_memorySize := Some memoryCall, op_returns := True\<rparr>),
     (0xf3, (operation_of opReturn gasReturn (makeStackFunc 2 0))\<lparr>op_memorySize := Some memoryReturn, op_halts := True\<rparr>),
     (0xff, (operation_of opSuicide gasSuicide (makeStackFunc 1 0))\<lparr>op_halts := True, op_writes := True\<rparr>)]"

definition frontier_push :: "(byte \<times> 'w operation) list" where
  "frontier_push =
     map (\<lambda>i. (0x60 + of_nat i, operation_of (makePush (of_nat (i + 1)) (i + 1)) gasPush (makeStackFunc 0 1))) [0..<32]"

definition frontier_dup :: "(byte \<times> 'w operation) list" where
  "frontier_dup =
     map (\<lambda>i. (0x80 + of_nat i, operation_of (stack_op (makeDup (i + 1))) gasDup (makeDupStackFunc (i + 1)))) [0..<16]"

definition frontier_swap :: "(byte \<times> 'w operation) list" where
  "frontier_swap =
     map (\<lambda>i. (0x90 + of_nat i, operation_of (stack_op (makeSwap (i + 1))) gasSwap (makeSwapStackFunc (i + 2)))) [0..<16]"

definition frontier_log :: "(byte \<times> 'w operation) list" where
  "frontier_log =
     map (\<lambda>i. (0xa0 + of_nat i, (operation_of (makeLog i) (makeGasLog (of_nat i)) (makeStackFunc (i + 2) 0))
       \<lparr>op_memorySize := Some memoryLog, op_writes := True\<rparr>)) [0..<5]"

definition newFrontierInstructionSet :: "(byte \<times> 'w operation) list" where
  "newFrontierInstructionSet =
     frontier_arithmetic @ frontier_comparison @ frontier_environment @ frontier_block @ frontier_storage @
     frontier_push @ frontier_dup @ frontier_swap @ frontier_log @ frontier_system"

definition newHomesteadInstructionSet :: "(byte \<times> 'w operation) list" where
  "newHomesteadInstructionSet =
     newFrontierInstructionSet @
     [(0xf4, (operation_of opDelegateCall gasDelegateCall (makeStackFunc 6 1))
        \<lparr>op_memorySize := Some memoryDelegateCall, op_returns := True\<rparr>)]"

definition newByzantiumInstructionSet :: "(byte \<times> 'w operation) list" where
  "newByzantiumInstructionSet =
     newHomesteadInstructionSet @
     [(0xfa, (operation_of opStaticCall gasStaticCall (makeStackFunc 6 1))
        \<lparr>op_memorySize := Some memoryStaticCall, op_returns := True\<rparr>),
      (0x3d, operation_of opReturnDataSize (constGasFunc GasQuickStep) (makeStackFunc 0 1)),
      (0x3e, (operation_of opReturnDataCopy gasReturnDataCopy (makeStackFunc 3 0))\<lparr>op_memorySize := Some memoryReturnDataCopy\<rparr>),
      (0xfd, (operation_of opRevert gasRevert (makeStackFunc 2 0))
        \<lparr>op_memorySize := Some memoryRevert, op_reverts := True, op_returns := True\<rparr>)]"

definition newConstantinopleInstructionSet :: "(byte \<times> 'w operation) list" where
  "newConstantinopleInstructionSet =
     newByzantiumInstructionSet @
     [(0x1b, operation_of (stack_op opSHL) (constGasFunc GasFastestStep) (makeStackFunc 2 1)),
      (0x1c, operation_of (stack_op opSHR) (constGasFunc GasFastestStep) (makeStackFunc 2 1)),
      (0x1d, operation_of (stack_op opSAR) (constGasFunc GasFastestStep) (makeStackFunc 2 1)),
      (0x3f, operation_of opExtCodeHash gasExtCodeHash (makeStackFunc 1 1)),
      (0xf5, (operation_of opCreate2 gasCreate2 (makeStackFunc 4 1))
        \<lparr>op_memorySize := Some memoryCreate2, op_writes := True, op_returns := True\<rparr>)]"

end
