(* ===== verification/Evm_Run.thy ===== *)
theory Evm_Run
  imports Evm_Table
begin

text \<open>
  The interpreter loop (\<open>interpreter.go\<close>) and the entry points of the machine (\<open>evm.go\<close>), which
  call each other.  The number of nested activations and iterations is bounded by fuel; that the
  gas bounds it too is proved in \<open>Evm_Termination\<close>.  Tracing, logging and the integer pools are left out,
  and a concurrent \<open>Cancel\<close> is only seen at the start.
\<close>

subsection \<open>interpreter.go\<close>

definition instructionSet :: "'w vm \<Rightarrow> (byte \<times> 'w operation) list" where
  "instructionSet V =
     (let c = vm_chainConfig V; n = vm_block V in
      if IsConstantinople c n then newConstantinopleInstructionSet
      else if IsByzantium c n then newByzantiumInstructionSet
      else if IsHomestead c n then newHomesteadInstructionSet
      else newFrontierInstructionSet)"

abbreviation CALL :: byte where "CALL \<equiv> 0xf1"

definition enforceRestrictions :: "'w vm \<Rightarrow> 'w evm \<Rightarrow> byte \<Rightarrow> 'w operation \<Rightarrow> bigint list \<Rightarrow> vm_error option outcome" where
  "enforceRestrictions V evm op operation st =
     (if r_IsByzantium (chainRules V) \<and> in_readOnly evm
      then if op_writes operation then Value (Some errWriteProtection)
           else if op = CALL
           then with_back st 2 (\<lambda>v. Value (if 0 < BitLen v then Some errWriteProtection else None))
           else Value None
      else Value None)"

definition needed_memory :: "'w operation \<Rightarrow> bigint list \<Rightarrow> (vm_error + u64) outcome" where
  "needed_memory operation st =
     (case op_memorySize operation of
        None \<Rightarrow> Value (Inr 0)
      | Some f \<Rightarrow>
          obind (of_opt (f st)) (\<lambda>m.
            case bigUint64 m of (memSize, overflow) \<Rightarrow>
              if overflow then Value (Inl errGasUintOverflow)
              else (case SafeMul (toWordSize memSize) 32 of (memorySize, overflow) \<Rightarrow>
                      Value (if overflow then Inl errGasUintOverflow else Inr memorySize))))"

datatype 'w step_result = Continue "'w evm" frame | Return "'w evm" Contract bytes "vm_error option"

definition fail :: "'w evm \<Rightarrow> frame \<Rightarrow> vm_error \<Rightarrow> 'w step_result outcome" where
  "fail evm fr err = Value (Return evm (fr_contract fr) [] (Some err))"

text \<open>What follows the execution of an operation.\<close>

definition after_execute :: "'w operation \<Rightarrow> 'w evm \<times> frame \<times> bytes \<times> vm_error option \<Rightarrow> 'w step_result outcome" where
  "after_execute operation r =
     (case r of (evm, fr, res, err) \<Rightarrow>
        let evm1 = (if op_returns operation then evm\<lparr>in_returnData := res\<rparr> else evm) in
        case err of
          Some e \<Rightarrow> fail evm1 fr e
        | None \<Rightarrow>
            if op_reverts operation then Value (Return evm1 (fr_contract fr) res (Some errExecutionReverted))
            else if op_halts operation then Value (Return evm1 (fr_contract fr) res None)
            else Value (Continue evm1 (if op_jumps operation then fr else fr\<lparr>fr_pc := fr_pc fr + 1\<rparr>)))"

text \<open>Paying for an operation, growing the memory and executing it.\<close>

definition pay_and_execute :: "'w vm \<Rightarrow> 'w calls \<Rightarrow> 'w operation \<Rightarrow> u64 \<Rightarrow> 'w evm \<Rightarrow> frame \<Rightarrow> 'w step_result outcome" where
  "pay_and_execute V K operation memorySize evm fr =
     obind (op_gasCost operation (config_GasTable (vm_chainConfig V) (vm_block V)) V evm (fr_contract fr) (fr_stack fr)
              (fr_mem fr) memorySize)
       (\<lambda>(evm1, mem1, r).
          case r of
            Inl err \<Rightarrow> fail evm1 fr ErrOutOfGas
          | Inr cost \<Rightarrow>
              (case UseGas (fr_contract fr) cost of (c1, ok) \<Rightarrow>
                 if \<not> ok then fail evm1 fr ErrOutOfGas
                 else let mem2 = (if memorySize > 0 then mem_Resize mem1 memorySize else mem1)
                      in obind (op_execute operation V K evm1 (fr\<lparr>fr_contract := c1, fr_mem := mem2\<rparr>)) (after_execute operation)))"

definition interpreter_step :: "'w vm \<Rightarrow> 'w calls \<Rightarrow> 'w evm \<Rightarrow> frame \<Rightarrow> 'w step_result outcome" where
  "interpreter_step V K evm fr =
     (let op = GetOp (fr_contract fr) (fr_pc fr) in
      case map_of (instructionSet V) op of
        None \<Rightarrow> fail evm fr errInvalidOpcode
      | Some operation \<Rightarrow>
          (case op_validateStack operation (fr_stack fr) of
             Some err \<Rightarrow> fail evm fr err
           | None \<Rightarrow>
               obind (enforceRestrictions V evm op operation (fr_stack fr)) (\<lambda>r.
                 case r of
                   Some err \<Rightarrow> fail evm fr err
                 | None \<Rightarrow>
                     obind (needed_memory operation (fr_stack fr)) (\<lambda>m.
                       case m of
                         Inl err \<Rightarrow> fail evm fr err
                       | Inr memorySize \<Rightarrow> pay_and_execute V K operation memorySize evm fr))))"

type_synonym 'w run_result = "('w evm \<times> Contract \<times> bytes \<times> vm_error option) outcome"
type_synonym 'w loop = "'w evm \<Rightarrow> frame \<Rightarrow> 'w run_result"

definition interpreter_Run :: "'w loop \<Rightarrow> 'w evm \<Rightarrow> Contract \<Rightarrow> bytes \<Rightarrow> bool \<Rightarrow> 'w run_result" where
  "interpreter_Run loop evm contract input readOnly =
     (let ro = (readOnly \<and> \<not> in_readOnly evm);
          evm1 = evm\<lparr>evm_depth := evm_depth evm + 1, in_readOnly := in_readOnly evm \<or> readOnly, in_returnData := []\<rparr>;
          leave = (\<lambda>e. e\<lparr>evm_depth := evm_depth e - 1, in_readOnly := (if ro then False else in_readOnly e)\<rparr>)
      in if c_Code contract = [] then Value (leave evm1, contract, [], None)
         else obind (loop evm1 \<lparr>fr_pc = 0, fr_contract = contract\<lparr>c_Input := input\<rparr>, fr_mem = NewMemory, fr_stack = []\<rparr>)
                (\<lambda>(evm2, c, ret, err). Value (leave evm2, c, ret, err)))"

subsection \<open>contracts.go\<close>

definition RunPrecompiledContract :: "PrecompiledContract \<Rightarrow> bytes \<Rightarrow> Contract \<Rightarrow> Contract \<times> bytes \<times> vm_error option" where
  "RunPrecompiledContract p input contract =
     (case UseGas contract (RequiredGas p input) of (c, ok) \<Rightarrow>
        if ok then (case pc_Run p input of (ret, err) \<Rightarrow> (c, ret, if err then Some errPrecompile else None))
        else (c, [], Some ErrOutOfGas))"

subsection \<open>evm.go\<close>

definition precompiles :: "'w vm \<Rightarrow> (address, PrecompiledContract) gomap" where
  "precompiles V =
     (if IsByzantium (vm_chainConfig V) (vm_block V) then PrecompiledContractsByzantium V else PrecompiledContractsHomestead V)"

definition evm_run :: "'w vm \<Rightarrow> 'w loop \<Rightarrow> 'w evm \<Rightarrow> Contract \<Rightarrow> bytes \<Rightarrow> bool \<Rightarrow> 'w run_result" where
  "evm_run V loop evm contract input readOnly =
     (case (case c_CodeAddr contract of None \<Rightarrow> None | Some a \<Rightarrow> gm_get (precompiles V) a) of
        Some p \<Rightarrow> Value (evm, RunPrecompiledContract p input contract)
      | None \<Rightarrow> interpreter_Run loop evm contract input readOnly)"

definition share_jumpdests :: "ContractRef \<Rightarrow> 'w evm \<Rightarrow> 'w evm" where
  "share_jumpdests caller evm = (case caller of IsContract c \<Rightarrow> evm | AccountRef a \<Rightarrow> evm\<lparr>evm_jumpdests := []\<rparr>)"

definition revert_to :: "'w vm \<Rightarrow> nat \<Rightarrow> 'w evm \<Rightarrow> 'w evm outcome" where
  "revert_to V snapshot evm =
     obind (of_opt (vs_RevertToSnapshot (vm_db V) snapshot (evm_StateDB evm))) (\<lambda>w. Value (evm\<lparr>evm_StateDB := w\<rparr>))"

text \<open>The end of a call: an error reverts the state and, unless the callee asked for it, takes the gas.\<close>

definition close_call :: "'w vm \<Rightarrow> nat \<Rightarrow> 'w run_result \<Rightarrow> 'w call_result" where
  "close_call V snapshot r =
     obind r (\<lambda>(evm, contract, ret, err).
       case err of
         None \<Rightarrow> Value (evm, ret, c_Gas contract, None)
       | Some e \<Rightarrow>
           obind (revert_to V snapshot evm) (\<lambda>evm1.
             let c = (if e \<noteq> errExecutionReverted then fst (UseGas contract (c_Gas contract)) else contract)
             in Value (evm1, ret, c_Gas c, Some e)))"

text \<open>\<open>contract.SetCallCode(&addr, GetCodeHash(addr), GetCode(addr))\<close>\<close>

definition load_code :: "'w vm \<Rightarrow> address \<Rightarrow> Contract \<Rightarrow> 'w evm \<Rightarrow> 'w evm \<times> Contract" where
  "load_code V addr c evm =
     (let (evm1, h) = read_state (vs_GetCodeHash (vm_db V) addr) evm;
          (evm2, code) = read_state (vs_GetCode (vm_db V) addr) evm1
      in (evm2, SetCallCode addr h code c))"

definition evm_Call ::
  "'w vm \<Rightarrow> 'w loop \<Rightarrow> 'w evm \<Rightarrow> ContractRef \<Rightarrow> address \<Rightarrow> bytes \<Rightarrow> u64 \<Rightarrow> bigint \<Rightarrow> 'w call_result" where
  "evm_Call V loop evm caller addr input gas val =
     (if vm_NoRecursion V \<and> evm_depth evm > 0 then Value (evm, [], gas, None)
      else if evm_depth evm > CallCreateDepth then Value (evm, [], gas, Some ErrDepth)
      else
        let (evm1, can) = read_state (ctx_CanTransfer V (ref_Address caller) val) evm in
        if \<not> can then Value (evm1, [], gas, Some ErrInsufficientBalance)
        else
          let (evm2, snapshot) = read_state (vs_Snapshot (vm_db V)) evm1;
              (evm3, ex) = read_state (vs_Exist (vm_db V) addr) evm2 in
          if \<not> ex \<and> gm_get (precompiles V) addr = None \<and> IsEIP158 (vm_chainConfig V) (vm_block V) \<and> val = 0
          then Value (evm3, [], gas, None)
          else
            let evm4 = (if \<not> ex then on_state (vs_CreateAccount (vm_db V) addr) evm3 else evm3);
                evm5 = on_state (ctx_Transfer V (ref_Address caller) addr val) evm4;
                (evm6, contract) = load_code V addr (NewContract caller addr val gas) (share_jumpdests caller evm5)
            in close_call V snapshot (evm_run V loop evm6 contract input False))"

definition evm_CallCode ::
  "'w vm \<Rightarrow> 'w loop \<Rightarrow> 'w evm \<Rightarrow> ContractRef \<Rightarrow> address \<Rightarrow> bytes \<Rightarrow> u64 \<Rightarrow> bigint \<Rightarrow> 'w call_result" where
  "evm_CallCode V loop evm caller addr input gas val =
     (if vm_NoRecursion V \<and> evm_depth evm > 0 then Value (evm, [], gas, None)
      else if evm_depth evm > CallCreateDepth then Value (evm, [], gas, Some ErrDepth)
      else
        let (evm1, can) = read_state (ctx_CanTransfer V (ref_Address caller) val) evm in
        if \<not> can then Value (evm1, [], gas, Some ErrInsufficientBalance)
        else
          let (evm2, snapshot) = read_state (vs_Snapshot (vm_db V)) evm1;
              (evm3, contract) = load_code V addr (NewContract caller (ref_Address caller) val gas) (share_jumpdests caller evm2)
          in close_call V snapshot (evm_run V loop evm3 contract input False))"

definition evm_DelegateCall ::
  "'w vm \<Rightarrow> 'w loop \<Rightarrow> 'w evm \<Rightarrow> ContractRef \<Rightarrow> address \<Rightarrow> bytes \<Rightarrow> u64 \<Rightarrow> 'w call_result" where
  "evm_DelegateCall V loop evm caller addr input gas =
     (if vm_NoRecursion V \<and> evm_depth evm > 0 then Value (evm, [], gas, None)
      else if evm_depth evm > CallCreateDepth then Value (evm, [], gas, Some ErrDepth)
      else
        let (evm1, snapshot) = read_state (vs_Snapshot (vm_db V)) evm in
        obind (of_opt (AsDelegate caller (NewContract caller (ref_Address caller) 0 gas))) (\<lambda>c.
          let (evm2, contract) = load_code V addr c (share_jumpdests caller evm1)
          in close_call V snapshot (evm_run V loop evm2 contract input False)))"

definition evm_StaticCall ::
  "'w vm \<Rightarrow> 'w loop \<Rightarrow> 'w evm \<Rightarrow> ContractRef \<Rightarrow> address \<Rightarrow> bytes \<Rightarrow> u64 \<Rightarrow> 'w call_result" where
  "evm_StaticCall V loop evm caller addr input gas =
     (if vm_NoRecursion V \<and> evm_depth evm > 0 then Value (evm, [], gas, None)
      else if evm_depth evm > CallCreateDepth then Value (evm, [], gas, Some ErrDepth)
      else
        let (evm1, snapshot) = read_state (vs_Snapshot (vm_db V)) evm;
            (evm2, contract) = load_code V addr (NewContract caller addr 0 gas) (share_jumpdests caller evm1);
            evm3 = on_state (vs_AddBalance (vm_db V) addr 0) evm2
        in close_call V snapshot (evm_run V loop evm3 contract input True))"

text \<open>The end of a creation: storing the code, and reverting on an error.\<close>

definition store_code :: "'w vm \<Rightarrow> address \<Rightarrow> 'w evm \<Rightarrow> Contract \<Rightarrow> bytes \<Rightarrow> 'w evm \<times> Contract \<times> vm_error option" where
  "store_code V address evm contract ret =
     (case UseGas contract (of_nat (length ret) * CreateDataGas) of (c, ok) \<Rightarrow>
        if ok then (on_state (vs_SetCode (vm_db V) address ret) evm, c, None) else (evm, c, Some ErrCodeStoreOutOfGas))"

definition close_create :: "'w vm \<Rightarrow> nat \<Rightarrow> address \<Rightarrow> 'w run_result \<Rightarrow> 'w create_result" where
  "close_create V snapshot address r =
     obind r (\<lambda>(evm, contract, ret, err).
       let maxCodeSizeExceeded = (IsEIP158 (vm_chainConfig V) (vm_block V) \<and> length ret > MaxCodeSize);
           (evm1, c1, err1) = (if err = None \<and> \<not> maxCodeSizeExceeded then store_code V address evm contract ret
                               else (evm, contract, err));
           err2 = (if maxCodeSizeExceeded \<and> err1 = None then Some errMaxCodeSizeExceeded else err1)
       in if maxCodeSizeExceeded \<or>
             err1 \<noteq> None \<and> (IsHomestead (vm_chainConfig V) (vm_block V) \<or> err1 \<noteq> Some ErrCodeStoreOutOfGas)
          then obind (revert_to V snapshot evm1) (\<lambda>evm2.
                 let c2 = (if err1 \<noteq> Some errExecutionReverted then fst (UseGas c1 (c_Gas c1)) else c1)
                 in Value (evm2, ret, address, c_Gas c2, err2))
          else Value (evm1, ret, address, c_Gas c1, err2))"

definition evm_create ::
  "'w vm \<Rightarrow> 'w loop \<Rightarrow> 'w evm \<Rightarrow> ContractRef \<Rightarrow> bytes \<Rightarrow> hash \<Rightarrow> u64 \<Rightarrow> bigint \<Rightarrow> address \<Rightarrow> 'w create_result" where
  "evm_create V loop evm caller code codeHash gas val address =
     (if evm_depth evm > CallCreateDepth then Value (evm, [], 0, gas, Some ErrDepth)
      else
        let (evm1, can) = read_state (ctx_CanTransfer V (ref_Address caller) val) evm in
        if \<not> can then Value (evm1, [], 0, gas, Some ErrInsufficientBalance)
        else
          let (evm2, nonce) = read_state (vs_GetNonce (vm_db V) (ref_Address caller)) evm1;
              evm3 = on_state (vs_SetNonce (vm_db V) (ref_Address caller) (nonce + 1)) evm2;
              (evm4, contractHash) = read_state (vs_GetCodeHash (vm_db V) address) evm3;
              (evm5, n) = read_state (vs_GetNonce (vm_db V) address) evm4 in
          if n \<noteq> 0 \<or> contractHash \<noteq> 0 \<and> contractHash \<noteq> vm_Keccak256Hash V []
          then Value (evm5, [], 0, 0, Some ErrContractAddressCollision)
          else
            let (evm6, snapshot) = read_state (vs_Snapshot (vm_db V)) evm5;
                evm7 = on_state (vs_CreateAccount (vm_db V) address) evm6;
                evm8 = (if IsEIP158 (vm_chainConfig V) (vm_block V) then on_state (vs_SetNonce (vm_db V) address 1) evm7 else evm7);
                evm9 = share_jumpdests caller (on_state (ctx_Transfer V (ref_Address caller) address val) evm8);
                contract = (NewContract caller address val gas)
                  \<lparr>c_Code := code, c_CodeHash := codeHash, c_CodeAddr := Some address\<rparr>
            in if vm_NoRecursion V \<and> evm_depth evm > 0 then Value (evm9, [], address, gas, None)
               else close_create V snapshot address (evm_run V loop evm9 contract [] False))"

text \<open>\<open>Create2\<close> has hashed the code, \<open>Create\<close> has not.\<close>

definition evm_Create ::
  "'w vm \<Rightarrow> 'w loop \<Rightarrow> 'w evm \<Rightarrow> ContractRef \<Rightarrow> bytes \<Rightarrow> u64 \<Rightarrow> bigint \<Rightarrow> 'w create_result" where
  "evm_Create V loop evm caller code gas val =
     (let (evm1, n) = read_state (vs_GetNonce (vm_db V) (ref_Address caller)) evm
      in evm_create V loop evm1 caller code 0 gas val (vm_CreateAddress V (ref_Address caller) n))"

definition evm_Create2 ::
  "'w vm \<Rightarrow> 'w loop \<Rightarrow> 'w evm \<Rightarrow> ContractRef \<Rightarrow> bytes \<Rightarrow> u64 \<Rightarrow> bigint \<Rightarrow> bigint \<Rightarrow> 'w create_result" where
  "evm_Create2 V loop evm caller code gas endowment salt =
     (let h = vm_Keccak256Hash V code
      in evm_create V loop evm caller code h gas endowment (vm_CreateAddress2 V (ref_Address caller) (BigToHash salt) h))"

definition calls_of :: "'w vm \<Rightarrow> 'w loop \<Rightarrow> 'w calls" where
  "calls_of V loop =
     \<lparr>k_Call = evm_Call V loop, k_CallCode = evm_CallCode V loop, k_DelegateCall = evm_DelegateCall V loop,
      k_StaticCall = evm_StaticCall V loop, k_Create = evm_Create V loop, k_Create2 = evm_Create2 V loop\<rparr>"

text \<open>The loop of \<open>Run\<close>.\<close>

primrec evm_loop :: "nat \<Rightarrow> 'w vm \<Rightarrow> 'w loop" where
  "evm_loop 0 V evm fr = NoFuel"
| "evm_loop (Suc n) V evm fr =
     (if evm_abort evm then Value (evm, fr_contract fr, [], None)
      else obind (interpreter_step V (calls_of V (evm_loop n V)) evm fr) (\<lambda>r.
             case r of
               Return evm1 c ret err \<Rightarrow> Value (evm1, c, ret, err)
             | Continue evm1 fr1 \<Rightarrow> evm_loop n V evm1 fr1))"

end
