(* ===== verification/Evm_Frame.thy ===== *)
theory Evm_Frame
  imports Evm_Run
begin

text \<open>
  What an instruction leaves alone, and how it relates the states before and after.  A relation
  \<open>R\<close> on states that contains every operation of the state interface (the locale \<open>vm_rel\<close>) contains
  every instruction, every call and every run of the interpreter; on the way the proofs account
  for the gas.  \<open>post Q r\<close> says that \<open>r\<close> is not cut off and that \<open>Q\<close> holds if it is a value.
\<close>

definition post :: "('a \<Rightarrow> bool) \<Rightarrow> 'a outcome \<Rightarrow> bool" where
  "post Q r = (case r of NoFuel \<Rightarrow> False | Panics \<Rightarrow> True | Value x \<Rightarrow> Q x)"

named_theorems post_intro "rules for the outcome of composed code"

lemma post_Panics [simp, post_intro]: "post Q Panics"
  by (simp add: post_def)

lemma post_Value [simp]: "post Q (Value x) = Q x"
  by (simp add: post_def)

lemma post_NoFuel [simp]: "\<not> post Q NoFuel"
  by (simp add: post_def)

lemma post_Value_I [post_intro]: "Q x \<Longrightarrow> post Q (Value x)"
  by simp

lemma post_mono: "post P r \<Longrightarrow> (\<And>x. P x \<Longrightarrow> Q x) \<Longrightarrow> post Q r"
  by (cases r) simp_all

lemma post_obind: "post (\<lambda>x. post Q (f x)) r \<Longrightarrow> post Q (obind r f)"
  by (cases r) simp_all

lemma post_obind_I: "post P r \<Longrightarrow> (\<And>x. P x \<Longrightarrow> post Q (f x)) \<Longrightarrow> post Q (obind r f)"
  by (cases r) simp_all

lemma post_of_opt [post_intro]: "(\<And>x. m = Some x \<Longrightarrow> post Q (f x)) \<Longrightarrow> post Q (obind (of_opt m) f)"
  by (cases m) simp_all

lemma post_popn [post_intro]:
  "(\<And>xs st. fr_stack fr = xs @ st \<Longrightarrow> length xs = n \<Longrightarrow> post Q (f xs (fr\<lparr>fr_stack := st\<rparr>))) \<Longrightarrow> post Q (popn n fr f)"
  by (simp add: popn_def)

lemma post_with_back [post_intro]: "(\<And>x. stack_Back st n = Some x \<Longrightarrow> post Q (f x)) \<Longrightarrow> post Q (with_back st n f)"
  unfolding with_back_def by (rule post_of_opt)

lemma post_fr_Get [post_intro]: "(\<And>d. post Q (f d)) \<Longrightarrow> post Q (fr_Get fr a b f)"
  unfolding fr_Get_def by (rule post_of_opt)

lemma post_fr_Set [post_intro]: "(\<And>m. post Q (f (fr\<lparr>fr_mem := m\<rparr>))) \<Longrightarrow> post Q (fr_Set fr a b v f)"
  unfolding fr_Set_def by (rule post_of_opt)

lemma safe_add_gas_ge: "safe_add_gas k r = Inr g \<Longrightarrow> k \<le> g \<and> (\<forall>h. r = Inr h \<longrightarrow> unat g = unat h + unat k)"
  by (auto simp: safe_add_gas_def word_le_nat_alt split: sum.splits prod.splits if_splits dest: SafeAdd_value)

lemma word_gas_ge: "word_gas len rate r = Inr g \<Longrightarrow> \<exists>h. r = Inr h \<and> unat h \<le> unat g"
proof -
  assume *: "word_gas len rate r = Inr g"
  then obtain h where h: "r = Inr h" by (auto simp: word_gas_def split: sum.splits)
  then show ?thesis using *
    by (auto simp: word_gas_def split: prod.splits if_splits dest!: safe_add_gas_ge)
qed

lemma config_GasTable_cases:
  "config_GasTable c n \<in> {GasTableHomestead, GasTableEIP150, GasTableEIP158, GasTableConstantinople}"
  by (simp add: config_GasTable_def)

lemma config_GasTable_pos:
  "0 < gt_ExtcodeSize (config_GasTable c n)" "0 < gt_ExtcodeCopy (config_GasTable c n)" "0 < gt_Balance (config_GasTable c n)"
  "0 < gt_SLoad (config_GasTable c n)"
  "IsConstantinople c (Some b) \<Longrightarrow> 0 < gt_ExtcodeHash (config_GasTable c (Some b))"
  by (simp_all add: config_GasTable_def GasTableHomestead_def GasTableEIP150_def GasTableEIP158_def GasTableConstantinople_def)

lemma config_GasTable_Calls: "gt_Calls (config_GasTable c n) \<in> {40, 700}"
  by (simp add: config_GasTable_def GasTableHomestead_def GasTableEIP150_def GasTableEIP158_def GasTableConstantinople_def)

subsection \<open>The laws of a state\<close>

locale vm_rel =
  fixes V :: "'w vm" and R :: "'w \<Rightarrow> 'w \<Rightarrow> bool" and good :: "'w \<Rightarrow> bool" and num_ok :: "bigint \<Rightarrow> bool"
    and funded :: "address \<Rightarrow> bigint \<Rightarrow> 'w \<Rightarrow> bool"
  assumes R_refl: "R w w"
    and R_trans: "R w1 w2 \<Longrightarrow> R w2 w3 \<Longrightarrow> R w1 w3"
    and R_CreateAccount: "R w (vs_CreateAccount (vm_db V) a w)"
    and R_touch: "R w (vs_AddBalance (vm_db V) a 0 w)"
    and R_GetBalance: "R w (fst (vs_GetBalance (vm_db V) a w))"
    and R_GetNonce: "R w (fst (vs_GetNonce (vm_db V) a w))"
    and R_SetNonce: "R w (vs_SetNonce (vm_db V) a n w)"
    and R_GetCodeHash: "R w (fst (vs_GetCodeHash (vm_db V) a w))"
    and R_GetCode: "R w (fst (vs_GetCode (vm_db V) a w))"
    and R_SetCode: "R w (vs_SetCode (vm_db V) a c w)"
    and R_GetCodeSize: "R w (fst (vs_GetCodeSize (vm_db V) a w))"
    and R_AddRefund: "R w (vs_AddRefund (vm_db V) g w)"
    and R_SubRefund: "vs_SubRefund (vm_db V) g w = Some w' \<Longrightarrow> R w w'"
    and R_GetCommittedState: "R w (fst (vs_GetCommittedState (vm_db V) a k w))"
    and R_GetState: "R w (fst (vs_GetState (vm_db V) a k w))"
    and R_SetState: "R w (vs_SetState (vm_db V) a k v w)"
    and R_selfdestruct: "R w (fst (vs_Suicide (vm_db V) a
      (vs_AddBalance (vm_db V) a' (snd (vs_GetBalance (vm_db V) a w)) (fst (vs_GetBalance (vm_db V) a w)))))"
    and R_HasSuicided: "R w (fst (vs_HasSuicided (vm_db V) a w))"
    and R_Exist: "R w (fst (vs_Exist (vm_db V) a w))"
    and R_Empty: "R w (fst (vs_Empty (vm_db V) a w))"
    and R_Snapshot: "R w (fst (vs_Snapshot (vm_db V) w))"
    and R_AddLog: "R w (vs_AddLog (vm_db V) l w)"
    and R_AddPreimage: "R w (vs_AddPreimage (vm_db V) h bs w)"
    and R_CanTransfer: "R w (fst (ctx_CanTransfer V a b w))"
    and R_Transfer: "funded a b w \<Longrightarrow> num_ok b \<Longrightarrow> R w (ctx_Transfer V a a' b w)"
    and R_Revert: "R (fst (vs_Snapshot (vm_db V) w)) w' \<Longrightarrow>
      vs_RevertToSnapshot (vm_db V) (snd (vs_Snapshot (vm_db V) w)) w' = Some w'' \<Longrightarrow> R w w''"
    and R_good: "R w w' \<Longrightarrow> good w \<Longrightarrow> good w'"
    and num_nonneg: "0 \<le> x \<Longrightarrow> num_ok x"
    and num_bits: "num_ok x \<Longrightarrow> num_ok y \<Longrightarrow> num_ok (x AND y) \<and> num_ok (x OR y) \<and> num_ok (x XOR y)"
    and num_price: "num_ok (ctx_GasPrice V)"
    and num_balance: "good w \<Longrightarrow> num_ok (snd (vs_GetBalance (vm_db V) a w))"
    and funded_CanTransfer: "good w \<Longrightarrow> snd (ctx_CanTransfer V a b w) \<Longrightarrow> funded a b (fst (ctx_CanTransfer V a b w))"
    and funded_kept: "funded a b w \<Longrightarrow> funded a b (fst (vs_Snapshot (vm_db V) w)) \<and> funded a b (fst (vs_Exist (vm_db V) a' w)) \<and>
      funded a b (vs_CreateAccount (vm_db V) a' w) \<and> funded a b (fst (vs_GetNonce (vm_db V) a' w)) \<and>
      funded a b (vs_SetNonce (vm_db V) a' n w) \<and> funded a b (fst (vs_GetCodeHash (vm_db V) a' w))"
begin

lemmas R_ops = R_refl R_CreateAccount R_touch R_GetBalance R_GetNonce R_SetNonce R_GetCodeHash R_GetCode R_SetCode
  R_GetCodeSize R_AddRefund R_GetCommittedState R_GetState R_SetState R_HasSuicided R_Exist R_Empty R_Snapshot
  R_AddLog R_AddPreimage R_CanTransfer

text \<open>The machine afterwards: a related state, the same depth and modes.\<close>

definition kept :: "'w evm \<Rightarrow> 'w evm \<Rightarrow> bool" where
  "kept e e' \<longleftrightarrow> R (evm_StateDB e) (evm_StateDB e') \<and> evm_depth e' = evm_depth e \<and> evm_abort e' = evm_abort e \<and>
     in_readOnly e' = in_readOnly e"

lemma kept_refl [simp]: "kept e e"
  by (simp add: kept_def R_refl)

lemma kept_trans: "kept e1 e2 \<Longrightarrow> kept e2 e3 \<Longrightarrow> kept e1 e3"
  by (auto simp: kept_def intro: R_trans)

lemma kept_on_state: "kept e e1 \<Longrightarrow> (\<And>w. R w (f w)) \<Longrightarrow> kept e (on_state f e1)"
  by (auto simp: kept_def on_state_def intro: R_trans)

lemma kept_read_state: "kept e e1 \<Longrightarrow> (\<And>w. R w (fst (f w))) \<Longrightarrow> kept e (fst (read_state f e1))"
  by (auto simp: kept_def read_state_def case_prod_unfold Let_def intro: R_trans)

lemma kept_fields [simp]:
  "kept e (e'\<lparr>evm_callGasTemp := g\<rparr>) = kept e e'" "kept e (e'\<lparr>in_returnData := d\<rparr>) = kept e e'"
  "kept e (e'\<lparr>evm_jumpdests := j\<rparr>) = kept e e'"
  by (simp_all add: kept_def)

lemma kept_sub_refund: "kept e e1 \<Longrightarrow> post (kept e) (sub_refund V g e1)"
  unfolding sub_refund_def by (rule post_of_opt) (auto simp: kept_def intro: R_trans R_SubRefund)

lemmas kept_writes = R_CreateAccount[THEN kept_on_state[rotated]] R_touch[THEN kept_on_state[rotated]]
  R_SetNonce[THEN kept_on_state[rotated]] R_SetCode[THEN kept_on_state[rotated]] R_AddRefund[THEN kept_on_state[rotated]]
  R_SetState[THEN kept_on_state[rotated]] R_AddLog[THEN kept_on_state[rotated]] R_AddPreimage[THEN kept_on_state[rotated]]

lemmas kept_reads = R_GetBalance[THEN kept_read_state[rotated]] R_GetNonce[THEN kept_read_state[rotated]]
  R_GetCodeHash[THEN kept_read_state[rotated]] R_GetCode[THEN kept_read_state[rotated]] R_GetCodeSize[THEN kept_read_state[rotated]]
  R_GetCommittedState[THEN kept_read_state[rotated]] R_GetState[THEN kept_read_state[rotated]]
  R_HasSuicided[THEN kept_read_state[rotated]] R_Exist[THEN kept_read_state[rotated]] R_Empty[THEN kept_read_state[rotated]]
  R_Snapshot[THEN kept_read_state[rotated]] R_CanTransfer[THEN kept_read_state[rotated]]

lemmas kept_intros = kept_refl kept_writes kept_reads

text \<open>The contract afterwards: the same account, code and value; the gas is separate.\<close>

definition same_contract :: "Contract \<Rightarrow> Contract \<Rightarrow> bool" where
  "same_contract c c' \<longleftrightarrow> CallerAddress c' = CallerAddress c \<and> c_self c' = c_self c \<and> c_Code c' = c_Code c \<and>
     c_CodeHash c' = c_CodeHash c \<and> c_CodeAddr c' = c_CodeAddr c \<and> c_Input c' = c_Input c \<and> c_value c' = c_value c"

text \<open>A frame whose numbers are in order, over a good state.\<close>

definition typed :: "'w evm \<Rightarrow> frame \<Rightarrow> bool" where
  "typed e fr \<longleftrightarrow> good (evm_StateDB e) \<and> list_all num_ok (fr_stack fr) \<and> num_ok (c_value (fr_contract fr))"

lemma kept_good: "kept e e' \<Longrightarrow> good (evm_StateDB e) \<Longrightarrow> good (evm_StateDB e')"
  by (auto simp: kept_def intro: R_good)

lemma num_words [simp]:
  "num_ok (uint w)" "num_ok (int n)" "num_ok (U256 x)" "num_ok (SetBytes bs)" "num_ok 0" "num_ok 1"
  using U256_bounds(1)[of x] SetBytes_bounds(1)[of bs] by (simp_all add: num_nonneg)

lemma num_byte [simp]: "num_ok (uint (w :: 'a :: len word))"
  by (simp add: num_nonneg)

lemma num_nth [simp]: "list_all num_ok xs \<Longrightarrow> i < length xs \<Longrightarrow> num_ok (xs ! i)"
  by (simp add: list_all_length)

text \<open>An instruction that calls nobody.\<close>

definition quiet :: "'w evm \<Rightarrow> frame \<Rightarrow> 'w evm \<times> frame \<times> bytes \<times> vm_error option \<Rightarrow> bool" where
  "quiet e fr r = (case r of (e', fr', res, err) \<Rightarrow> kept e e' \<and> same_contract (fr_contract fr) (fr_contract fr') \<and>
     c_Gas (fr_contract fr') = c_Gas (fr_contract fr) \<and> list_all num_ok (fr_stack fr'))"

lemma quiet_go_on:
  "kept e e' \<Longrightarrow> fr_contract fr' = fr_contract fr \<Longrightarrow> list_all num_ok (fr_stack fr') \<Longrightarrow> post (quiet e fr) (go_on e' fr')"
  by (simp add: quiet_def go_on_def same_contract_def)

lemma quiet_Value:
  "kept e e' \<Longrightarrow> fr_contract fr' = fr_contract fr \<Longrightarrow> list_all num_ok (fr_stack fr') \<Longrightarrow> quiet e fr (e', fr', res, err)"
  by (simp add: quiet_def same_contract_def)

lemma push_fields [simp]: "fr_contract (push x fr) = fr_contract fr" "fr_stack (push x fr) = x # fr_stack fr"
  by (simp_all add: push_def)

definition pure_ok :: "(bigint list \<Rightarrow> bigint list option) \<Rightarrow> bool" where
  "pure_ok f \<longleftrightarrow> (\<forall>st st'. list_all num_ok st \<longrightarrow> f st = Some st' \<longrightarrow> list_all num_ok st')"

lemma quiet_stack_op: "pure_ok f \<Longrightarrow> typed e fr \<Longrightarrow> post (quiet e fr) (stack_op f V K e fr)"
  unfolding stack_op_def by (intro post_intro quiet_go_on) (auto simp: pure_ok_def typed_def)

lemmas quiet_intros = post_intro quiet_go_on quiet_Value

lemmas quiet_defs1 = opSha3_def opAddress_def opBalance_def opOrigin_def opCaller_def opCallValue_def opCallDataLoad_def
  opCallDataSize_def opCallDataCopy_def opReturnDataSize_def opReturnDataCopy_def opExtCodeSize_def opCodeSize_def
  opCodeCopy_def opExtCodeCopy_def opExtCodeHash_def opGasprice_def opBlockhash_def opCoinbase_def opTimestamp_def
  opNumber_def opDifficulty_def opGasLimit_def

lemma num_read_balance: "good (evm_StateDB e) \<Longrightarrow> num_ok (snd (read_state (vs_GetBalance (vm_db V) a) e))"
  by (simp add: read_state_def case_prod_unfold Let_def num_balance)

lemma quiet_environment:
  assumes "typed e fr"
  shows "post (quiet e fr) (opSha3 V K e fr)" "post (quiet e fr) (opAddress V K e fr)" "post (quiet e fr) (opBalance V K e fr)"
  "post (quiet e fr) (opOrigin V K e fr)" "post (quiet e fr) (opCaller V K e fr)" "post (quiet e fr) (opCallValue V K e fr)"
  "post (quiet e fr) (opCallDataLoad V K e fr)" "post (quiet e fr) (opCallDataSize V K e fr)"
  "post (quiet e fr) (opCallDataCopy V K e fr)" "post (quiet e fr) (opReturnDataSize V K e fr)"
  "post (quiet e fr) (opReturnDataCopy V K e fr)" "post (quiet e fr) (opExtCodeSize V K e fr)"
  "post (quiet e fr) (opCodeSize V K e fr)" "post (quiet e fr) (opCodeCopy V K e fr)"
  "post (quiet e fr) (opExtCodeCopy V K e fr)" "post (quiet e fr) (opExtCodeHash V K e fr)"
  "post (quiet e fr) (opGasprice V K e fr)" "post (quiet e fr) (opBlockhash V K e fr)" "post (quiet e fr) (opCoinbase V K e fr)"
  "post (quiet e fr) (opTimestamp V K e fr)" "post (quiet e fr) (opNumber V K e fr)" "post (quiet e fr) (opDifficulty V K e fr)"
  "post (quiet e fr) (opGasLimit V K e fr)"
  using assms
  by (auto simp: quiet_defs1 typed_def Let_def case_prod_unfold num_price num_read_balance intro!: quiet_intros kept_intros)

lemma quiet_jump_to:
  assumes "list_all num_ok st"
  shows "post (quiet e fr) (jump_to pos e (fr\<lparr>fr_stack := st\<rparr>))"
proof -
  have "same_contract c c' \<and> c_Gas c' = c_Gas c" if "validJumpdest j c d = Some (j', c', ok)" for j c d j' c' ok
    using that by (auto simp: validJumpdest_def same_contract_def Let_def split: if_splits option.splits)
  then show ?thesis
    unfolding jump_to_def using assms by (auto simp: quiet_def go_on_def Let_def intro!: post_of_opt)
qed

lemma kept_selfdestruct:
  assumes "kept e e0" and "c = read_state (vs_GetBalance (vm_db V) a) e0"
  shows "kept e (fst (read_state (vs_Suicide (vm_db V) a) (on_state (vs_AddBalance (vm_db V) a' (snd c)) (fst c))))"
  using assms R_selfdestruct[of "evm_StateDB e0" a a']
  by (auto simp: kept_def read_state_def on_state_def case_prod_unfold Let_def intro: R_trans)

lemmas quiet_defs2 = opMload_def opMstore_def opMstore8_def opSload_def opSstore_def opJump_def opJumpi_def opJumpdest_def opPc_def
  opMsize_def opGas_def opReturn_def opRevert_def opStop_def makeLog_def makePush_def

lemma quiet_machine:
  assumes "typed e fr"
  shows "post (quiet e fr) (opMload V K e fr)" "post (quiet e fr) (opMstore V K e fr)" "post (quiet e fr) (opMstore8 V K e fr)"
  "post (quiet e fr) (opSload V K e fr)" "post (quiet e fr) (opSstore V K e fr)" "post (quiet e fr) (opJump V K e fr)"
  "post (quiet e fr) (opJumpi V K e fr)" "post (quiet e fr) (opJumpdest V K e fr)" "post (quiet e fr) (opPc V K e fr)"
  "post (quiet e fr) (opMsize V K e fr)" "post (quiet e fr) (opGas V K e fr)" "post (quiet e fr) (opReturn V K e fr)"
  "post (quiet e fr) (opRevert V K e fr)" "post (quiet e fr) (opStop V K e fr)"
  "post (quiet e fr) (makeLog n V K e fr)" "post (quiet e fr) (makePush sz m V K e fr)"
  using assms
  by (auto simp: quiet_defs2 typed_def Let_def case_prod_unfold intro!: quiet_intros kept_intros quiet_jump_to)

lemma quiet_suicide: "typed e fr \<Longrightarrow> post (quiet e fr) (opSuicide V K e fr)"
  unfolding opSuicide_def Let_def case_prod_unfold
  by (intro post_popn quiet_go_on kept_selfdestruct[OF kept_refl refl]) (auto simp: typed_def)

subsection \<open>Pure instructions\<close>

lemma pure_arithmetic:
  "pure_ok opAdd" "pure_ok opSub" "pure_ok opMul" "pure_ok opDiv" "pure_ok opSdiv" "pure_ok opMod" "pure_ok opSmod" "pure_ok opNot"
  "pure_ok opLt" "pure_ok opGt" "pure_ok opSlt" "pure_ok opSgt" "pure_ok opEq" "pure_ok opIszero" "pure_ok opAddmod" "pure_ok opMulmod"
  "pure_ok opSHL" "pure_ok opSHR" "pure_ok opSAR" "pure_ok opByte" "pure_ok opPop"
  by (auto simp: pure_ok_def Let_def split: if_splits elim: opAdd.elims opSub.elims opMul.elims opDiv.elims opSdiv.elims opMod.elims
      opSmod.elims opNot.elims opLt.elims opGt.elims opSlt.elims opSgt.elims opEq.elims opIszero.elims opAddmod.elims opMulmod.elims
      opSHL.elims opSHR.elims opSAR.elims opByte.elims opPop.elims)

lemma pure_bits: "pure_ok opAnd" "pure_ok opOr" "pure_ok opXor"
  using num_bits by (auto simp: pure_ok_def elim!: opAnd.elims opOr.elims opXor.elims)

lemma pure_other: "pure_ok opSignExtend" "pure_ok opExp" "pure_ok (makeDup n)" "pure_ok (makeSwap n)"
proof -
  have "0 \<le> fst (Exp b x)" if "0 \<le> x" for b x
    using Exp_correct[OF that, of b] by simp
  then show "pure_ok opExp"
    by (auto simp: pure_ok_def Cmp_def Let_def num_nonneg split: if_splits elim!: opExp.elims)
  show "pure_ok opSignExtend"
    by (auto simp: pure_ok_def Let_def split: if_splits list.splits elim!: opSignExtend.elims)
  show "pure_ok (makeDup n)"
    by (auto simp: pure_ok_def makeDup_def stack_dup_def split: if_splits)
  show "pure_ok (makeSwap n)"
    by (auto simp: pure_ok_def makeSwap_def stack_swap_def list_all_iff split: if_splits dest!: subsetD[OF set_update_subset_insert])
       (metis Suc_le_lessD gr_implies_not0 list.size(3) nth_mem zero_less_iff_neq_zero)
qed

lemmas pure_ops = pure_arithmetic pure_bits pure_other

subsection \<open>Gas functions\<close>

text \<open>A gas function keeps the machine; \<open>Q\<close> is what is known of the cost.\<close>

definition costs :: "(u64 \<Rightarrow> bool) \<Rightarrow> 'w evm \<Rightarrow> 'w evm \<times> Memory \<times> (vm_error + u64) \<Rightarrow> bool" where
  "costs Q e r = (case r of (e', m', c) \<Rightarrow> kept e e' \<and> (case c of Inl err \<Rightarrow> True | Inr g \<Rightarrow> Q g))"

lemma costs_Value: "kept e e' \<Longrightarrow> (case c of Inl err \<Rightarrow> True | Inr g \<Rightarrow> Q g) \<Longrightarrow> costs Q e (e', m', c)"
  by (simp add: costs_def)

lemma costs_mem_gas: "(\<And>r g. f r = Inr g \<Longrightarrow> Q g) \<Longrightarrow> kept e e' \<Longrightarrow> post (costs Q e) (mem_gas m sz f e')"
  by (auto simp: mem_gas_def costs_def split: prod.split sum.split)

lemma pos_add: "0 < k \<Longrightarrow> safe_add_gas k r = Inr g \<Longrightarrow> 0 < g"
  using safe_add_gas_ge by (blast intro: order.strict_trans2)

lemma pos_word: "0 < k \<Longrightarrow> word_gas len rate (safe_add_gas k r) = Inr g \<Longrightarrow> 0 < g"
  using pos_add word_gas_ge by (metis not_gr0 le_zero_eq unat_eq_zero word_gt_0)

lemma costs_const: "Q g \<Longrightarrow> post (costs Q e) (constGasFunc g gt V e c st m sz)"
  by (simp add: constGasFunc_def costs_def)

lemma pos_copy_gas:
  "post (costs (\<lambda>g. 0 < g) e) (gasCallDataCopy gt V e c st m sz)" "post (costs (\<lambda>g. 0 < g) e) (gasReturnDataCopy gt V e c st m sz)"
  "post (costs (\<lambda>g. 0 < g) e) (gasCodeCopy gt V e c st m sz)" "post (costs (\<lambda>g. 0 < g) e) (gasSha3 gt V e c st m sz)"
  "post (costs (\<lambda>g. 0 < g) e) (gasCreate2 gt V e c st m sz)"
  "0 < gt_ExtcodeCopy gt \<Longrightarrow> post (costs (\<lambda>g. 0 < g) e) (gasExtCodeCopy gt V e c st m sz)"
  unfolding gasCallDataCopy_def gasReturnDataCopy_def gasCodeCopy_def gasSha3_def gasCreate2_def gasExtCodeCopy_def
  by (auto intro!: post_intro costs_mem_gas kept_refl elim!: pos_word[rotated])

lemma pos_memory_gas:
  "post (costs (\<lambda>g. 0 < g) e) (gasMLoad gt V e c st m sz)" "post (costs (\<lambda>g. 0 < g) e) (gasMStore gt V e c st m sz)"
  "post (costs (\<lambda>g. 0 < g) e) (gasMStore8 gt V e c st m sz)" "post (costs (\<lambda>g. 0 < g) e) (gasCreate gt V e c st m sz)"
  unfolding gasMLoad_def gasMStore_def gasMStore8_def gasCreate_def
  by (auto intro!: post_intro costs_mem_gas kept_refl elim!: pos_add[rotated])

lemma costs_memory_gas: "post (costs (\<lambda>g. True) e) (gasReturn gt V e c st m sz)" "post (costs (\<lambda>g. True) e) (gasRevert gt V e c st m sz)"
  unfolding gasReturn_def gasRevert_def by (rule costs_mem_gas; simp)+

lemma pos_log_gas: "post (costs (\<lambda>g. 0 < g) e) (makeGasLog n gt V e c st m sz)"
proof -
  have "0 < g" if res: "(case safe_add_gas (n * LogTopicGas) (safe_add_gas LogGas r) of Inl e \<Rightarrow> Inl e
      | Inr gas \<Rightarrow> case SafeMul q LogDataGas of (m, overflow) \<Rightarrow> if overflow then Inl errGasUintOverflow else safe_add_gas m (Inr gas)) = Inr g"
    for r q g
  proof -
    obtain h where h: "safe_add_gas (n * LogTopicGas) (safe_add_gas LogGas r) = Inr h" using res by (auto split: sum.splits)
    obtain h0 where h0: "safe_add_gas LogGas r = Inr h0" using h by (auto simp: safe_add_gas_def split: sum.splits)
    have "0 < h0" using pos_add[OF _ h0] by simp
    then have "0 < h" using safe_add_gas_ge[OF h] h0 by (simp add: word_less_nat_alt)
    then show ?thesis using res h safe_add_gas_ge[of _ "Inr h" g] by (auto simp: word_less_nat_alt split: prod.splits if_splits)
  qed
  then show ?thesis unfolding makeGasLog_def
    by (auto simp: costs_def split: prod.split intro!: post_intro costs_mem_gas)
qed

lemma pos_table_gas:
  "0 < gt_ExtcodeHash gt \<Longrightarrow> post (costs (\<lambda>g. 0 < g) e) (gasExtCodeHash gt V e c st m sz)"
  "0 < gt_Balance gt \<Longrightarrow> post (costs (\<lambda>g. 0 < g) e) (gasBalance gt V e c st m sz)"
  "0 < gt_ExtcodeSize gt \<Longrightarrow> post (costs (\<lambda>g. 0 < g) e) (gasExtCodeSize gt V e c st m sz)"
  "0 < gt_SLoad gt \<Longrightarrow> post (costs (\<lambda>g. 0 < g) e) (gasSLoad gt V e c st m sz)"
  "post (costs (\<lambda>g. 0 < g) e) (gasPush gt V e c st m sz)" "post (costs (\<lambda>g. 0 < g) e) (gasSwap gt V e c st m sz)"
  "post (costs (\<lambda>g. 0 < g) e) (gasDup gt V e c st m sz)"
  by (simp_all add: gasExtCodeHash_def gasBalance_def gasExtCodeSize_def gasSLoad_def gasPush_def gasSwap_def gasDup_def costs_def)

lemma pos_exp_gas: "post (costs (\<lambda>g. 0 < g) e) (gasExp gt V e c st m sz)"
  unfolding gasExp_def by (auto simp: Let_def costs_def split: sum.split intro!: post_intro elim!: pos_add[rotated])

lemma pos_sstore_gas: "post (costs (\<lambda>g. 0 < g) e) (gasSStore gt V e c st m sz)"
proof -
  have legacy: "kept e (fst (sstore_legacy V cur y e1)) \<and> 0 < snd (sstore_legacy V cur y e1)" if "kept e e1" for cur y e1
    using that by (simp add: sstore_legacy_def kept_on_state R_ops)
  have net: "post (\<lambda>(e2, g). kept e e2 \<and> 0 < g) (sstore_net V a k cur v e1)" if "kept e e1" for a k cur v e1
    using that unfolding sstore_net_def
    by (auto simp: Let_def case_prod_unfold kept_on_state kept_read_state R_ops
        intro!: post_obind_I[where P = "kept e"] kept_sub_refund)
  show ?thesis unfolding gasSStore_def
    by (auto simp: Let_def case_prod_unfold costs_def legacy kept_read_state R_ops
        intro!: post_intro post_obind_I[OF net[unfolded case_prod_unfold]])
qed

lemma costs_suicide_gas: "post (costs (\<lambda>g. True) e) (gasSuicide gt V e c st m sz)"
proof -
  have acc: "kept e (fst (suicide_account_gas gt V a b e))" for a b
    by (simp add: suicide_account_gas_def Let_def case_prod_unfold kept_read_state R_ops)
  show ?thesis unfolding gasSuicide_def
    by (auto simp: Let_def case_prod_unfold costs_def acc intro!: post_intro kept_on_state kept_read_state R_ops)
qed

end

end
