(* ===== verification/Evm_Pay.thy ===== *)
theory Evm_Pay
  imports Evm_Frame
begin

text \<open>
  Every instruction of every fork pays: an iteration of the interpreter loop that goes on burns gas,
  and an instruction that calls hands out less gas than its frame had before.
\<close>

context vm_rel
begin

abbreviation gas_table :: GasTable where
  "gas_table \<equiv> config_GasTable (vm_chainConfig V) (vm_block V)"

subsection \<open>The price of a call\<close>

definition call_costs :: "nat \<Rightarrow> 'w evm \<Rightarrow> 'w evm \<times> Memory \<times> (vm_error + u64) \<Rightarrow> bool" where
  "call_costs k e r = (case r of (e', m', c) \<Rightarrow>
     kept e e' \<and> (case c of Inl err \<Rightarrow> True | Inr g \<Rightarrow> unat (evm_callGasTemp e') + k < unat g))"

lemma charge_call_costs:
  assumes "kept e e'" and "\<And>h. r = Inr h \<Longrightarrow> k < unat h"
  shows "post (call_costs k e) (charge_call gt c cc r m e')"
  using assms by (auto simp: charge_call_def call_costs_def split: sum.split dest!: safe_add_gas_ge)

lemma call_price:
  assumes "acc \<in> {0, CallNewAccountGas}"
  shows "unat (gt_Calls gas_table + acc + (if v then CallValueTransferGas else 0)) > (if v then 9000 else 0)"
  using config_GasTable_Calls[of "vm_chainConfig V" "vm_block V"] assms by (auto simp: unat_word_ariths)

lemma add_memory_price:
  "(case r of Inl e \<Rightarrow> Inl e | Inr mg \<Rightarrow> safe_add_gas mg (Inr g)) = Inr h \<Longrightarrow> unat g \<le> unat h"
  by (auto split: sum.splits dest!: safe_add_gas_ge)

text \<open>What a value on the stack adds to the price, whether or not the account is new.\<close>

definition value_price :: "bigint list \<Rightarrow> nat" where
  "value_price st = (case stack_Back st 2 of Some v \<Rightarrow> if v \<noteq> 0 then 9000 else 0 | None \<Rightarrow> 0)"

lemma call_account_gas_kept: "kept e (fst (call_account_gas V t a e))" "snd (call_account_gas V t a e) \<in> {0, CallNewAccountGas}"
  by (auto simp: call_account_gas_def Let_def case_prod_unfold kept_read_state R_ops)

lemma charged_call_costs:
  assumes "stack_Back st 2 = Some v" and "kept e e'" and "acc \<in> {0, CallNewAccountGas}"
  shows "post (call_costs (value_price st) e)
    (charge_call gas_table c cc (case r of Inl e \<Rightarrow> Inl e | Inr mg \<Rightarrow>
       safe_add_gas mg (Inr (gt_Calls gas_table + acc + (if v \<noteq> 0 then CallValueTransferGas else 0)))) mm e')"
proof (rule charge_call_costs[OF assms(2)])
  fix h
  assume "(case r of Inl e \<Rightarrow> Inl e | Inr mg \<Rightarrow>
    safe_add_gas mg (Inr (gt_Calls gas_table + acc + (if v \<noteq> 0 then CallValueTransferGas else 0)))) = Inr h"
  from less_le_trans[OF call_price[OF assms(3), of "v \<noteq> 0"] add_memory_price[OF this]]
  show "value_price st < unat h" using assms(1) by (simp add: value_price_def)
qed

lemma gasCall_costs: "post (call_costs (value_price st) e) (gasCall gas_table V e c st m sz)"
  unfolding gasCall_def Let_def case_prod_unfold
  by (intro post_with_back charged_call_costs call_account_gas_kept)

lemma gasCallCode_costs: "post (call_costs (value_price st) e) (gasCallCode gas_table V e c st m sz)"
  unfolding gasCallCode_def Let_def case_prod_unfold
  by (intro post_with_back charged_call_costs[where acc = 0, unfolded add_0_right] kept_refl) simp_all

lemma gasDelegate_costs:
  "post (call_costs 0 e) (gasDelegateCall gas_table V e c st m sz)" "post (call_costs 0 e) (gasStaticCall gas_table V e c st m sz)"
proof -
  have "0 < unat h" if "safe_add_gas (gt_Calls gas_table) r = Inr h" for r h
    using safe_add_gas_ge[OF that] config_GasTable_Calls[of "vm_chainConfig V" "vm_block V"] by (auto simp: word_le_nat_alt)
  then show "post (call_costs 0 e) (gasDelegateCall gas_table V e c st m sz)" "post (call_costs 0 e) (gasStaticCall gas_table V e c st m sz)"
    unfolding gasDelegateCall_def gasStaticCall_def
    by (auto simp: Let_def case_prod_unfold intro!: post_intro charge_call_costs)
qed

subsection \<open>Instructions that call\<close>

text \<open>Calls that get less than \<open>b\<close> gas come back with at most that, and keep the machine.\<close>

definition returns_gas :: "'w evm \<Rightarrow> u64 \<Rightarrow> 'w evm \<times> bytes \<times> u64 \<times> vm_error option \<Rightarrow> bool" where
  "returns_gas e g r = (case r of (e', ret, g', err) \<Rightarrow> kept e e' \<and> g' \<le> g)"

definition creates_gas :: "'w evm \<Rightarrow> u64 \<Rightarrow> 'w evm \<times> bytes \<times> address \<times> u64 \<times> vm_error option \<Rightarrow> bool" where
  "creates_gas e g r = (case r of (e', ret, a, g', err) \<Rightarrow> kept e e' \<and> g' \<le> g)"

definition ref_ok :: "ContractRef \<Rightarrow> bool" where
  "ref_ok r = (case r of AccountRef a \<Rightarrow> True | IsContract c \<Rightarrow> num_ok (c_value c))"

definition calls_bounded :: "nat \<Rightarrow> 'w calls \<Rightarrow> bool" where
  "calls_bounded b K \<longleftrightarrow> (\<forall>e c a i g v s. unat g < b \<longrightarrow> good (evm_StateDB e) \<longrightarrow> num_ok v \<longrightarrow> ref_ok c \<longrightarrow>
     post (returns_gas e g) (k_Call K e c a i g v) \<and> post (returns_gas e g) (k_CallCode K e c a i g v) \<and>
     post (returns_gas e g) (k_DelegateCall K e c a i g) \<and> post (returns_gas e g) (k_StaticCall K e c a i g) \<and>
     post (creates_gas e g) (k_Create K e c i g v) \<and> post (creates_gas e g) (k_Create2 K e c i g v s))"


definition spends :: "'w evm \<Rightarrow> Contract \<Rightarrow> nat \<Rightarrow> 'w evm \<times> frame \<times> bytes \<times> vm_error option \<Rightarrow> bool" where
  "spends e c b r = (case r of (e', fr', res, err) \<Rightarrow> kept e e' \<and> same_contract c (fr_contract fr') \<and>
     unat (c_Gas (fr_contract fr')) < b \<and> list_all num_ok (fr_stack fr'))"

lemma unat_add_le: "unat (x + y) \<le> unat x + unat y" for x y :: u64
  by (simp add: unat_word_ariths)

lemma finish_call_spends:
  assumes "post (returns_gas e g) r" and "unat (c_Gas (fr_contract fr)) + unat g < b" and "c = fr_contract fr"
    and "list_all num_ok (fr_stack fr)"
  shows "post (spends e c b) (finish_call ro rs fr r)"
proof -
  have "spends e c b (e', add_gas g' fr', ret, None)"
    if "kept e e'" "g' \<le> g" "fr_contract fr' = fr_contract fr" "list_all num_ok (fr_stack fr')" for e' g' fr' ret
    using that assms(2,3) by (auto simp: spends_def add_gas_def same_contract_def word_le_nat_alt intro: le_less_trans[OF unat_add_le])
  then show ?thesis using assms(1,4)
    by (cases r) (auto simp: finish_call_def returns_gas_def Let_def intro!: post_fr_Set)
qed

text \<open>A stipend of 2300 is within the 9000 that a value costs.\<close>

lemma stipend_less:
  assumes "a + unat t + value_price (xs @ st) < b" and "2 < length xs"
  shows "a + unat (t + (if U256 (xs ! 2) \<noteq> 0 then CallStipend else 0)) < b"
proof -
  have *: "unat (t + 2300) \<le> unat t + 2300"
    using unat_add_le[of t 2300] by simp
  have "U256 (xs ! 2) \<noteq> 0 \<Longrightarrow> xs ! 2 \<noteq> 0" by (auto simp: U256_def)
  then show ?thesis
    using assms * by (auto simp: value_price_def stack_Back_def nth_append split: if_splits)
qed

definition pays_for_call :: "'w calls \<Rightarrow> (bigint list \<Rightarrow> nat) \<Rightarrow> 'w execution \<Rightarrow> bool" where
  "pays_for_call K k f \<longleftrightarrow> (\<forall>e fr b. typed e fr \<longrightarrow> calls_bounded b K \<longrightarrow>
     unat (c_Gas (fr_contract fr)) + unat (evm_callGasTemp e) + k (fr_stack fr) < b \<longrightarrow> post (spends e (fr_contract fr) b) (f V K e fr))"

lemma calls_boundedD:
  assumes "calls_bounded b K" and "unat g < b" and "good (evm_StateDB e)" and "num_ok v" and "ref_ok c"
  shows "post (returns_gas e g) (k_Call K e c a i g v)" "post (returns_gas e g) (k_CallCode K e c a i g v)"
    "post (returns_gas e g) (k_DelegateCall K e c a i g)" "post (returns_gas e g) (k_StaticCall K e c a i g)"
    "post (creates_gas e g) (k_Create K e c i g v)" "post (creates_gas e g) (k_Create2 K e c i g v s)"
  using assms by (auto simp: calls_bounded_def)

lemma finish_bounded:
  assumes "calls_bounded b K" and "unat (c_Gas c) + unat g < b" and "c = fr_contract fr"
    and "good (evm_StateDB e)" and "list_all num_ok (fr_stack fr)" and "ref_ok r"
  shows "num_ok v \<Longrightarrow> post (spends e c b) (finish_call ro rs fr (k_Call K e r a i g v))"
    and "num_ok v \<Longrightarrow> post (spends e c b) (finish_call ro rs fr (k_CallCode K e r a i g v))"
    and "post (spends e c b) (finish_call ro rs fr (k_DelegateCall K e r a i g))"
    and "post (spends e c b) (finish_call ro rs fr (k_StaticCall K e r a i g))"
proof -
  have "unat g < b" using assms(2) by simp
  note bounded = calls_boundedD[OF assms(1) this assms(4) _ assms(6)]
  show "num_ok v \<Longrightarrow> post (spends e c b) (finish_call ro rs fr (k_Call K e r a i g v))"
    "num_ok v \<Longrightarrow> post (spends e c b) (finish_call ro rs fr (k_CallCode K e r a i g v))"
    "post (spends e c b) (finish_call ro rs fr (k_DelegateCall K e r a i g))"
    "post (spends e c b) (finish_call ro rs fr (k_StaticCall K e r a i g))"
    using assms(2,3,5) by (auto intro!: finish_call_spends bounded bounded(3,4)[of 0])
qed

lemma call_pays:
  "pays_for_call K value_price opCall" "pays_for_call K value_price opCallCode"
  "pays_for_call K (\<lambda>st. 0) opDelegateCall" "pays_for_call K (\<lambda>st. 0) opStaticCall"
  unfolding pays_for_call_def opCall_def opCallCode_def opDelegateCall_def opStaticCall_def Let_def
  by (intro allI impI post_popn post_fr_Get finish_bounded stipend_less; simp add: typed_def ref_ok_def)+

lemma spends_creation:
  assumes "kept e e'" and "g' \<le> g" and "g \<le> c_Gas (fr_contract fr)" and "unat (c_Gas (fr_contract fr)) < b"
    and "list_all num_ok (fr_stack fr)" and "num_ok x"
  shows "spends e (fr_contract fr) b (e', add_gas g' (push x (use_gas g fr)), d, None)"
proof -
  have "unat (c_Gas (fr_contract fr) - g + g') \<le> unat (c_Gas (fr_contract fr))"
    using assms(2,3) unat_add_le[of "c_Gas (fr_contract fr) - g" g']
    by (simp add: unat_sub word_le_nat_alt)
  then show ?thesis
    using assms by (auto simp: spends_def add_gas_def use_gas_def UseGas_def same_contract_def not_less push_def)
qed

lemma use_gas_value [simp]: "c_value (fr_contract (use_gas g fr)) = c_value (fr_contract fr)"
  by (simp add: use_gas_def UseGas_def)

lemma create_bounded:
  assumes "calls_bounded b K" and "unat g < b" and "good (evm_StateDB e)" and "num_ok v" and "ref_ok c"
    and "\<And>e' res a g' err. kept e e' \<Longrightarrow> g' \<le> g \<Longrightarrow> post Q (f (e', res, a, g', err))"
  shows "post Q (obind (k_Create K e c i g v) f)" "post Q (obind (k_Create2 K e c i g v s) f)"
  using calls_boundedD(5,6)[OF assms(1-5)] assms(6)
  by (auto simp: creates_gas_def intro!: post_obind_I[where P = "creates_gas e g"])

lemma creation_pays:
  assumes "calls_bounded b K" and "unat (c_Gas (fr_contract fr)) < b" and "typed e fr"
  shows "post (spends e (fr_contract fr) b) (opCreate V K e fr)" "post (spends e (fr_contract fr) b) (opCreate2 V K e fr)"
proof -
  have le: "g - g div 64 \<le> g" for g :: u64
    using word_sub_le[of "g div 64" g] by (simp add: word_le_nat_alt unat_div)
  have sp: "spends e (fr_contract fr) b (e', add_gas g' (push x (use_gas g (fr\<lparr>fr_stack := st\<rparr>))), d, None)"
    if "kept e e'" "g' \<le> g" "g \<le> c_Gas (fr_contract fr)" "list_all num_ok st" "num_ok x" for e' g' g x d st
    using spends_creation[of e e' g' g "fr\<lparr>fr_stack := st\<rparr>"] that assms(2) by simp
  have less: "unat g < b" if "g \<le> c_Gas (fr_contract fr)" for g
    using that assms(2) by (simp add: word_le_nat_alt)
  show "post (spends e (fr_contract fr) b) (opCreate V K e fr)" "post (spends e (fr_contract fr) b) (opCreate2 V K e fr)"
    unfolding opCreate_def opCreate2_def Let_def
    using assms(3)
    by (intro post_popn post_fr_Get create_bounded[OF assms(1)] less; simp add: le sp typed_def ref_ok_def)+
qed

subsection \<open>One step of the interpreter\<close>

definition step_ok :: "'w evm \<Rightarrow> Contract \<Rightarrow> 'w step_result \<Rightarrow> bool" where
  "step_ok e c r = (case r of
     Continue e' fr' \<Rightarrow> kept e e' \<and> same_contract c (fr_contract fr') \<and> c_Gas (fr_contract fr') < c_Gas c \<and>
       list_all num_ok (fr_stack fr')
   | Return e' c' ret err \<Rightarrow> kept e e' \<and> same_contract c c' \<and> c_Gas c' \<le> c_Gas c)"

definition executed :: "'w operation \<Rightarrow> 'w evm \<Rightarrow> Contract \<Rightarrow> 'w evm \<times> frame \<times> bytes \<times> vm_error option \<Rightarrow> bool" where
  "executed oper e c r = (case r of (e', fr', res, err) \<Rightarrow> kept e e' \<and> same_contract c (fr_contract fr') \<and>
     c_Gas (fr_contract fr') \<le> c_Gas c \<and> (op_halts oper \<or> op_reverts oper \<or> c_Gas (fr_contract fr') < c_Gas c) \<and>
     list_all num_ok (fr_stack fr'))"

definition pays :: "'w calls \<Rightarrow> 'w operation \<Rightarrow> bool" where
  "pays K oper \<longleftrightarrow> (\<forall>e fr sz. typed e fr \<longrightarrow> calls_bounded (unat (c_Gas (fr_contract fr))) K \<longrightarrow>
     post (step_ok e (fr_contract fr)) (pay_and_execute V K oper sz e fr))"

lemma same_contract_refl [simp]: "same_contract c c"
  by (simp add: same_contract_def)

lemma same_contract_gas [simp]: "same_contract (c\<lparr>c_Gas := g\<rparr>) c' = same_contract c c'"
  by (simp add: same_contract_def)

lemma step_ok_after_execute:
  assumes "kept e e1" and "executed oper e1 c r"
  shows "post (step_ok e c) (after_execute oper r)"
  using assms by (auto simp: after_execute_def fail_def step_ok_def executed_def Let_def intro: kept_trans split: option.split)

text \<open>A frame that has paid \<open>g\<close> and got a new memory.\<close>

definition charged :: "frame \<Rightarrow> u64 \<Rightarrow> Memory \<Rightarrow> frame" where
  "charged fr g m = fr\<lparr>fr_contract := (fr_contract fr)\<lparr>c_Gas := c_Gas (fr_contract fr) - g\<rparr>, fr_mem := m\<rparr>"

lemma typed_charged: "typed e fr \<Longrightarrow> kept e e1 \<Longrightarrow> typed e1 (charged fr g m)"
  by (auto simp: typed_def charged_def intro: kept_good)

lemma step_ok_pay_and_execute:
  assumes gas: "post (\<lambda>(e1, m, r). kept e e1 \<and> (\<forall>g. r = Inr g \<longrightarrow> G e1 g))
      (op_gasCost oper gas_table V e (fr_contract fr) (fr_stack fr) (fr_mem fr) sz)"
    and exec: "\<And>e1 g m. kept e e1 \<Longrightarrow> G e1 g \<Longrightarrow> g \<le> c_Gas (fr_contract fr) \<Longrightarrow>
      post (executed oper e1 (fr_contract fr))
        (op_execute oper V K e1 (charged fr g m))"
  shows "post (step_ok e (fr_contract fr)) (pay_and_execute V K oper sz e fr)"
  unfolding pay_and_execute_def
proof (rule post_obind_I[OF gas], clarify)
  fix e1 m r
  assume k: "kept e e1" and G: "\<forall>g. r = Inr g \<longrightarrow> G e1 g"
  show "post (step_ok e (fr_contract fr)) (case r of Inl err \<Rightarrow> fail e1 fr ErrOutOfGas
     | Inr cost \<Rightarrow> (case UseGas (fr_contract fr) cost of (c1, ok) \<Rightarrow>
         if \<not> ok then fail e1 fr ErrOutOfGas
         else let mem2 = (if sz > 0 then mem_Resize m sz else m)
              in obind (op_execute oper V K e1 (fr\<lparr>fr_contract := c1, fr_mem := mem2\<rparr>)) (after_execute oper)))"
  proof (cases "\<exists>g. r = Inr g \<and> g \<le> c_Gas (fr_contract fr)")
    case True
    then obtain g where g: "r = Inr g" "g \<le> c_Gas (fr_contract fr)" by blast
    show ?thesis
      using g G k by (auto simp: UseGas_def Let_def charged_def[symmetric] intro!: post_obind_I[OF exec] step_ok_after_execute)
  next
    case False
    then show ?thesis
      using k by (auto simp: UseGas_def fail_def step_ok_def split: sum.split)
  qed
qed

lemma unat_minus_less: "g \<le> x \<Longrightarrow> 0 < g \<Longrightarrow> x - g < x" for g x :: u64
  by (simp add: word_less_nat_alt word_le_nat_alt unat_sub)

lemma pays_quiet:
  assumes "\<And>e fr. typed e fr \<Longrightarrow> post (quiet e fr) (op_execute oper V K e fr)"
    and "\<And>e c st m sz. post (costs (\<lambda>g. op_halts oper \<or> op_reverts oper \<or> 0 < g) e) (op_gasCost oper gas_table V e c st m sz)"
  shows "pays K oper"
  unfolding pays_def
proof (intro allI impI, rule step_ok_pay_and_execute[where G = "\<lambda>e g. op_halts oper \<or> op_reverts oper \<or> 0 < g"])
  fix e :: "'w evm" and fr :: frame and sz
  show "post (\<lambda>(e1, m, r). kept e e1 \<and> (\<forall>g. r = Inr g \<longrightarrow> op_halts oper \<or> op_reverts oper \<or> 0 < g))
      (op_gasCost oper gas_table V e (fr_contract fr) (fr_stack fr) (fr_mem fr) sz)"
    by (rule post_mono[OF assms(2)]) (auto simp: costs_def split: sum.splits)
  fix e1 :: "'w evm" and g m
  assume t: "typed e fr" and k: "kept e e1" and "op_halts oper \<or> op_reverts oper \<or> 0 < g" and "g \<le> c_Gas (fr_contract fr)"
  then show "post (executed oper e1 (fr_contract fr))
        (op_execute oper V K e1 (charged fr g m))"
    by (intro post_mono[OF assms(1)[OF typed_charged[OF t k]]]) (auto simp: quiet_def executed_def charged_def unat_minus_less word_sub_le)
qed

lemma spends_step:
  assumes "post (spends e1 (c\<lparr>c_Gas := g\<rparr>) (unat (c_Gas c))) r"
  shows "post (executed oper e1 c) r"
  by (rule post_mono[OF assms]) (auto simp: spends_def executed_def word_less_nat_alt word_le_nat_alt)

lemma pays_call:
  assumes "pays_for_call K k (op_execute oper)"
    and "\<And>e c st m sz. post (call_costs (k st) e) (op_gasCost oper gas_table V e c st m sz)"
  shows "pays K oper"
  unfolding pays_def
proof (intro allI impI, rule step_ok_pay_and_execute)
  fix e :: "'w evm" and fr :: frame and sz
  assume K: "calls_bounded (unat (c_Gas (fr_contract fr))) K"
  show "post (\<lambda>(e1, m, r). kept e e1 \<and> (\<forall>g. r = Inr g \<longrightarrow> unat (evm_callGasTemp e1) + k (fr_stack fr) < unat g))
      (op_gasCost oper gas_table V e (fr_contract fr) (fr_stack fr) (fr_mem fr) sz)"
    by (rule post_mono[OF assms(2)]) (auto simp: call_costs_def split: sum.splits)
  fix e1 :: "'w evm" and g m
  assume t: "typed e fr" and k: "kept e e1" and "unat (evm_callGasTemp e1) + k (fr_stack fr) < unat g" and "g \<le> c_Gas (fr_contract fr)"
  then have "unat (c_Gas (fr_contract fr) - g) + unat (evm_callGasTemp e1) + k (fr_stack fr) < unat (c_Gas (fr_contract fr))"
    by (simp add: unat_sub word_le_nat_alt)
  with assms(1)[unfolded pays_for_call_def, rule_format, OF typed_charged[OF t k] K, of g m]
  show "post (executed oper e1 (fr_contract fr))
    (op_execute oper V K e1 (charged fr g m))"
    by (intro spends_step) (simp add: charged_def)
qed

lemma pays_create:
  assumes "\<And>e fr b. typed e fr \<Longrightarrow> calls_bounded b K \<Longrightarrow> unat (c_Gas (fr_contract fr)) < b \<Longrightarrow> post (spends e (fr_contract fr) b) (op_execute oper V K e fr)"
    and "\<And>e c st m sz. post (costs (\<lambda>g. 0 < g) e) (op_gasCost oper gas_table V e c st m sz)"
  shows "pays K oper"
  unfolding pays_def
proof (intro allI impI, rule step_ok_pay_and_execute)
  fix e :: "'w evm" and fr :: frame and sz
  assume K: "calls_bounded (unat (c_Gas (fr_contract fr))) K"
  show "post (\<lambda>(e1, m, r). kept e e1 \<and> (\<forall>g. r = Inr g \<longrightarrow> 0 < g))
      (op_gasCost oper gas_table V e (fr_contract fr) (fr_stack fr) (fr_mem fr) sz)"
    by (rule post_mono[OF assms(2)]) (auto simp: costs_def split: sum.splits)
  fix e1 :: "'w evm" and g :: u64 and m
  assume t: "typed e fr" and k: "kept e e1" and "0 < g" and "g \<le> c_Gas (fr_contract fr)"
  then have "unat (c_Gas (fr_contract fr) - g) < unat (c_Gas (fr_contract fr))"
    by (simp add: unat_sub word_le_nat_alt word_less_nat_alt)
  with assms(1)[OF typed_charged[OF t k] K, of g m]
  show "post (executed oper e1 (fr_contract fr))
    (op_execute oper V K e1 (charged fr g m))"
    by (intro spends_step) (simp add: charged_def)
qed

subsection \<open>Every instruction pays\<close>

abbreviation all_pay :: "'w calls \<Rightarrow> (byte \<times> 'w operation) list \<Rightarrow> bool" where
  "all_pay K t \<equiv> list_all (\<lambda>(b, oper). pays K oper) t"

lemmas quiet_ops = quiet_stack_op pure_ops quiet_environment quiet_machine quiet_suicide
lemmas pos_gas = costs_const pos_copy_gas pos_memory_gas costs_memory_gas pos_log_gas pos_table_gas pos_exp_gas pos_sstore_gas
  costs_suicide_gas config_GasTable_pos

lemma groups_pay:
  "all_pay K frontier_arithmetic" "all_pay K frontier_comparison" "all_pay K frontier_environment" "all_pay K frontier_block"
  "all_pay K frontier_storage" "all_pay K frontier_push" "all_pay K frontier_dup" "all_pay K frontier_swap" "all_pay K frontier_log"
  unfolding frontier_arithmetic_def frontier_comparison_def frontier_environment_def frontier_block_def frontier_storage_def
    frontier_push_def frontier_dup_def frontier_swap_def frontier_log_def
  by (simp_all add: list_all_iff operation_of_def pays_quiet quiet_ops pos_gas)

lemma creates_pay:
  "pays K ((operation_of opCreate gasCreate s)\<lparr>op_memorySize := ms, op_writes := w, op_returns := r\<rparr>)"
  "pays K ((operation_of opCreate2 gasCreate2 s)\<lparr>op_memorySize := ms, op_writes := w, op_returns := r\<rparr>)"
  by (rule pays_create; simp add: operation_of_def creation_pays pos_gas)+

lemma calls_pay:
  "pays K ((operation_of opCall gasCall s)\<lparr>op_memorySize := ms, op_returns := r\<rparr>)"
  "pays K ((operation_of opCallCode gasCallCode s)\<lparr>op_memorySize := ms, op_returns := r\<rparr>)"
  by (rule pays_call[where k = value_price]; simp add: operation_of_def call_pays gasCall_costs gasCallCode_costs)+

lemma plain_calls_pay:
  "pays K ((operation_of opDelegateCall gasDelegateCall s)\<lparr>op_memorySize := ms, op_returns := r\<rparr>)"
  "pays K ((operation_of opStaticCall gasStaticCall s)\<lparr>op_memorySize := ms, op_returns := r\<rparr>)"
  by (rule pays_call[where k = "\<lambda>st. 0"]; simp add: operation_of_def call_pays gasDelegate_costs)+

lemmas system_pays = creates_pay calls_pay plain_calls_pay

lemma frontier_pays: "all_pay K newFrontierInstructionSet"
proof -
  have "all_pay K frontier_system"
    unfolding frontier_system_def
    by (simp add: system_pays) (simp add: operation_of_def pays_quiet quiet_ops pos_gas)
  then show ?thesis
    by (simp add: newFrontierInstructionSet_def groups_pay)
qed

lemma later_pay:
  "all_pay K newHomesteadInstructionSet" "all_pay K newByzantiumInstructionSet"
  "IsConstantinople (vm_chainConfig V) (vm_block V) \<Longrightarrow> all_pay K newConstantinopleInstructionSet"
proof -
  show h: "all_pay K newHomesteadInstructionSet"
    by (simp add: newHomesteadInstructionSet_def frontier_pays system_pays)
  show b: "all_pay K newByzantiumInstructionSet"
    by (simp add: newByzantiumInstructionSet_def h system_pays) (simp add: operation_of_def pays_quiet quiet_ops pos_gas)
  show "all_pay K newConstantinopleInstructionSet" if "IsConstantinople (vm_chainConfig V) (vm_block V)"
    using that
    by (simp add: newConstantinopleInstructionSet_def b system_pays) (simp add: operation_of_def pays_quiet quiet_ops pos_gas)
qed

lemma instruction_pays: "map_of (instructionSet V) b = Some oper \<Longrightarrow> pays K oper"
  using frontier_pays later_pay
  by (fastforce simp: instructionSet_def Let_def list_all_iff dest!: map_of_SomeD split: if_splits)

lemma step_pays:
  assumes "calls_bounded (unat (c_Gas (fr_contract fr))) K" and "typed e fr"
  shows "post (step_ok e (fr_contract fr)) (interpreter_step V K e fr)"
proof -
  have fail: "post (step_ok e (fr_contract fr)) (fail e fr err)" for err
    by (simp add: fail_def step_ok_def)
  have restrict: "post (\<lambda>r. True) (enforceRestrictions V e b oper st)" for b oper st
    by (auto simp: enforceRestrictions_def intro!: post_intro)
  have mem: "post (\<lambda>r. True) (needed_memory oper st)" for oper st
    by (auto simp: needed_memory_def split: option.split prod.split intro!: post_intro)
  show ?thesis
    unfolding interpreter_step_def Let_def
    using assms instruction_pays
    by (auto simp: fail pays_def split: option.split sum.split intro!: post_obind_I[OF restrict] post_obind_I[OF mem])
qed

end

end
