(* ===== verification/Evm_Termination.thy ===== *)
theory Evm_Termination
  imports Evm_Pay
begin

text \<open>
  Gas bounds the machine: with fuel above the gas of the frame, the loop of the interpreter always
  has a result, nested calls and creations included, and no call returns more gas than it got.
\<close>

context vm_rel
begin

definition ran :: "'w evm \<Rightarrow> u64 \<Rightarrow> 'w evm \<times> Contract \<times> bytes \<times> vm_error option \<Rightarrow> bool" where
  "ran e g r = (case r of (e', c', ret, err) \<Rightarrow> kept e e' \<and> c_Gas c' \<le> g)"

definition loop_bounded :: "nat \<Rightarrow> 'w loop \<Rightarrow> bool" where
  "loop_bounded n loop \<longleftrightarrow> (\<forall>e fr. typed e fr \<longrightarrow> unat (c_Gas (fr_contract fr)) < n \<longrightarrow> post (ran e (c_Gas (fr_contract fr))) (loop e fr))"

lemma Run_bounded:
  assumes "loop_bounded n loop" and "unat (c_Gas c) < n" and "good (evm_StateDB e)" and "num_ok (c_value c)"
  shows "post (ran e (c_Gas c)) (interpreter_Run loop e c input ro)"
proof (cases "c_Code c = []")
  case True
  then show ?thesis
    by (auto simp: interpreter_Run_def Let_def ran_def kept_def R_refl)
next
  case False
  let ?e = "e\<lparr>evm_depth := evm_depth e + 1, in_readOnly := in_readOnly e \<or> ro, in_returnData := []\<rparr>"
  have "post (ran ?e (c_Gas c)) (loop ?e \<lparr>fr_pc = 0, fr_contract = c\<lparr>c_Input := input\<rparr>, fr_mem = NewMemory, fr_stack = []\<rparr>)"
    using assms(1)[unfolded loop_bounded_def, rule_format,
        of ?e "\<lparr>fr_pc = 0, fr_contract = c\<lparr>c_Input := input\<rparr>, fr_mem = NewMemory, fr_stack = []\<rparr>"] assms(2-4)
    by (simp add: typed_def)
  then show ?thesis
    unfolding interpreter_Run_def Let_def using False
    by (auto simp: ran_def kept_def intro!: post_obind_I)
qed

lemma UseGas_le: "c_Gas (fst (UseGas c g)) \<le> c_Gas c"
  by (simp add: UseGas_def word_sub_le not_less)

lemma run_bounded:
  assumes "loop_bounded n loop" and "unat (c_Gas c) < n" and "good (evm_StateDB e)" and "num_ok (c_value c)"
  shows "post (ran e (c_Gas c)) (evm_run V loop e c input ro)"
proof -
  have "ran e (c_Gas c) (e, RunPrecompiledContract p input c)" for p
    using UseGas_le[of c "RequiredGas p input"]
    by (auto simp: ran_def RunPrecompiledContract_def split: prod.splits)
  then show ?thesis
    unfolding evm_run_def using Run_bounded[OF assms] by (auto split: option.split)
qed

text \<open>A machine \<open>e1\<close> that has moved on from a snapshot of \<open>e\<close> may go back to it.\<close>

definition since_snapshot :: "'w evm \<Rightarrow> nat \<Rightarrow> 'w evm \<Rightarrow> bool" where
  "since_snapshot e s e1 \<longleftrightarrow> (\<exists>e0. kept e e0 \<and> s = snd (vs_Snapshot (vm_db V) (evm_StateDB e0)) \<and>
     kept (fst (read_state (vs_Snapshot (vm_db V)) e0)) e1)"

lemma since_snapshot_start: "kept e e0 \<Longrightarrow> since_snapshot e (snd (read_state (vs_Snapshot (vm_db V)) e0)) (fst (read_state (vs_Snapshot (vm_db V)) e0))"
  by (auto simp: since_snapshot_def read_state_def case_prod_unfold Let_def intro!: exI[of _ e0] kept_refl)

lemma since_snapshot_trans: "since_snapshot e s e1 \<Longrightarrow> kept e1 e2 \<Longrightarrow> since_snapshot e s e2"
  by (auto simp: since_snapshot_def intro: kept_trans)

lemma since_snapshot_kept: "since_snapshot e s e1 \<Longrightarrow> kept e e1"
  unfolding since_snapshot_def by (blast intro: kept_trans kept_read_state kept_refl R_Snapshot)

lemma revert_kept: "since_snapshot e s e1 \<Longrightarrow> post (kept e) (revert_to V s e1)"
  unfolding revert_to_def since_snapshot_def
  by (auto simp: kept_def read_state_def case_prod_unfold Let_def intro!: post_of_opt elim: R_trans[OF _ R_Revert])

lemma close_call_bounded:
  assumes "since_snapshot e s e1" and "post (ran e1 g) r"
  shows "post (returns_gas e g) (close_call V s r)"
  unfolding close_call_def
proof (rule post_obind_I[OF assms(2)], clarify)
  fix e2 c ret err
  assume r: "ran e1 g (e2, c, ret, err)"
  then have s: "since_snapshot e s e2"
    using assms(1) by (auto simp: ran_def intro: since_snapshot_trans)
  show "post (returns_gas e g) (case err of None \<Rightarrow> Value (e2, ret, c_Gas c, None)
     | Some er \<Rightarrow> obind (revert_to V s e2) (\<lambda>evm1.
         let c = if er \<noteq> errExecutionReverted then fst (UseGas c (c_Gas c)) else c in Value (evm1, ret, c_Gas c, Some er)))"
    using r since_snapshot_kept[OF s] UseGas_le[of c "c_Gas c"]
    by (auto simp: returns_gas_def ran_def Let_def intro!: post_obind_I[OF revert_kept[OF s]] intro: order_trans split: option.split)
qed

lemma load_code_kept: "kept e (fst (load_code V a c e))" "c_Gas (snd (load_code V a c e)) = c_Gas c"
  "c_value (snd (load_code V a c e)) = c_value c"
  by (auto simp: load_code_def Let_def case_prod_unfold SetCallCode_def intro!: kept_intros)

lemma share_jumpdests_kept [simp]: "kept e (share_jumpdests c e1) = kept e e1"
  by (simp add: share_jumpdests_def split: ContractRef.split)

lemma loaded_call_bounded:
  assumes "loop_bounded n loop" and "unat g < n" and "since_snapshot e s e1" and "c_Gas c = g" and "kept e1 e2"
    and "\<And>w. R w (f w)" and "good (evm_StateDB e)" and "num_ok (c_value c)"
  shows "post (returns_gas e g) (close_call V s (evm_run V loop (on_state f (fst (load_code V a c e2))) (snd (load_code V a c e2)) input ro))"
proof (rule close_call_bounded)
  show "since_snapshot e s (on_state f (fst (load_code V a c e2)))"
    using assms(3,5,6) load_code_kept(1) by (blast intro: since_snapshot_trans kept_trans kept_on_state)
  then have "good (evm_StateDB (on_state f (fst (load_code V a c e2))))"
    using assms(7) since_snapshot_kept kept_good by blast
  then show "post (ran (on_state f (fst (load_code V a c e2))) g) (evm_run V loop (on_state f (fst (load_code V a c e2))) (snd (load_code V a c e2)) input ro)"
    using run_bounded[OF assms(1), of "snd (load_code V a c e2)"] assms(2,4,8) by (simp add: load_code_kept)
qed

lemma on_state_id: "on_state (\<lambda>w. w) e = e"
  by (simp add: on_state_def)

lemmas loaded_call_bounded_plain = loaded_call_bounded[where f = "\<lambda>w. w", unfolded on_state_id, OF _ _ _ _ _ R_refl]

lemma NewContract_gas [simp]: "c_Gas (NewContract caller a v g) = g" "c_value (NewContract caller a v g) = v"
  by (simp_all add: NewContract_def split: ContractRef.split)

lemma AsDelegate_gas: "AsDelegate caller c = Some c' \<Longrightarrow> c_Gas c' = c_Gas c \<and> (ref_ok caller \<longrightarrow> num_ok (c_value c'))"
  by (cases "(caller, c)" rule: AsDelegate.cases) (auto simp: ref_ok_def)

lemma returns_at_once: "kept e e1 \<Longrightarrow> returns_gas e g (e1, ret, g, err)"
  by (simp add: returns_gas_def)

text \<open>The funds that were seen are still there when the value moves.\<close>

definition pays_in :: "ContractRef \<Rightarrow> bigint \<Rightarrow> 'w evm \<Rightarrow> bool" where
  "pays_in caller v e \<longleftrightarrow> funded (ref_Address caller) v (evm_StateDB e)"

lemma pays_in_start:
  "good (evm_StateDB e) \<Longrightarrow> snd (read_state (ctx_CanTransfer V (ref_Address caller) v) e) \<Longrightarrow> pays_in caller v (fst (read_state (ctx_CanTransfer V (ref_Address caller) v) e))"
  by (simp add: pays_in_def read_state_def case_prod_unfold Let_def funded_CanTransfer)

lemma pays_in_kept:
  assumes "pays_in caller v e"
  shows "pays_in caller v (fst (read_state (vs_Snapshot (vm_db V)) e))" "pays_in caller v (fst (read_state (vs_Exist (vm_db V) a) e))"
    "pays_in caller v (on_state (vs_CreateAccount (vm_db V) a) e)" "pays_in caller v (fst (read_state (vs_GetNonce (vm_db V) a) e))"
    "pays_in caller v (on_state (vs_SetNonce (vm_db V) a n) e)" "pays_in caller v (fst (read_state (vs_GetCodeHash (vm_db V) a) e))"
  using assms funded_kept by (auto simp: pays_in_def read_state_def on_state_def case_prod_unfold Let_def)

lemma kept_transfer:
  assumes "kept e e1" and "pays_in caller v e1" and "num_ok v"
  shows "kept e (on_state (ctx_Transfer V (ref_Address caller) a v) e1)"
  using assms R_Transfer by (auto simp: kept_def pays_in_def on_state_def intro: R_trans)

lemmas transfer_intros = kept_transfer pays_in_kept pays_in_start

lemma Call_bounded:
  assumes "loop_bounded n loop" and "unat g < n" and "good (evm_StateDB e)" and "num_ok v"
  shows "post (returns_gas e g) (evm_Call V loop e c a i g v)"
  unfolding evm_Call_def Let_def case_prod_unfold
  using assms(3,4)
  by (auto intro!: returns_at_once loaded_call_bounded_plain[OF assms(1,2)] since_snapshot_start transfer_intros kept_intros)

lemma CallCode_bounded:
  assumes "loop_bounded n loop" and "unat g < n" and "good (evm_StateDB e)" and "num_ok v"
  shows "post (returns_gas e g) (evm_CallCode V loop e c a i g v)"
  unfolding evm_CallCode_def Let_def case_prod_unfold
  using assms(3,4)
  by (auto intro!: returns_at_once kept_intros loaded_call_bounded_plain[OF assms(1,2)] since_snapshot_start)

lemma DelegateCall_bounded:
  assumes "loop_bounded n loop" and "unat g < n" and "good (evm_StateDB e)" and "ref_ok c"
  shows "post (returns_gas e g) (evm_DelegateCall V loop e c a i g)"
  unfolding evm_DelegateCall_def Let_def case_prod_unfold
  using assms(3,4)
  by (auto intro!: post_of_opt returns_at_once kept_intros loaded_call_bounded_plain[OF assms(1,2)] since_snapshot_start dest!: AsDelegate_gas)

lemma StaticCall_bounded:
  assumes "loop_bounded n loop" and "unat g < n" and "good (evm_StateDB e)"
  shows "post (returns_gas e g) (evm_StaticCall V loop e c a i g)"
  unfolding evm_StaticCall_def Let_def case_prod_unfold
  using assms(3)
  by (auto intro!: returns_at_once kept_intros loaded_call_bounded[OF assms(1,2)] since_snapshot_start R_touch)

lemma store_code_kept:
  assumes "store_code V a e c ret = (e1, c1, err)"
  shows "kept e e1 \<and> c_Gas c1 \<le> c_Gas c"
proof -
  obtain c2 ok where u: "UseGas c (of_nat (length ret) * CreateDataGas) = (c2, ok)" by force
  then have "c_Gas c2 \<le> c_Gas c" using UseGas_le[of c "of_nat (length ret) * CreateDataGas"] by simp
  with u assms show ?thesis by (auto simp: store_code_def kept_on_state R_ops split: if_splits)
qed

lemma close_create_bounded:
  assumes "since_snapshot e s e1" and "post (ran e1 g) r"
  shows "post (creates_gas e g) (close_create V s a r)"
  unfolding close_create_def
proof (rule post_obind_I[OF assms(2)], clarify)
  fix e2 c and ret :: bytes and err
  let ?max = "IsEIP158 (vm_chainConfig V) (vm_block V) \<and> length ret > MaxCodeSize"
  assume r: "ran e1 g (e2, c, ret, err)"
  obtain e3 c3 err3 where p: "(if err = None \<and> \<not> ?max then store_code V a e2 c ret else (e2, c, err)) = (e3, c3, err3)"
    by (metis prod_cases3)
  then have k: "kept e2 e3 \<and> c_Gas c3 \<le> c_Gas c"
    using store_code_kept by (auto split: if_splits)
  then have s: "since_snapshot e s e3" and g: "c_Gas c3 \<le> g"
    using assms(1) r by (auto simp: ran_def intro: since_snapshot_trans)
  then show "post (creates_gas e g) (let maxCodeSizeExceeded = ?max;
       (evm1, c1, err1) = if err = None \<and> \<not> maxCodeSizeExceeded then store_code V a e2 c ret else (e2, c, err);
       err2 = if maxCodeSizeExceeded \<and> err1 = None then Some errMaxCodeSizeExceeded else err1
     in if maxCodeSizeExceeded \<or> err1 \<noteq> None \<and>
            (IsHomestead (vm_chainConfig V) (vm_block V) \<or> err1 \<noteq> Some ErrCodeStoreOutOfGas)
        then obind (revert_to V s evm1) (\<lambda>evm2.
               let c2 = if err1 \<noteq> Some errExecutionReverted then fst (UseGas c1 (c_Gas c1)) else c1
               in Value (evm2, ret, a, c_Gas c2, err2))
        else Value (evm1, ret, a, c_Gas c1, err2))"
    unfolding Let_def p prod.case
    using since_snapshot_kept[OF s] g order_trans[OF UseGas_le[of c3 "c_Gas c3"] g]
    by (auto simp: creates_gas_def intro!: post_obind_I[OF revert_kept[OF s]])
qed

lemma creates_at_once: "kept e e1 \<Longrightarrow> g' \<le> g \<Longrightarrow> creates_gas e g (e1, ret, a, g', err)"
  by (simp add: creates_gas_def)

lemma create_run_bounded:
  assumes "loop_bounded n loop" and "unat g < n" and "since_snapshot e s e1" and "c_Gas c = g"
    and "good (evm_StateDB e)" and "num_ok (c_value c)"
  shows "post (creates_gas e g) (close_create V s a (evm_run V loop e1 c input ro))"
  using close_create_bounded[OF assms(3)] run_bounded[OF assms(1)] assms(2,4,6)
    kept_good[OF since_snapshot_kept[OF assms(3)] assms(5)] by blast

lemma evm_create_bounded:
  assumes "loop_bounded n loop" and "unat g < n" and "kept e e0" and "good (evm_StateDB e)" and "num_ok v"
  shows "post (creates_gas e g) (evm_create V loop e0 c code h g v a)"
  unfolding evm_create_def Let_def case_prod_unfold
  using assms(4,5) kept_good[OF assms(3,4)] assms(3)
  by (auto intro!: creates_at_once transfer_intros kept_intros create_run_bounded[OF assms(1,2)] since_snapshot_trans[OF since_snapshot_start])

lemma Creates_bounded:
  assumes "loop_bounded n loop" and "unat g < n" and "good (evm_StateDB e)" and "num_ok v"
  shows "post (creates_gas e g) (evm_Create V loop e c code g v)" "post (creates_gas e g) (evm_Create2 V loop e c code g v s)"
  unfolding evm_Create_def evm_Create2_def Let_def case_prod_unfold
  by (intro evm_create_bounded[OF assms(1,2) _ assms(3,4)] kept_intros)+

lemma calls_of_bounded:
  assumes "loop_bounded n loop"
  shows "calls_bounded n (calls_of V loop)"
  using assms
  by (simp add: calls_bounded_def calls_of_def Call_bounded CallCode_bounded DelegateCall_bounded StaticCall_bounded Creates_bounded)

subsection \<open>The loop\<close>

lemma loop_bounded_mono: "loop_bounded n loop \<Longrightarrow> m \<le> n \<Longrightarrow> loop_bounded m loop"
  by (simp add: loop_bounded_def)

lemma evm_loop_bounded: "loop_bounded n (evm_loop n V)"
proof (induction n)
  case 0
  then show ?case by (simp add: loop_bounded_def)
next
  case (Suc n)
  show ?case unfolding loop_bounded_def
  proof (intro allI impI)
    fix e :: "'w evm" and fr :: frame
    assume t: "typed e fr" and "unat (c_Gas (fr_contract fr)) < Suc n"
    then have le: "unat (c_Gas (fr_contract fr)) \<le> n" by simp
    let ?c = "fr_contract fr"
    have step: "post (step_ok e ?c) (interpreter_step V (calls_of V (evm_loop n V)) e fr)"
      by (rule step_pays[OF calls_of_bounded[OF loop_bounded_mono[OF Suc.IH le]] t])
    have more: "post (ran e (c_Gas ?c)) (evm_loop n V e1 fr1)" if "step_ok e ?c (Continue e1 fr1)" for e1 fr1
    proof -
      from that have k: "kept e e1" and less: "c_Gas (fr_contract fr1) < c_Gas ?c" by (auto simp: step_ok_def)
      have "typed e1 fr1"
        using that t kept_good[OF k] by (auto simp: step_ok_def typed_def same_contract_def)
      moreover have "unat (c_Gas (fr_contract fr1)) < n"
        using less le by (simp add: word_less_nat_alt)
      ultimately have "post (ran e1 (c_Gas (fr_contract fr1))) (evm_loop n V e1 fr1)"
        using Suc.IH by (simp add: loop_bounded_def)
      then show ?thesis
        using k less by (auto simp: ran_def elim!: post_mono intro: kept_trans order_trans)
    qed
    show "post (ran e (c_Gas ?c)) (evm_loop (Suc n) V e fr)"
      using more by (auto simp: ran_def step_ok_def split: step_result.split intro!: post_obind_I[OF step])
  qed
qed

end

interpretation gas: vm_rel V "\<lambda>w w'. True" "\<lambda>w. True" "\<lambda>x. True" "\<lambda>a b w. True" for V :: "'w vm"
  by unfold_locales simp_all

text \<open>What the caller of the machine may rely on, whatever the state database does.\<close>

definition call_returns :: "'w evm \<Rightarrow> u64 \<Rightarrow> 'w call_result \<Rightarrow> bool" where
  "call_returns evm gas r = (case r of
     NoFuel \<Rightarrow> False
   | Panics \<Rightarrow> True
   | Value (evm1, ret, leftOverGas, err) \<Rightarrow>
       leftOverGas \<le> gas \<and> evm_depth evm1 = evm_depth evm \<and> in_readOnly evm1 = in_readOnly evm)"

lemma call_returns_post: "post (gas.returns_gas evm g) r \<Longrightarrow> call_returns evm g r"
  by (cases r) (auto simp: call_returns_def gas.returns_gas_def gas.kept_def)

definition create_returns :: "'w evm \<Rightarrow> u64 \<Rightarrow> 'w create_result \<Rightarrow> bool" where
  "create_returns evm gas r = (case r of
     NoFuel \<Rightarrow> False
   | Panics \<Rightarrow> True
   | Value (evm1, ret, addr, leftOverGas, err) \<Rightarrow>
       leftOverGas \<le> gas \<and> evm_depth evm1 = evm_depth evm \<and> in_readOnly evm1 = in_readOnly evm)"

lemma create_returns_post: "post (gas.creates_gas evm g) r \<Longrightarrow> create_returns evm g r"
  by (cases r) (auto simp: create_returns_def gas.creates_gas_def gas.kept_def)

text \<open>
  C4: Gas bounds every call: with fuel above the gas of the call, a message call, a call of foreign
  code, a delegate call, a static call and both kinds of creation all end, hand back at most the gas they got and leave the
  call depth and the read-only mode as they were, for every code, every fork and every state database.
\<close>

theorem evm_calls_terminate:
  assumes "unat gas < fuel"
  shows "call_returns evm gas (evm_Call V (evm_loop fuel V) evm caller addr input gas val) \<and>
    call_returns evm gas (evm_CallCode V (evm_loop fuel V) evm caller addr input gas val) \<and>
    call_returns evm gas (evm_DelegateCall V (evm_loop fuel V) evm caller addr input gas) \<and>
    call_returns evm gas (evm_StaticCall V (evm_loop fuel V) evm caller addr input gas) \<and>
    create_returns evm gas (evm_Create V (evm_loop fuel V) evm caller code gas val) \<and>
    create_returns evm gas (evm_Create2 V (evm_loop fuel V) evm caller code gas val salt)"
proof -
  have "gas.loop_bounded fuel (evm_loop fuel V)" by (rule gas.evm_loop_bounded)
  then show ?thesis
    using assms
    by (intro conjI call_returns_post gas.Call_bounded gas.CallCode_bounded gas.DelegateCall_bounded gas.StaticCall_bounded
        create_returns_post gas.Creates_bounded) (simp_all add: gas.ref_ok_def split: ContractRef.split)
qed

end
