(* ===== verification/Evm_State.thy ===== *)
theory Evm_State
  imports Evm_Termination State_Revert
begin

text \<open>
  The machine over the journaled state database: the database is a state of the machine, and a call
  or creation that fails leaves nothing behind.
\<close>

subsection \<open>Failing calls over a state with snapshots\<close>

text \<open>
  The state of a machine with a view \<open>abs\<close> that snapshots restore; a read of a balance does not show.
\<close>

locale vm_revert = vm_rel V R good num_ok funded
  for V :: "'w vm" and R :: "'w \<Rightarrow> 'w \<Rightarrow> bool" and good :: "'w \<Rightarrow> bool" and num_ok funded +
  fixes abs :: "'w \<Rightarrow> 'v"
  assumes abs_CanTransfer: "good w \<Longrightarrow> abs (fst (ctx_CanTransfer V a b w)) = abs w"
    and abs_GetNonce: "good w \<Longrightarrow> abs (fst (vs_GetNonce (vm_db V) a w)) = abs w"
    and abs_GetCodeHash: "good w \<Longrightarrow> abs (fst (vs_GetCodeHash (vm_db V) a w)) = abs w"
    and restores: "good w \<Longrightarrow> R (fst (vs_Snapshot (vm_db V) w)) w' \<Longrightarrow>
      \<exists>w''. vs_RevertToSnapshot (vm_db V) (snd (vs_Snapshot (vm_db V) w)) w' = Some w'' \<and> abs w'' = abs w"
begin

definition undone :: "'v \<Rightarrow> 'w evm \<times> bytes \<times> u64 \<times> vm_error option \<Rightarrow> bool" where
  "undone v r = (case r of (e', ret, g, err) \<Rightarrow> err \<noteq> None \<longrightarrow> abs (evm_StateDB e') = v \<and>
     (g = 0 \<or> err \<in> Some ` {errExecutionReverted, ErrDepth, ErrInsufficientBalance}))"

lemma UseGas_all [simp]: "c_Gas (fst (UseGas c (c_Gas c))) = 0"
  by (simp add: UseGas_def)

abbreviation snap :: "'w evm \<Rightarrow> 'w evm \<times> nat" where
  "snap e \<equiv> read_state (vs_Snapshot (vm_db V)) e"

lemma revert_to_restores:
  assumes "good (evm_StateDB e0)" and "kept (fst (snap e0)) e1"
  shows "post (\<lambda>e2. abs (evm_StateDB e2) = abs (evm_StateDB e0)) (revert_to V (snd (snap e0)) e1)"
  using restores[OF assms(1), of "evm_StateDB e1"] assms(2)
  by (auto simp: revert_to_def kept_def read_state_def case_prod_unfold Let_def)

lemma close_call_undone:
  assumes "good (evm_StateDB e0)" and "kept (fst (snap e0)) e1" and "post (ran e1 g) r"
  shows "post (undone (abs (evm_StateDB e0))) (close_call V (snd (snap e0)) r)"
  unfolding close_call_def
proof (rule post_obind_I[OF assms(3)], clarify)
  fix e2 c ret err
  assume "ran e1 g (e2, c, ret, err)"
  then have "kept (fst (snap e0)) e2" using assms(2) by (auto simp: ran_def intro: kept_trans)
  from revert_to_restores[OF assms(1) this]
  show "post (undone (abs (evm_StateDB e0))) (case err of None \<Rightarrow> Value (e2, ret, c_Gas c, None)
     | Some er \<Rightarrow> obind (revert_to V (snd (snap e0)) e2) (\<lambda>evm1.
         let c = if er \<noteq> errExecutionReverted then fst (UseGas c (c_Gas c)) else c in Value (evm1, ret, c_Gas c, Some er)))"
    by (auto simp: undone_def Let_def split: option.split elim!: post_obind_I)
qed

lemma loaded_call_undone:
  assumes "loop_bounded n loop" and "unat (c_Gas c) < n" and "good (evm_StateDB e0)" and "kept (fst (snap e0)) e2"
    and "\<And>w. R w (f w)" and "num_ok (c_value c)"
  shows "post (undone (abs (evm_StateDB e0))) (close_call V (snd (snap e0))
    (evm_run V loop (on_state f (fst (load_code V a c e2))) (snd (load_code V a c e2)) input ro))"
proof (rule close_call_undone[OF assms(3)])
  show k: "kept (fst (snap e0)) (on_state f (fst (load_code V a c e2)))"
    using assms(4,5) load_code_kept(1) by (blast intro: kept_trans kept_on_state)
  have k2: "kept e0 (on_state f (fst (load_code V a c e2)))"
    by (rule kept_trans[OF kept_read_state[OF kept_refl R_Snapshot] k])
  show "post (ran (on_state f (fst (load_code V a c e2))) (c_Gas c)) (evm_run V loop (on_state f (fst (load_code V a c e2))) (snd (load_code V a c e2)) input ro)"
    using run_bounded[OF assms(1), of "snd (load_code V a c e2)"] assms(2,6) kept_good[OF k2 assms(3)] by (simp add: load_code_kept)
qed

lemmas loaded_call_undone_plain = loaded_call_undone[where f = "\<lambda>w. w", unfolded on_state_id, OF _ _ _ _ R_refl]

lemma good_read: "good (evm_StateDB e) \<Longrightarrow> (\<And>w. R w (fst (f w))) \<Longrightarrow> good (evm_StateDB (fst (read_state f e)))"
  by (auto simp: read_state_def case_prod_unfold Let_def intro: R_good)

lemma abs_can [simp]:
  "good (evm_StateDB e) \<Longrightarrow> abs (evm_StateDB (fst (read_state (ctx_CanTransfer V a b) e))) = abs (evm_StateDB e)"
  by (simp add: read_state_def case_prod_unfold Let_def abs_CanTransfer)

lemma undone_cong: "post (undone (abs (evm_StateDB (fst (read_state (ctx_CanTransfer V a b) e))))) r \<Longrightarrow>
    good (evm_StateDB e) \<Longrightarrow> post (undone (abs (evm_StateDB e))) r"
  by simp

lemma calls_undone:
  assumes "loop_bounded n loop" and "unat g < n" and "good (evm_StateDB e)" and "num_ok v"
  shows "post (undone (abs (evm_StateDB e))) (evm_Call V loop e caller a i g v)"
    and "post (undone (abs (evm_StateDB e))) (evm_CallCode V loop e caller a i g v)"
proof -
  have "good (evm_StateDB (fst (read_state (ctx_CanTransfer V (ref_Address caller) v) e)))"
    using assms(3) R_CanTransfer by (rule good_read)
  note call = loaded_call_undone_plain[OF assms(1) _ this]
  show "post (undone (abs (evm_StateDB e))) (evm_Call V loop e caller a i g v)"
    "post (undone (abs (evm_StateDB e))) (evm_CallCode V loop e caller a i g v)"
    unfolding evm_Call_def evm_CallCode_def Let_def case_prod_unfold
    using assms(2-4)
    by (auto simp: undone_def intro!: undone_cong[OF call] transfer_intros kept_intros)
qed

lemma delegate_calls_undone:
  assumes "loop_bounded n loop" and "unat g < n" and "good (evm_StateDB e)" and "ref_ok caller"
  shows "post (undone (abs (evm_StateDB e))) (evm_DelegateCall V loop e caller a i g)"
    and "post (undone (abs (evm_StateDB e))) (evm_StaticCall V loop e caller a i g)"
  unfolding evm_DelegateCall_def evm_StaticCall_def Let_def case_prod_unfold
  using assms(2,4)
  by (auto simp: undone_def intro!: post_of_opt loaded_call_undone_plain[OF assms(1) _ assms(3)]
      loaded_call_undone[OF assms(1) _ assms(3)] kept_intros R_touch dest!: AsDelegate_gas)

subsubsection \<open>Failing creations\<close>

text \<open>A creation that gets to its snapshot has used up a nonce of its caller.\<close>

definition bumped :: "ContractRef \<Rightarrow> bigint \<Rightarrow> 'w \<Rightarrow> 'w" where
  "bumped caller v w =
     (let w1 = fst (ctx_CanTransfer V (ref_Address caller) v w); (w2, n) = vs_GetNonce (vm_db V) (ref_Address caller) w1
      in vs_SetNonce (vm_db V) (ref_Address caller) (n + 1) w2)"

definition uncreated :: "'v set \<Rightarrow> 'w evm \<times> bytes \<times> address \<times> u64 \<times> vm_error option \<Rightarrow> bool" where
  "uncreated vs r = (case r of (e', ret, a, g, err) \<Rightarrow>
     err \<noteq> None \<and> (IsHomestead (vm_chainConfig V) (vm_block V) \<or> err \<noteq> Some ErrCodeStoreOutOfGas) \<longrightarrow>
       abs (evm_StateDB e') \<in> vs)"

lemma close_create_undone:
  assumes "good (evm_StateDB e0)" and "kept (fst (snap e0)) e1" and "post (ran e1 g) r" and "abs (evm_StateDB e0) \<in> vs"
  shows "post (uncreated vs) (close_create V (snd (snap e0)) a r)"
  unfolding close_create_def
proof (rule post_obind_I[OF assms(3)], clarify)
  fix e2 c and ret :: bytes and err
  let ?max = "IsEIP158 (vm_chainConfig V) (vm_block V) \<and> length ret > MaxCodeSize"
  assume r: "ran e1 g (e2, c, ret, err)"
  obtain e3 c3 err3 where p: "(if err = None \<and> \<not> ?max then store_code V a e2 c ret else (e2, c, err)) = (e3, c3, err3)"
    by (metis prod_cases3)
  then have "kept e2 e3"
    using store_code_kept by (auto split: if_splits)
  then have "kept (fst (snap e0)) e3" using r assms(2) by (auto simp: ran_def intro: kept_trans)
  from revert_to_restores[OF assms(1) this]
  show "post (uncreated vs) (let maxCodeSizeExceeded = ?max;
       (evm1, c1, err1) = if err = None \<and> \<not> maxCodeSizeExceeded then store_code V a e2 c ret else (e2, c, err);
       err2 = if maxCodeSizeExceeded \<and> err1 = None then Some errMaxCodeSizeExceeded else err1
     in if maxCodeSizeExceeded \<or> err1 \<noteq> None \<and>
            (IsHomestead (vm_chainConfig V) (vm_block V) \<or> err1 \<noteq> Some ErrCodeStoreOutOfGas)
        then obind (revert_to V (snd (snap e0)) evm1) (\<lambda>evm2.
               let c2 = if err1 \<noteq> Some errExecutionReverted then fst (UseGas c1 (c_Gas c1)) else c1
               in Value (evm2, ret, a, c_Gas c2, err2))
        else Value (evm1, ret, a, c_Gas c1, err2))"
    unfolding Let_def p prod.case
    using assms(4) by (auto simp: uncreated_def elim!: post_obind_I)
qed

lemma evm_create_undone:
  assumes "loop_bounded n loop" and "unat g < n" and "good (evm_StateDB e)" and "num_ok v"
  shows "post (uncreated {abs (evm_StateDB e), abs (bumped caller v (evm_StateDB e))}) (evm_create V loop e caller code h g v a)"
proof -
  let ?e1 = "fst (read_state (ctx_CanTransfer V (ref_Address caller) v) e)"
  let ?e2 = "fst (read_state (vs_GetNonce (vm_db V) (ref_Address caller)) ?e1)"
  let ?n = "snd (read_state (vs_GetNonce (vm_db V) (ref_Address caller)) ?e1)"
  let ?e3 = "on_state (vs_SetNonce (vm_db V) (ref_Address caller) (?n + 1)) ?e2"
  let ?e4 = "fst (read_state (vs_GetCodeHash (vm_db V) a) ?e3)"
  let ?e5 = "fst (read_state (vs_GetNonce (vm_db V) a) ?e4)"
  have e3: "evm_StateDB ?e3 = bumped caller v (evm_StateDB e)"
    by (simp add: bumped_def read_state_def on_state_def case_prod_unfold Let_def)
  have k: "kept e ?e3" "kept e ?e4" "kept e ?e5" by (intro kept_intros)+
  then have o: "good (evm_StateDB ?e3)" "good (evm_StateDB ?e4)" "good (evm_StateDB ?e5)"
    using assms(3) kept_good by blast+
  have abs5: "abs (evm_StateDB ?e5) = abs (bumped caller v (evm_StateDB e))"
    using o unfolding e3[symmetric] by (simp add: read_state_def case_prod_unfold Let_def abs_GetNonce abs_GetCodeHash)
  have run: "post (uncreated {abs (evm_StateDB e), abs (bumped caller v (evm_StateDB e))})
      (close_create V (snd (snap ?e5)) a (evm_run V loop e6 c [] False))"
    if "kept (fst (snap ?e5)) e6" "c_Gas c = g" "num_ok (c_value c)" for e6 c
  proof -
    have "good (evm_StateDB e6)"
      using kept_good[OF that(1) good_read[OF o(3) R_Snapshot]] .
    then show ?thesis
      using close_create_undone[OF o(3) that(1) run_bounded[OF assms(1)]] that(2,3) assms(2) abs5 by simp
  qed
  show ?thesis
    unfolding evm_create_def Let_def case_prod_unfold
    using abs5 assms(3,4) by (auto simp: uncreated_def intro!: run transfer_intros kept_intros)
qed

end

subsection \<open>The state database as the state of the machine\<close>

definition sdb_ops :: "('d, 'a, 's) sdb_env \<Rightarrow> ('d, 'a, 's) StateDB vm_StateDB" where
  "sdb_ops E =
     \<lparr>vs_CreateAccount = CreateAccount E, vs_SubBalance = SubBalance E, vs_AddBalance = AddBalance E,
      vs_GetBalance = GetBalance E, vs_GetNonce = GetNonce E, vs_SetNonce = SetNonce E, vs_GetCodeHash = GetCodeHash E,
      vs_GetCode = (\<lambda>a s. case GetCode E a s of (s1, c) \<Rightarrow> (s1, case c of None \<Rightarrow> [] | Some code \<Rightarrow> code)),
      vs_SetCode = SetCode E, vs_GetCodeSize = GetCodeSize E, vs_AddRefund = AddRefund, vs_SubRefund = SubRefund,
      vs_GetRefund = GetRefund, vs_GetCommittedState = GetCommittedState E, vs_GetState = GetState E,
      vs_SetState = SetState E, vs_Suicide = Suicide E, vs_HasSuicided = HasSuicided E, vs_Exist = Exist E,
      vs_Empty = Empty E, vs_RevertToSnapshot = RevertToSnapshot E, vs_Snapshot = Snapshot, vs_AddLog = AddLog,
      vs_AddPreimage = AddPreimage\<rparr>"

text \<open>
  \<open>CanTransfer\<close> and \<open>Transfer\<close> of \<open>core/evm.go\<close> for one thread that finds both accounts free; the
  loop that waits for the accounts is the subject of \<open>Transfer_Lock\<close>.
\<close>

definition db_CanTransfer :: "'w vm_StateDB \<Rightarrow> address \<Rightarrow> bigint \<Rightarrow> 'w \<Rightarrow> 'w \<times> bool" where
  "db_CanTransfer db addr amount w = (case vs_GetBalance db addr w of (w1, b) \<Rightarrow> (w1, b \<ge> amount))"

definition db_Transfer :: "'w vm_StateDB \<Rightarrow> address \<Rightarrow> address \<Rightarrow> bigint \<Rightarrow> 'w \<Rightarrow> 'w" where
  "db_Transfer db sender recipient amount w = vs_AddBalance db recipient amount (vs_SubBalance db sender amount w)"

text \<open>The machine that \<open>NewEVMContext\<close> and \<open>NewEVM\<close> set up over a state database.\<close>

definition evm_over :: "'w vm_StateDB \<Rightarrow> 'w vm \<Rightarrow> 'w vm" where
  "evm_over db V = V\<lparr>vm_db := db, ctx_CanTransfer := db_CanTransfer db, ctx_Transfer := db_Transfer db\<rparr>"

definition sdb_inv :: "('d, 'a, 's) sdb_env \<Rightarrow> ('d, 'a, 's) StateDB \<Rightarrow> bool" where
  "sdb_inv E s \<longleftrightarrow> sdb_ok E s \<and> revs_ok s"

text \<open>A move of the state keeps the invariant and the way back to every snapshot that is open.\<close>

definition sdb_moves :: "('d, 'a, 's) sdb_env \<Rightarrow> ('d, 'a, 's) StateDB \<Rightarrow> ('d, 'a, 's) StateDB \<Rightarrow> bool" where
  "sdb_moves E s s' \<longleftrightarrow> (sdb_inv E s \<longrightarrow> sdb_inv E s') \<and> (\<forall>s0. within E s0 s \<longrightarrow> within E s0 s')"

lemma within_inv: "within E s0 s \<Longrightarrow> sdb_inv E s"
  by (simp add: within_def sdb_inv_def)

lemma undoable_inv: "sdb_inv E s \<Longrightarrow> undoable E s s' \<Longrightarrow> sdb_inv E s'"
  by (auto simp: sdb_inv_def undoable_def revs_ok_def same_base_def sorted_append)

lemma moves_undoable: "(sdb_ok E s \<Longrightarrow> undoable E s s') \<Longrightarrow> sdb_moves E s s'"
  unfolding sdb_moves_def using undoable_inv within_undoable within_inv sdb_inv_def by metis

lemma moves_trans: "sdb_moves E s1 s2 \<Longrightarrow> sdb_moves E s2 s3 \<Longrightarrow> sdb_moves E s1 s3"
  by (simp add: sdb_moves_def)

lemma moves_op: "plain_op p \<Longrightarrow> sdb_do E p s = Some s' \<Longrightarrow> sdb_moves E s s'"
  by (rule moves_undoable) (rule plain_op_undoable)

lemma moves_Snapshot: "sdb_moves E s (fst (Snapshot s))"
  by (simp add: sdb_moves_def sdb_inv_def within_Snapshot sdb_ok_Snapshot revs_ok_Snapshot)

lemma within_older: "within E s0 s \<Longrightarrow> nextRevisionId s0 < nextRevisionId s"
  by (clarsimp simp: within_def revs_ok_def sorted_wrt_append)

lemma moves_Revert:
  assumes "sdb_moves E (fst (Snapshot s)) s'" and "RevertToSnapshot E (snd (Snapshot s)) s' = Some s''"
  shows "sdb_moves E s s''"
proof -
  have i: "snd (Snapshot s) = nextRevisionId s" by (simp add: Snapshot_def Let_def)
  have "sdb_inv E s''" if "sdb_inv E s"
  proof -
    have "within E s s'" using that assms(1) within_start by (auto simp: sdb_moves_def sdb_inv_def)
    from within_back[OF this] show ?thesis using assms(2) i by (auto simp: sdb_inv_def)
  qed
  moreover have "within E s0 s''" if "within E s0 s" for s0
  proof -
    have "within E s0 s'" using that assms(1) within_Snapshot by (auto simp: sdb_moves_def)
    from within_Revert[OF this assms(2)] show ?thesis using within_older[OF that] i by simp
  qed
  ultimately show ?thesis by (simp add: sdb_moves_def)
qed

lemma GetCodeSize_undoable:
  assumes "sdb_ok E s"
  shows "undoable E s (fst (GetCodeSize E a s))"
proof -
  have abs: "sdb_abs E (sdb_setError b t) = sdb_abs E t" for b t
    using account_of_cong[of "sdb_setError b t" t E] by (simp add: sdb_setError_def sdb_abs_def GetLogs_def)
  have "sdb_ok E (sdb_setError b t)" if "sdb_ok E t" for b t
    using that objs_ok_cong[of "sdb_setError b t" t E] by (simp add: sdb_setError_def sdb_ok_def)
  then have "undoable E s (sdb_setError b (fst (getStateObject E a s)))" for b
    using undoable_getStateObject[OF assms, of a] abs
    by (auto simp: undoable_def same_base_def) (auto simp: sdb_setError_def)
  then show ?thesis
    using undoable_getStateObject[OF assms, of a]
    by (simp add: GetCodeSize_def Let_def case_prod_unfold split: option.split)
qed

lemma moves_reads:
  "sdb_moves E s (fst (GetBalance E a s))" "sdb_moves E s (fst (GetNonce E a s))" "sdb_moves E s (fst (GetCodeHash E a s))"
  "sdb_moves E s (fst (GetCode E a s))" "sdb_moves E s (fst (GetCodeSize E a s))" "sdb_moves E s (fst (GetState E a k s))"
  "sdb_moves E s (fst (GetCommittedState E a k s))" "sdb_moves E s (fst (HasSuicided E a s))" "sdb_moves E s (fst (Exist E a s))"
  "sdb_moves E s (fst (Empty E a s))"
  by (auto intro!: moves_undoable plain_reads_undoable cached_reads_undoable GetCodeSize_undoable)

lemma moves_writes:
  "sdb_moves E s (CreateAccount E a s)" "sdb_moves E s (AddBalance E a b s)" "sdb_moves E s (SubBalance E a b s)"
  "sdb_moves E s (SetNonce E a n s)" "sdb_moves E s (SetCode E a c s)" "sdb_moves E s (SetState E a k v s)"
  "sdb_moves E s (fst (Suicide E a s))" "sdb_moves E s (AddLog l s)" "sdb_moves E s (AddPreimage h bs s)"
  by (auto intro!: moves_undoable CreateAccount_undoable object_writes_undoable Suicide_undoable AddLog_undoable AddPreimage_undoable)

lemma moves_refund: "sdb_moves E s (AddRefund g s)" "SubRefund g s = Some s' \<Longrightarrow> sdb_moves E s s'"
  using moves_op[of "OpAddRefund g"] moves_op[of "OpSubRefund g"] by simp_all

lemma abs_reads:
  "sdb_abs E (fst (GetBalance E a s)) = sdb_abs E s" "sdb_abs E (fst (GetNonce E a s)) = sdb_abs E s"
  "sdb_abs E (fst (GetCodeHash E a s)) = sdb_abs E s"
  by (simp_all add: GetBalance_def GetNonce_def GetCodeHash_def case_prod_unfold Let_def)

lemma sdb_restores:
  assumes "sdb_inv E s" and "sdb_moves E (fst (Snapshot s)) s'"
  shows "\<exists>s''. RevertToSnapshot E (snd (Snapshot s)) s' = Some s'' \<and> sdb_abs E s'' = sdb_abs E s"
proof -
  have "within E s s'" using assms within_start by (auto simp: sdb_moves_def sdb_inv_def)
  from within_back[OF this] show ?thesis by (auto simp: Snapshot_def Let_def)
qed

lemma moves_refl: "sdb_moves E s s" and moves_inv: "sdb_moves E s s' \<Longrightarrow> sdb_inv E s \<Longrightarrow> sdb_inv E s'"
  by (simp_all add: sdb_moves_def)

interpretation sdb: vm_revert "evm_over (sdb_ops E) V" "sdb_moves E" "sdb_inv E" "\<lambda>v. True" "\<lambda>a b w. True" "sdb_abs E"
  for E :: "('d, 'a, 's) sdb_env" and V
  by unfold_locales
     (auto simp: evm_over_def sdb_ops_def db_CanTransfer_def db_Transfer_def case_prod_unfold abs_reads moves_refl moves_Snapshot
      intro: moves_reads moves_writes moves_refund moves_trans moves_Revert moves_inv sdb_restores
        moves_trans[OF moves_reads(1) moves_trans[OF moves_writes(2,7)]])


subsection \<open>A machine to run\<close>

lemma sdb_refs: "sdb.ref_ok caller"
  by (simp add: sdb.ref_ok_def split: ContractRef.split)

definition demo_base :: "(unit, (address, bytes) gomap, (hash, bytes) gomap) StateDB vm" where
  "demo_base =
     \<lparr>vm_db = sdb_ops demo_env, ctx_CanTransfer = db_CanTransfer (sdb_ops demo_env), ctx_Transfer = db_Transfer (sdb_ops demo_env),
      ctx_GetHash = (\<lambda>n. 0), ctx_Origin = 7, ctx_GasPrice = 1, ctx_Coinbase = 1, ctx_GasLimit = 1000000, ctx_BlockNumber = 10,
      ctx_Time = 1000, ctx_Difficulty = 1,
      vm_chainConfig = \<lparr>ChainID = Some 1, HomesteadBlock = Some 0, DAOForkBlock = None, DAOForkSupport = False, EIP150Block = Some 0, EIP150Hash = 0,
        EIP155Block = Some 0, EIP158Block = None, ByzantiumBlock = Some 0, ConstantinopleBlock = Some 0, PetersburgBlock = None,
        EWASMBlock = None\<rparr>,
      vm_NoRecursion = False, vm_EnablePreimageRecording = False, PrecompiledContractsHomestead = [],
      PrecompiledContractsByzantium = [], vm_Keccak256Hash = (\<lambda>b. of_nat (length b)),
      vm_CreateAddress = (\<lambda>a n. a + ucast n), vm_CreateAddress2 = (\<lambda>a s h. a + ucast s)\<rparr>"

definition demo_vm :: "(unit, (address, bytes) gomap, (hash, bytes) gomap) StateDB vm" where
  "demo_vm = evm_over (sdb_ops demo_env) demo_base"

text \<open>Account 7 holds 100; the contract at address 9 writes a storage slot.\<close>

definition demo_evm :: "(unit, (address, bytes) gomap, (hash, bytes) gomap) StateDB evm" where
  "demo_evm = \<lparr>evm_StateDB = SetCode demo_env 9 [0x60, 1, 0x60, 0, 0x55] (the (New demo_env () 0)), evm_depth = 0,
     evm_abort = False, evm_callGasTemp = 0, in_readOnly = False, in_returnData = [], evm_jumpdests = []\<rparr>"

text \<open>
  C3: A call over the state database that fails, for whatever reason and however deep the calls it
  made went, leaves everything observable of the database as it was before the call, the refund
  counter, the logs and the marks of touched accounts included.  Unless the callee reverted or the
  call was refused at the start, no gas comes back.
\<close>

theorem failed_call_leaves_no_trace:
  assumes "sdb_ok E (evm_StateDB evm)" and "revs_ok (evm_StateDB evm)" and "unat gas < fuel"
    and "V1 = evm_over (sdb_ops E) V"
    and "evm_Call V1 (evm_loop fuel V1) evm caller addr input gas val = Value (evm1, ret, leftOverGas, Some err) \<or>
      evm_CallCode V1 (evm_loop fuel V1) evm caller addr input gas val = Value (evm1, ret, leftOverGas, Some err) \<or>
      evm_DelegateCall V1 (evm_loop fuel V1) evm caller addr input gas = Value (evm1, ret, leftOverGas, Some err) \<or>
      evm_StaticCall V1 (evm_loop fuel V1) evm caller addr input gas = Value (evm1, ret, leftOverGas, Some err)"
  shows "sdb_abs E (evm_StateDB evm1) = sdb_abs E (evm_StateDB evm) \<and>
    (leftOverGas = 0 \<or> err \<in> {errExecutionReverted, ErrDepth, ErrInsufficientBalance})"
proof -
  have inv: "sdb_inv E (evm_StateDB evm)" using assms(1,2) by (simp add: sdb_inv_def)
  note bounded = sdb.evm_loop_bounded[of E fuel V]
  note undone = sdb.calls_undone[OF bounded assms(3) inv TrueI, of V caller addr input val]
    sdb.delegate_calls_undone[OF bounded assms(3) inv sdb_refs, of V caller addr input]
  show ?thesis
    using assms(5) undone unfolding assms(4) by (elim disjE) (simp_all add: sdb.undone_def image_iff)
qed

lemma demo_evm_ok: "sdb_ok demo_env (evm_StateDB demo_evm)" "revs_ok (evm_StateDB demo_evm)"
proof -
  have "sdb_inv demo_env (the (New demo_env () 0))"
    by (simp add: New_def demo_env_def sdb_ok_def objs_ok_def revs_ok_def newJournal_def sdb_inv_def)
  then have "sdb_inv demo_env (evm_StateDB demo_evm)"
    using moves_inv moves_writes(5) by (fastforce simp: demo_evm_def)
  then show "sdb_ok demo_env (evm_StateDB demo_evm)" "revs_ok (evm_StateDB demo_evm)"
    by (simp_all add: sdb_inv_def)
qed

theorem failed_call_leaves_no_trace_witness:
  "\<exists>evm1 ret. evm_Call demo_vm (evm_loop 101 demo_vm) demo_evm (AccountRef 7) 9 [] 100 5 = Value (evm1, ret, 0, Some ErrOutOfGas) \<and>
     sdb_abs demo_env (evm_StateDB evm1) = sdb_abs demo_env (evm_StateDB demo_evm)"
proof -
  have "\<not> (case evm_Call demo_vm (evm_loop 101 demo_vm) demo_evm (AccountRef 7) 9 [] 100 5 of
    Value (evm1, ret, g, err) \<Rightarrow> err \<noteq> Some ErrOutOfGas | _ \<Rightarrow> True)"
    by code_simp
  then obtain evm1 ret g where
    r: "evm_Call demo_vm (evm_loop 101 demo_vm) demo_evm (AccountRef 7) 9 [] 100 5 = Value (evm1, ret, g, Some ErrOutOfGas)"
    by (auto split: outcome.splits prod.splits)
  show ?thesis
    using failed_call_leaves_no_trace[OF demo_evm_ok _ demo_vm_def disjI1[OF r]] r by simp
qed

theorem evm_calls_terminate_witness:
  "call_returns demo_evm 100 (evm_Call demo_vm (evm_loop 101 demo_vm) demo_evm (AccountRef 7) 9 [] 100 5) \<and>
   create_returns demo_evm 100 (evm_Create demo_vm (evm_loop 101 demo_vm) demo_evm (AccountRef 7) [0x00] 100 5)"
  using evm_calls_terminate[of 100 101 demo_evm demo_vm "AccountRef 7" 9 "[]" 5 "[0x00]" 0] by simp

text \<open>Looking an account up a second time changes nothing more.\<close>

lemma getStateObject_idem: "getStateObject E a (fst (getStateObject E a s)) = getStateObject E a s"
  by (auto simp: getStateObject_def sdb_setError_def setStateObject_def newObject_def gm_get_set Let_def split: option.splits prod.splits)

lemma sdb_bumped: "sdb.bumped E V caller v s = SetNonce E (ref_Address caller) (snd (GetNonce E (ref_Address caller) s) + 1) s"
proof -
  let ?a = "ref_Address caller"
  have "fst (db_CanTransfer (sdb_ops E) ?a v s) = fst (getStateObject E ?a s)"
    by (simp add: db_CanTransfer_def sdb_ops_def GetBalance_def case_prod_unfold Let_def)
  moreover have "GetNonce E ?a (fst (getStateObject E ?a s)) = GetNonce E ?a s" "fst (GetNonce E ?a s) = fst (getStateObject E ?a s)"
    by (simp_all add: GetNonce_def getStateObject_idem case_prod_unfold Let_def)
  moreover have "SetNonce E ?a n (fst (getStateObject E ?a s)) = SetNonce E ?a n s" for n
    by (simp add: SetNonce_def GetOrNewStateObject_def getStateObject_idem)
  ultimately show ?thesis
    unfolding sdb.bumped_def by (simp add: evm_over_def case_prod_unfold Let_def) (simp add: sdb_ops_def)
qed



end
