(* ===== verification/State_Supply.thy ===== *)
theory State_Supply
  imports State_Revert
begin

text \<open>
  The ether in the state database: what each operation does to the balances (\<open>balance_at\<close>) and to
  their sum over all addresses (\<open>total_supply\<close>).  Balances are unbounded integers in the code, so a
  balance can become negative unless the callers see to it.
\<close>

definition balance_at :: "('d, 'a, 's) sdb_env \<Rightarrow> ('d, 'a, 's) StateDB \<Rightarrow> address \<Rightarrow> bigint" where
  "balance_at E s a = snd (GetBalance E a s)"

definition total_supply :: "('d, 'a, 's) sdb_env \<Rightarrow> ('d, 'a, 's) StateDB \<Rightarrow> bigint" where
  "total_supply E s = (\<Sum>a\<in>UNIV. balance_at E s a)"

definition nonneg :: "('d, 'a, 's) sdb_env \<Rightarrow> ('d, 'a, 's) StateDB \<Rightarrow> bool" where
  "nonneg E s \<longleftrightarrow> (\<forall>a. 0 \<le> balance_at E s a)"

lemma balance_account: "balance_at E s a = (case account_of E s a of None \<Rightarrow> 0 | Some v \<Rightarrow> acc_Balance (av_data v))"
  by (simp add: balance_at_def GetBalance_def account_of_def obj_view_def case_prod_unfold Let_def split: option.split)

lemma balance_abs: "sdb_abs E s' = sdb_abs E s \<Longrightarrow> balance_at E s' = balance_at E s"
  by (rule ext) (simp add: balance_account sdb_abs_def)

lemma balance_view: "v_account (sdb_abs E s') = v_account (sdb_abs E s) \<Longrightarrow> balance_at E s' = balance_at E s"
  by (rule ext) (simp add: balance_account sdb_abs_def)

subsection \<open>Reads and bookkeeping\<close>

lemma balance_getStateObject [simp]: "balance_at E (fst (getStateObject E a s)) = balance_at E s"
  by (rule balance_abs) simp

lemma balance_journaled [simp]: "balance_at E (journaled e s) = balance_at E s"
  by (rule balance_view) (simp add: abs_journaled)

lemma balance_set: "\<not> deleted p \<Longrightarrow> balance_at E (setStateObject p s) = (balance_at E s)(so_address p := acc_Balance (so_data p))"
  by (rule ext) (simp add: balance_account account_of_set obj_view_def)

lemma balance_object: "snd (getStateObject E a s) = Some p \<Longrightarrow> balance_at E s a = acc_Balance (so_data p)"
  by (simp add: balance_at_def GetBalance_def case_prod_unfold Let_def)

lemma balance_no_object: "snd (getStateObject E a s) = None \<Longrightarrow> balance_at E s a = 0"
  by (simp add: balance_at_def GetBalance_def case_prod_unfold Let_def)

lemma balance_sdb_setError [simp]: "balance_at E (sdb_setError b s) = balance_at E s"
  using account_of_cong[of "sdb_setError b s" s E] by (intro ext) (simp add: balance_account sdb_setError_def)

text \<open>Storing an object that is there already, with its balance as it was.\<close>

lemma balance_restore:
  assumes "objs_ok E s" and "snd (getStateObject E a s) = Some o'"
    and "so_address p = so_address o'" "so_data p = so_data o'" "deleted p = deleted o'"
  shows "balance_at E (setStateObject p (fst (getStateObject E a s))) = balance_at E s"
  using getStateObject_Some[OF assms(1,2)] balance_object[OF assms(2)] assms(3-5) by (simp add: balance_set fun_upd_idem)

lemma balance_reads [simp]:
  "balance_at E (fst (GetBalance E a s)) = balance_at E s" "balance_at E (fst (GetNonce E a s)) = balance_at E s"
  "balance_at E (fst (GetCodeHash E a s)) = balance_at E s" "balance_at E (fst (HasSuicided E a s)) = balance_at E s"
  "balance_at E (fst (Exist E a s)) = balance_at E s" "balance_at E (fst (Empty E a s)) = balance_at E s"
  "balance_at E (fst (GetCodeSize E a s)) = balance_at E s"
  by (simp_all add: GetBalance_def GetNonce_def GetCodeHash_def HasSuicided_def Exist_def Empty_def GetCodeSize_def
      case_prod_unfold Let_def split: option.split)

lemma balance_cached_reads:
  assumes "objs_ok E s"
  shows "balance_at E (fst (GetCode E a s)) = balance_at E s" "balance_at E (fst (GetState E a k s)) = balance_at E s"
    "balance_at E (fst (GetCommittedState E a k s)) = balance_at E s"
  using assms
  by (auto simp: GetCode_def GetState_def GetCommittedState_def case_prod_unfold Let_def so_Code_fields so_GetState_fields
      so_GetCommittedState_fields intro!: balance_restore split: option.split)

lemma balance_bookkeeping [simp]:
  "balance_at E (fst (Snapshot s)) = balance_at E s" "balance_at E (AddLog l s) = balance_at E s"
  "balance_at E (AddPreimage h bs s) = balance_at E s" "balance_at E (AddRefund g s) = balance_at E s"
  "balance_at E (so_touch a s) = balance_at E s"
proof -
  have upd: "balance_at E t = balance_at E s" if "stateObjects t = stateObjects s" "sdb_trie t = sdb_trie s" "sdb_db t = sdb_db s" for t
    using account_of_cong[of t s E] that by (intro ext) (simp add: balance_account)
  show "balance_at E (fst (Snapshot s)) = balance_at E s" "balance_at E (AddLog l s) = balance_at E s"
    "balance_at E (AddPreimage h bs s) = balance_at E s" "balance_at E (AddRefund g s) = balance_at E s"
    "balance_at E (so_touch a s) = balance_at E s"
    by (intro upd; simp add: Snapshot_def AddLog_def AddPreimage_def AddRefund_def so_touch_def Let_def)+
qed

lemma balance_SubRefund: "SubRefund g s = Some s' \<Longrightarrow> balance_at E s' = balance_at E s"
  using account_of_cong[of s' s E] by (intro ext) (auto simp: SubRefund_def balance_account split: if_splits)

subsection \<open>Writes\<close>

lemma balance_createObject:
  assumes "snd (getStateObject E a s) = None"
  shows "balance_at E (fst (createObject E a s)) = balance_at E s"
  using balance_no_object[OF assms] assms
  by (simp add: createObject_new Let_def balance_set) (simp add: newObject_def setNonce_def newAccount_def fun_upd_idem)

lemma balance_GetOrNew:
  assumes "sdb_ok E s" and r: "GetOrNewStateObject E a s = (s1, o')"
  shows "balance_at E s1 = balance_at E s" "acc_Balance (so_data o') = balance_at E s a" "so_address o' = a" "\<not> deleted o'"
proof -
  show "so_address o' = a" "\<not> deleted o'" using GetOrNew_undoable[OF assms] by (auto simp: in_hand_def)
  have "account_of E s1 a = Some (obj_view E (sdb_db s1) o')" using GetOrNew_undoable[OF assms] by (auto simp: in_hand_def)
  then have o': "acc_Balance (so_data o') = balance_at E s1 a" by (simp add: balance_account obj_view_def)
  show b: "balance_at E s1 = balance_at E s"
  proof (cases "snd (getStateObject E a s)")
    case None
    then have "snd (getStateObject E a (fst (getStateObject E a s))) = None" by (simp add: getStateObject_again)
    from balance_createObject[OF this] show ?thesis
      using r None by (auto simp: GetOrNewStateObject_def case_prod_unfold Let_def)
  next
    case (Some q)
    then show ?thesis using r getStateObject_Some[OF sdb_ok_objs[OF assms(1)] Some]
      by (auto simp: GetOrNewStateObject_def case_prod_unfold Let_def)
  qed
  show "acc_Balance (so_data o') = balance_at E s a" using o' b by simp
qed

lemma balance_writes:
  assumes "sdb_ok E s"
  shows "balance_at E (AddBalance E a x s) = (balance_at E s)(a := balance_at E s a + x)"
    and "balance_at E (SubBalance E a x s) = (balance_at E s)(a := balance_at E s a - x)"
    and "balance_at E (SetBalance E a x s) = (balance_at E s)(a := x)"
    and "balance_at E (SetNonce E a n s) = balance_at E s"
    and "balance_at E (SetCode E a c s) = balance_at E s"
    and "balance_at E (SetState E a k v s) = balance_at E s"
proof -
  obtain s1 p where r: "GetOrNewStateObject E a s = (s1, p)" by force
  note p = balance_GetOrNew[OF assms r]
  have bal: "so_data p\<lparr>acc_Balance := x\<rparr> = so_data (setBalance x p)" for x by (simp add: setBalance_def)
  show "balance_at E (AddBalance E a x s) = (balance_at E s)(a := balance_at E s a + x)"
    "balance_at E (SubBalance E a x s) = (balance_at E s)(a := balance_at E s a - x)"
    "balance_at E (SetBalance E a x s) = (balance_at E s)(a := x)"
    using p by (auto simp: AddBalance_def SubBalance_def SetBalance_def r so_AddBalance_def so_SubBalance_def so_SetBalance_def
        balance_set) (auto simp: setBalance_def)
  show "balance_at E (SetNonce E a n s) = balance_at E s"
    using p by (auto simp: SetNonce_def r so_SetNonce_def balance_set) (auto simp: setNonce_def)
  show "balance_at E (SetCode E a c s) = balance_at E s"
    using p by (auto simp: SetCode_def r so_SetCode_def case_prod_unfold Let_def balance_set so_Code_fields)
      (auto simp: setCode_def so_Code_fields)
  show "balance_at E (SetState E a k v s) = balance_at E s"
    using p by (auto simp: SetState_def r so_SetState_def case_prod_unfold Let_def balance_set so_GetState_fields fun_upd_idem)
      (auto simp: setState_def so_GetState_fields)
qed

lemma balance_CreateAccount: "balance_at E (CreateAccount E a s) = balance_at E s"
proof (cases "snd (getStateObject E a s)")
  case None
  with balance_createObject[OF None] show ?thesis
    by (auto simp: CreateAccount_def createObject_new Let_def)
next
  case (Some q)
  then show ?thesis using balance_object[OF Some]
    by (auto simp: CreateAccount_def createObject_reset Let_def balance_set) (auto simp: setBalance_def)
qed

lemma balance_Suicide:
  assumes "sdb_ok E s"
  shows "balance_at E (fst (Suicide E a s)) = (balance_at E s)(a := 0)"
proof (cases "snd (getStateObject E a s)")
  case None
  then show ?thesis using balance_no_object[OF None]
    by (auto simp: Suicide_def case_prod_unfold Let_def)
next
  case (Some q)
  then show ?thesis using getStateObject_Some[OF sdb_ok_objs[OF assms] Some]
    by (auto simp: Suicide_def case_prod_unfold Let_def balance_set) (auto simp: setBalance_def)
qed

subsection \<open>The sum\<close>

lemma sum_upd: "(\<Sum>x\<in>UNIV. (f(a := y)) x) = (\<Sum>x\<in>UNIV. f x) - f a + y" for f :: "address \<Rightarrow> int"
proof -
  have "(\<Sum>x\<in>UNIV. (f(a := y)) x) = y + (\<Sum>x\<in>UNIV - {a}. f x)"
    by (subst sum.remove[of _ a]) (auto intro!: sum.cong)
  moreover have "(\<Sum>x\<in>UNIV. f x) = f a + (\<Sum>x\<in>UNIV - {a}. f x)"
    by (subst sum.remove[of _ a]) auto
  ultimately show ?thesis by simp
qed

lemma supply_same: "balance_at E s' = balance_at E s \<Longrightarrow> total_supply E s' = total_supply E s"
  by (simp add: total_supply_def)

lemma supply_AddBalance: "sdb_ok E s \<Longrightarrow> total_supply E (AddBalance E a x s) = total_supply E s + x"
  by (simp add: total_supply_def balance_writes sum_upd del: fun_upd_apply)

lemma supply_SubBalance: "sdb_ok E s \<Longrightarrow> total_supply E (SubBalance E a x s) = total_supply E s - x"
  by (simp add: total_supply_def balance_writes sum_upd del: fun_upd_apply)

lemma supply_Suicide: "sdb_ok E s \<Longrightarrow> total_supply E (fst (Suicide E a s)) = total_supply E s - balance_at E s a"
  by (simp add: total_supply_def balance_Suicide sum_upd del: fun_upd_apply)

end
