(* ===== verification/Evm_Supply.thy ===== *)
theory Evm_Supply
  imports Evm_State State_Supply
begin

text \<open>
  No run of the machine creates ether: the state relation of the machine is instantiated once more,
  with the sum of all balances.  Balances are signed integers in the code; that they stay
  non-negative rests on every number on the stack, every value and the gas price being so.
\<close>

abbreviation fair_price :: "'w vm \<Rightarrow> bool" where
  "fair_price V \<equiv> 0 \<le> ctx_GasPrice V"

definition eth_ok :: "('d, 'a, 's) sdb_env \<Rightarrow> ('d, 'a, 's) StateDB vm \<Rightarrow> ('d, 'a, 's) StateDB \<Rightarrow> bool" where
  "eth_ok E V s \<longleftrightarrow> sdb_inv E s \<and> (fair_price V \<longrightarrow> nonneg E s)"

definition eth_moves ::
  "('d, 'a, 's) sdb_env \<Rightarrow> ('d, 'a, 's) StateDB vm \<Rightarrow> ('d, 'a, 's) StateDB \<Rightarrow> ('d, 'a, 's) StateDB \<Rightarrow> bool" where
  "eth_moves E V s s' \<longleftrightarrow> sdb_moves E s s' \<and>
     (eth_ok E V s \<longrightarrow> eth_ok E V s' \<and> (fair_price V \<longrightarrow> total_supply E s' \<le> total_supply E s))"

definition eth_funded :: "('d, 'a, 's) sdb_env \<Rightarrow> address \<Rightarrow> bigint \<Rightarrow> ('d, 'a, 's) StateDB \<Rightarrow> bool" where
  "eth_funded E a b s \<longleftrightarrow> sdb_inv E s \<and> b \<le> balance_at E s a"

lemma eth_moves_same:
  assumes "sdb_moves E s s'" and "sdb_inv E s \<Longrightarrow> balance_at E s' = balance_at E s"
  shows "eth_moves E V s s'"
  using assms moves_inv[OF assms(1)] supply_same[of E s' s] by (auto simp: eth_moves_def eth_ok_def nonneg_def)

lemma eth_reads:
  "eth_moves E V s (fst (GetBalance E a s))" "eth_moves E V s (fst (GetNonce E a s))" "eth_moves E V s (fst (GetCodeHash E a s))"
  "eth_moves E V s (fst (GetCode E a s))" "eth_moves E V s (fst (GetCodeSize E a s))" "eth_moves E V s (fst (GetState E a k s))"
  "eth_moves E V s (fst (GetCommittedState E a k s))" "eth_moves E V s (fst (HasSuicided E a s))" "eth_moves E V s (fst (Exist E a s))"
  "eth_moves E V s (fst (Empty E a s))" "eth_moves E V s (fst (Snapshot s))"
  by (rule eth_moves_same, rule moves_reads moves_Snapshot, simp add: balance_cached_reads sdb_ok_objs sdb_inv_def)+

lemma eth_writes:
  "eth_moves E V s (CreateAccount E a s)" "eth_moves E V s (AddBalance E a 0 s)" "eth_moves E V s (SetNonce E a n s)"
  "eth_moves E V s (SetCode E a c s)" "eth_moves E V s (SetState E a k v s)" "eth_moves E V s (AddLog l s)"
  "eth_moves E V s (AddPreimage h bs s)" "eth_moves E V s (AddRefund g s)"
  by (rule eth_moves_same, rule moves_writes moves_refund, simp add: balance_CreateAccount balance_writes sdb_inv_def)+

lemma eth_SubRefund: "SubRefund g s = Some s' \<Longrightarrow> eth_moves E V s s'"
  by (rule eth_moves_same) (simp_all add: moves_refund balance_SubRefund)

lemma eth_Transfer:
  assumes "eth_funded E a b s" and "fair_price V \<longrightarrow> 0 \<le> b"
  shows "eth_moves E V s (AddBalance E a' b (SubBalance E a b s))"
proof -
  have m: "sdb_moves E s (AddBalance E a' b (SubBalance E a b s))"
    by (rule moves_trans[OF moves_writes(3) moves_writes(2)])
  have ok: "sdb_ok E s" "sdb_ok E (SubBalance E a b s)"
    using assms(1) moves_inv[OF moves_writes(3)] by (auto simp: eth_funded_def sdb_inv_def)
  show ?thesis
    using assms moves_inv[OF m] ok
    by (auto simp: eth_moves_def m eth_ok_def nonneg_def balance_writes supply_AddBalance supply_SubBalance eth_funded_def)
qed

lemma eth_selfdestruct:
  "eth_moves E V s (fst (Suicide E a (AddBalance E a' (snd (GetBalance E a s)) (fst (GetBalance E a s)))))"
proof -
  let ?s1 = "fst (GetBalance E a s)"
  let ?s2 = "AddBalance E a' (balance_at E s a) ?s1"
  have m1: "sdb_moves E s ?s1" by (rule moves_reads)
  have m2: "sdb_moves E s ?s2" by (rule moves_trans[OF m1 moves_writes(2)])
  have m3: "sdb_moves E s (fst (Suicide E a ?s2))" by (rule moves_trans[OF m2 moves_writes(7)])
  have "eth_ok E V (fst (Suicide E a ?s2)) \<and> (fair_price V \<longrightarrow> total_supply E (fst (Suicide E a ?s2)) \<le> total_supply E s)"
    if "eth_ok E V s"
  proof -
    have ok: "sdb_ok E ?s1" "sdb_ok E ?s2" "sdb_inv E (fst (Suicide E a ?s2))"
      using that moves_inv[OF m1] moves_inv[OF m2] moves_inv[OF m3] by (auto simp: eth_ok_def sdb_inv_def)
    then show ?thesis using that supply_same[of E ?s1 s]
      by (auto simp: eth_ok_def nonneg_def supply_Suicide supply_AddBalance balance_Suicide balance_writes)
  qed
  then show ?thesis using m3 by (simp add: eth_moves_def balance_at_def)
qed

lemma eth_Revert:
  assumes "eth_moves E V (fst (Snapshot s)) s'" and "RevertToSnapshot E (snd (Snapshot s)) s' = Some s''"
  shows "eth_moves E V s s''"
proof (rule eth_moves_same)
  show m: "sdb_moves E s s''" using assms by (auto simp: eth_moves_def intro: moves_Revert)
  have m': "sdb_moves E (fst (Snapshot s)) s'" using assms(1) by (simp add: eth_moves_def)
  show "balance_at E s'' = balance_at E s" if "sdb_inv E s"
    using sdb_restores[OF that m'] assms(2) by (intro balance_abs) auto
qed

lemma eth_moves_trans: "eth_moves E V s1 s2 \<Longrightarrow> eth_moves E V s2 s3 \<Longrightarrow> eth_moves E V s1 s3"
  using moves_trans[of E s1 s2 s3] by (auto simp: eth_moves_def)

lemma eth_moves_refl: "eth_moves E V s s"
  by (simp add: eth_moves_def moves_refl)

lemma funded_kept_eth:
  assumes "eth_funded E a b s"
  shows "eth_funded E a b (fst (Snapshot s))" "eth_funded E a b (fst (Exist E a' s))" "eth_funded E a b (CreateAccount E a' s)"
    "eth_funded E a b (fst (GetNonce E a' s))" "eth_funded E a b (SetNonce E a' n s)" "eth_funded E a b (fst (GetCodeHash E a' s))"
    "eth_funded E a b (fst (GetBalance E a' s))"
proof -
  have keep: "eth_funded E a b s'" if "sdb_moves E s s'" "sdb_ok E s \<Longrightarrow> balance_at E s' = balance_at E s" for s'
    using assms that moves_inv[OF that(1)] by (auto simp: eth_funded_def sdb_inv_def)
  show "eth_funded E a b (fst (Snapshot s))" "eth_funded E a b (fst (Exist E a' s))" "eth_funded E a b (CreateAccount E a' s)"
    "eth_funded E a b (fst (GetNonce E a' s))" "eth_funded E a b (SetNonce E a' n s)" "eth_funded E a b (fst (GetCodeHash E a' s))"
    "eth_funded E a b (fst (GetBalance E a' s))"
    by (rule keep, rule moves_reads moves_writes moves_Snapshot, simp add: balance_CreateAccount balance_writes)+
qed

lemma over_simps:
  "vm_db (evm_over db V) = db" "ctx_CanTransfer (evm_over db V) = db_CanTransfer db" "ctx_Transfer (evm_over db V) = db_Transfer db"
  "ctx_GasPrice (evm_over db V) = ctx_GasPrice V"
  "vs_CreateAccount (sdb_ops E) = CreateAccount E" "vs_SubBalance (sdb_ops E) = SubBalance E" "vs_AddBalance (sdb_ops E) = AddBalance E"
  "vs_GetBalance (sdb_ops E) = GetBalance E" "vs_GetNonce (sdb_ops E) = GetNonce E" "vs_SetNonce (sdb_ops E) = SetNonce E"
  "vs_GetCodeHash (sdb_ops E) = GetCodeHash E" "fst (vs_GetCode (sdb_ops E) a s) = fst (GetCode E a s)" "vs_SetCode (sdb_ops E) = SetCode E"
  "vs_GetCodeSize (sdb_ops E) = GetCodeSize E" "vs_AddRefund (sdb_ops E) = AddRefund" "vs_SubRefund (sdb_ops E) = SubRefund"
  "vs_GetRefund (sdb_ops E) = GetRefund" "vs_GetCommittedState (sdb_ops E) = GetCommittedState E" "vs_GetState (sdb_ops E) = GetState E"
  "vs_SetState (sdb_ops E) = SetState E" "vs_Suicide (sdb_ops E) = Suicide E" "vs_HasSuicided (sdb_ops E) = HasSuicided E"
  "vs_Exist (sdb_ops E) = Exist E" "vs_Empty (sdb_ops E) = Empty E" "vs_RevertToSnapshot (sdb_ops E) = RevertToSnapshot E"
  "vs_Snapshot (sdb_ops E) = Snapshot" "vs_AddLog (sdb_ops E) = AddLog" "vs_AddPreimage (sdb_ops E) = AddPreimage"
  "fst (db_CanTransfer (sdb_ops E) a b s) = fst (GetBalance E a s)" "snd (db_CanTransfer (sdb_ops E) a b s) = (b \<le> balance_at E s a)"
  "db_Transfer (sdb_ops E) a a' b s = AddBalance E a' b (SubBalance E a b s)"
  by (simp_all add: evm_over_def sdb_ops_def db_CanTransfer_def db_Transfer_def balance_at_def case_prod_unfold)

interpretation eth: vm_rel "evm_over (sdb_ops E) V" "eth_moves E V" "eth_ok E V" "\<lambda>x. fair_price V \<longrightarrow> 0 \<le> x" "eth_funded E"
  for E :: "('d, 'a, 's) sdb_env" and V
proof (unfold_locales, unfold over_simps)
  show "\<And>w1 w2 w3. eth_moves E V w1 w2 \<Longrightarrow> eth_moves E V w2 w3 \<Longrightarrow> eth_moves E V w1 w3"
    by (rule eth_moves_trans)
  show "\<And>w w' w''. eth_moves E V (fst (Snapshot w)) w' \<Longrightarrow> RevertToSnapshot E (snd (Snapshot w)) w' = Some w'' \<Longrightarrow> eth_moves E V w w''"
    by (rule eth_Revert)
  show "\<And>w w'. eth_moves E V w w' \<Longrightarrow> eth_ok E V w \<Longrightarrow> eth_ok E V w'"
    by (simp add: eth_moves_def)
  show "\<And>a b w a'. eth_funded E a b w \<Longrightarrow> fair_price V \<longrightarrow> 0 \<le> b \<Longrightarrow> eth_moves E V w (AddBalance E a' b (SubBalance E a b w))"
    by (rule eth_Transfer)
  show "\<And>w a. eth_ok E V w \<Longrightarrow> fair_price V \<longrightarrow> 0 \<le> snd (GetBalance E a w)"
    by (simp add: eth_ok_def nonneg_def balance_at_def)
  show "\<And>w a b. eth_ok E V w \<Longrightarrow> b \<le> balance_at E w a \<Longrightarrow> eth_funded E a b (fst (GetBalance E a w))"
    using moves_inv[OF moves_reads(1)] by (auto simp: eth_funded_def eth_ok_def)
qed (simp_all add: funded_kept_eth eth_moves_refl eth_reads eth_writes eth_selfdestruct eth_SubRefund)


text \<open>
  C14: No message call and no contract creation makes ether: over a database without negative balances,
  with a gas price and a value that are not negative, the sum of all balances never grows, whatever the
  code does and however deep it calls, and no balance becomes negative.
\<close>

theorem no_ether_from_nothing:
  fixes E :: "('d, 'a, 's) sdb_env"
  assumes "sdb_ok E (evm_StateDB evm)" and "revs_ok (evm_StateDB evm)" and "nonneg E (evm_StateDB evm)"
    and "0 \<le> ctx_GasPrice V" and "0 \<le> val" and "case caller of AccountRef a \<Rightarrow> True | IsContract c \<Rightarrow> 0 \<le> c_value c"
    and "unat gas < fuel" and "V1 = evm_over (sdb_ops E) V"
    and "evm_Call V1 (evm_loop fuel V1) evm caller addr input gas val = Value (evm1, ret, leftOverGas, err) \<or>
      evm_CallCode V1 (evm_loop fuel V1) evm caller addr input gas val = Value (evm1, ret, leftOverGas, err) \<or>
      evm_DelegateCall V1 (evm_loop fuel V1) evm caller addr input gas = Value (evm1, ret, leftOverGas, err) \<or>
      evm_StaticCall V1 (evm_loop fuel V1) evm caller addr input gas = Value (evm1, ret, leftOverGas, err) \<or>
      evm_Create V1 (evm_loop fuel V1) evm caller code gas val = Value (evm1, ret, addr1, leftOverGas, err) \<or>
      evm_Create2 V1 (evm_loop fuel V1) evm caller code gas val salt = Value (evm1, ret, addr1, leftOverGas, err)"
  shows "total_supply E (evm_StateDB evm1) \<le> total_supply E (evm_StateDB evm) \<and> nonneg E (evm_StateDB evm1)"
proof -
  have ok: "eth_ok E V (evm_StateDB evm)" and num: "fair_price V \<longrightarrow> 0 \<le> val"
    using assms(1-5) by (auto simp: eth_ok_def sdb_inv_def)
  have ref: "eth.ref_ok TYPE('d) TYPE('a) TYPE('s) V caller"
    unfolding eth.ref_ok_def using assms(6) by (simp split: ContractRef.splits)
  note b = eth.evm_loop_bounded[of E V fuel]
  note calls = eth.Call_bounded[OF b assms(7) ok num, of caller addr input] eth.CallCode_bounded[OF b assms(7) ok num, of caller addr input]
    eth.DelegateCall_bounded[OF b assms(7) ok ref, of addr input] eth.StaticCall_bounded[OF b assms(7) ok, of caller addr input]
  note creates = eth.Creates_bounded(1)[OF b assms(7) ok num, of caller code] eth.Creates_bounded(2)[OF b assms(7) ok num, of caller code salt]
  have "eth.kept E V evm evm1"
    using assms(9) calls creates unfolding assms(8) by (elim disjE) (simp_all add: eth.returns_gas_def eth.creates_gas_def)
  then show ?thesis
    using ok assms(4) by (auto simp: eth.kept_def eth_moves_def eth_ok_def)
qed

lemma demo_nonneg: "nonneg demo_env (evm_StateDB demo_evm)"
proof -
  let ?s = "the (New demo_env () 0)"
  have "sdb_ok demo_env ?s"
    by (simp add: New_def demo_env_def sdb_ok_def objs_ok_def newJournal_def)
  then have "balance_at demo_env (evm_StateDB demo_evm) = balance_at demo_env ?s"
    by (simp add: demo_evm_def balance_writes)
  then show ?thesis
    by (auto simp: nonneg_def balance_at_def GetBalance_def getStateObject_def New_def demo_env_def newObject_def Let_def)
qed

theorem no_ether_from_nothing_witness:
  "\<exists>evm1 ret g. evm_Call demo_vm (evm_loop 101 demo_vm) demo_evm (AccountRef 7) 8 [] 100 5 = Value (evm1, ret, g, None) \<and>
     balance_at demo_env (evm_StateDB evm1) 8 = 5 \<and> balance_at demo_env (evm_StateDB evm1) 7 = 95 \<and>
     total_supply demo_env (evm_StateDB evm1) \<le> total_supply demo_env (evm_StateDB demo_evm) \<and> nonneg demo_env (evm_StateDB evm1)"
proof -
  have "\<not> (case evm_Call demo_vm (evm_loop 101 demo_vm) demo_evm (AccountRef 7) 8 [] 100 5 of
    Value (evm1, ret, g, err) \<Rightarrow> err \<noteq> None \<or> balance_at demo_env (evm_StateDB evm1) 8 \<noteq> 5 \<or>
      balance_at demo_env (evm_StateDB evm1) 7 \<noteq> 95 | _ \<Rightarrow> True)"
    by code_simp
  then obtain evm1 ret g where
    r: "evm_Call demo_vm (evm_loop 101 demo_vm) demo_evm (AccountRef 7) 8 [] 100 5 = Value (evm1, ret, g, None)"
    and b: "balance_at demo_env (evm_StateDB evm1) 8 = 5" "balance_at demo_env (evm_StateDB evm1) 7 = 95"
    by (auto split: outcome.splits prod.splits)
  have "0 \<le> ctx_GasPrice demo_base" "unat (100 :: u64) < 101" by (simp_all add: demo_base_def)
  from no_ether_from_nothing[OF demo_evm_ok demo_nonneg this(1) _ _ this(2) demo_vm_def disjI1[OF r]] r b
  show ?thesis by simp
qed

end
