(* ===== verification/State_Transition.thy ===== *)
theory State_Transition
  imports Evm_Supply Gas_Pool Tx_Types
begin

text \<open>
  \<open>core/state_transition.go\<close>: one transaction applied to the state.  The gas is bought from the
  block's pool and the sender, the machine runs, what is left is refunded and the miner is paid.
  The lemmas account for every unit of gas on the success and on the error paths, for every state
  database; over the journaled database the ether is accounted for as well.
\<close>

datatype tx_error =
  errInsufficientBalanceForGas | TxGasLimitReached | ErrNonceTooHigh | ErrNonceTooLow | VmError vm_error

record 'w StateTransition =
  st_gp :: u64
  st_msg :: message
  st_gas :: u64
  st_gasPrice :: bigint
  st_initialGas :: u64
  st_value :: bigint
  st_data :: bytes
  st_evm :: "'w evm"

definition IntrinsicGas :: "bytes \<Rightarrow> bool \<Rightarrow> bool \<Rightarrow> vm_error + u64" where
  "IntrinsicGas data contractCreation homestead =
     (let gas = (if contractCreation \<and> homestead then TxGasContractCreation else TxGas) in
      if length data > 0 then
        let nz = fold (\<lambda>byt nz. if byt \<noteq> 0 then nz + 1 else nz) data (0 :: u64) in
        if (max_u64 - gas) div TxDataNonZeroGas < nz then Inl ErrOutOfGas
        else
          let gas1 = gas + nz * TxDataNonZeroGas; z = of_nat (length data) - nz in
          if (max_u64 - gas1) div TxDataZeroGas < z then Inl ErrOutOfGas
          else Inr (gas1 + z * TxDataZeroGas)
      else Inr gas)"

definition NewStateTransition :: "'w evm \<Rightarrow> message \<Rightarrow> u64 \<Rightarrow> 'w StateTransition" where
  "NewStateTransition evm msg gp =
     \<lparr>st_gp = gp, st_msg = msg, st_gas = 0, st_gasPrice = msg_gasPrice msg, st_initialGas = 0,
      st_value = msg_amount msg, st_data = msg_data msg, st_evm = evm\<rparr>"

definition st_to :: "'w StateTransition \<Rightarrow> address" where
  "st_to st = (case msg_to (st_msg st) of None \<Rightarrow> 0 | Some a \<Rightarrow> a)"

definition useGas :: "u64 \<Rightarrow> 'w StateTransition \<Rightarrow> vm_error + 'w StateTransition" where
  "useGas amount st = (if st_gas st < amount then Inl ErrOutOfGas else Inr (st\<lparr>st_gas := st_gas st - amount\<rparr>))"

definition buyGas :: "'w vm \<Rightarrow> 'w StateTransition \<Rightarrow> 'w StateTransition \<times> tx_error option" where
  "buyGas V st =
     (let mgval = uint (msg_gasLimit (st_msg st)) * st_gasPrice st;
          (evm1, balance) = read_state (vs_GetBalance (vm_db V) (msg_from (st_msg st))) (st_evm st);
          st1 = st\<lparr>st_evm := evm1\<rparr>
      in if balance < mgval then (st1, Some errInsufficientBalanceForGas)
         else case SubGas (st_gp st1) (msg_gasLimit (st_msg st1)) of
                Inl e \<Rightarrow> (st1, Some TxGasLimitReached)
              | Inr gp \<Rightarrow>
                  (st1\<lparr>st_gp := gp, st_gas := st_gas st1 + msg_gasLimit (st_msg st1), st_initialGas := msg_gasLimit (st_msg st1),
                       st_evm := on_state (vs_SubBalance (vm_db V) (msg_from (st_msg st1)) mgval) (st_evm st1)\<rparr>, None))"

text \<open>The comparison of the nonces follows a return on the same condition and is never reached.\<close>

definition preCheck :: "'w vm \<Rightarrow> 'w StateTransition \<Rightarrow> 'w StateTransition \<times> tx_error option" where
  "preCheck V st =
     (if msg_checkNonce (st_msg st) then buyGas V st
      else if msg_checkNonce (st_msg st) then
        let (evm1, nonce) = read_state (vs_GetNonce (vm_db V) (msg_from (st_msg st))) (st_evm st); st1 = st\<lparr>st_evm := evm1\<rparr> in
        if nonce < msg_nonce (st_msg st) then (st1, Some ErrNonceTooHigh)
        else if nonce > msg_nonce (st_msg st) then (st1, Some ErrNonceTooLow)
        else buyGas V st1
      else buyGas V st)"

definition gasUsed :: "'w StateTransition \<Rightarrow> u64" where
  "gasUsed st = st_initialGas st - st_gas st"

definition refundGas :: "'w vm \<Rightarrow> 'w StateTransition \<Rightarrow> 'w StateTransition option" where
  "refundGas V st =
     (let refund = gasUsed st div 2;
          refund1 = (if refund > vs_GetRefund (vm_db V) (evm_StateDB (st_evm st)) then vs_GetRefund (vm_db V) (evm_StateDB (st_evm st)) else refund);
          st1 = st\<lparr>st_gas := st_gas st + refund1\<rparr>;
          remaining = uint (st_gas st1) * st_gasPrice st1;
          st2 = st1\<lparr>st_evm := on_state (vs_AddBalance (vm_db V) (msg_from (st_msg st1)) remaining) (st_evm st1)\<rparr>
      in case AddGas (st_gp st2) (st_gas st2) of None \<Rightarrow> None | Some gp \<Rightarrow> Some (st2\<lparr>st_gp := gp\<rparr>))"

text \<open>The creation or the call of a transaction, with the nonce of the sender raised before a call.\<close>

definition st_execute ::
  "'w vm \<Rightarrow> 'w loop \<Rightarrow> 'w StateTransition \<Rightarrow> ('w StateTransition \<times> bytes \<times> vm_error option) outcome" where
  "st_execute V loop st =
     (let msg = st_msg st; sender = AccountRef (msg_from msg) in
      if msg_to msg = None then
        obind (evm_Create V loop (st_evm st) sender (st_data st) (st_gas st) (st_value st)) (\<lambda>(evm1, ret, addr, gas, vmerr).
          Value (st\<lparr>st_evm := evm1, st_gas := gas\<rparr>, ret, vmerr))
      else
        let (evm1, nonce) = read_state (vs_GetNonce (vm_db V) (ref_Address sender)) (st_evm st);
            evm2 = on_state (vs_SetNonce (vm_db V) (msg_from msg) (nonce + 1)) evm1
        in obind (evm_Call V loop evm2 sender (st_to st) (st_data st) (st_gas st) (st_value st)) (\<lambda>(evm3, ret, gas, vmerr).
             Value (st\<lparr>st_evm := evm3, st_gas := gas\<rparr>, ret, vmerr)))"

definition TransitionDb ::
  "'w vm \<Rightarrow> 'w loop \<Rightarrow> 'w StateTransition \<Rightarrow> ('w StateTransition \<times> (tx_error + bytes \<times> u64 \<times> bool)) outcome" where
  "TransitionDb V loop st =
     (case preCheck V st of (st1, err) \<Rightarrow>
      case err of
        Some e \<Rightarrow> Value (st1, Inl e)
      | None \<Rightarrow>
          let homestead = IsHomestead (vm_chainConfig V) (vm_block V); contractCreation = (msg_to (st_msg st1) = None) in
          (case IntrinsicGas (st_data st1) contractCreation homestead of
             Inl e \<Rightarrow> Value (st1, Inl (VmError e))
           | Inr gas \<Rightarrow>
               (case useGas gas st1 of
                  Inl e \<Rightarrow> Value (st1, Inl (VmError e))
                | Inr st2 \<Rightarrow>
                    obind (st_execute V loop st2) (\<lambda>(st3, ret, vmerr).
                      if vmerr = Some ErrInsufficientBalance then Value (st3, Inl (VmError ErrInsufficientBalance))
                      else
                        obind (of_opt (refundGas V st3)) (\<lambda>st4.
                          let st5 = st4\<lparr>st_evm := on_state (vs_AddBalance (vm_db V) (ctx_Coinbase V)
                                (uint (gasUsed st4) * st_gasPrice st4)) (st_evm st4)\<rparr>
                          in Value (st5, Inr (ret, gasUsed st5, vmerr \<noteq> None)))))))"

definition ApplyMessage ::
  "'w vm \<Rightarrow> 'w loop \<Rightarrow> 'w evm \<Rightarrow> message \<Rightarrow> u64 \<Rightarrow> ('w StateTransition \<times> (tx_error + bytes \<times> u64 \<times> bool)) outcome" where
  "ApplyMessage V loop evm msg gp = TransitionDb V loop (NewStateTransition evm msg gp)"

subsection \<open>Intrinsic gas\<close>

definition intrinsic_sum :: "bytes \<Rightarrow> bool \<Rightarrow> bool \<Rightarrow> nat" where
  "intrinsic_sum data contractCreation homestead =
     (if contractCreation \<and> homestead then 53000 else 21000) +
     68 * length (filter (\<lambda>b. b \<noteq> 0) data) + 4 * length (filter (\<lambda>b. b = 0) data)"

lemma count_nonzero: "fold (\<lambda>byt nz. if byt \<noteq> 0 then nz + 1 else nz) data k = k + of_nat (length (filter (\<lambda>b. b \<noteq> 0) data))"
  for data :: bytes and k :: u64
  by (induction data arbitrary: k) auto

lemma price_overflow:
  fixes g k n :: u64
  assumes "0 < k"
  shows "(max_u64 - g) div k < n \<longleftrightarrow> 2 ^ 64 \<le> unat g + unat n * unat k"
proof -
  have k: "0 < unat k" using assms by (simp add: word_less_nat_alt)
  have "unat (max_u64 - g) = 2 ^ 64 - 1 - unat g"
    using unat_u64_lt[of g] by (subst unat_sub) (simp_all add: word_le_nat_alt)
  then have "unat ((max_u64 - g) div k) = (2 ^ 64 - 1 - unat g) div unat k"
    by (simp add: unat_div)
  moreover have "unat g < 2 ^ 64" using unat_u64_lt[of g] by simp
  ultimately show ?thesis
    using k unfolding word_less_nat_alt by (simp add: div_less_iff_less_mult) arith
qed

lemma length_zero_nonzero: "length (filter (\<lambda>b. b = 0) data) + length (filter (\<lambda>b. b \<noteq> 0) data) = length data"
  using sum_length_filter_compl[of "\<lambda>b. b = 0" data] by simp

lemma IntrinsicGas_sum:
  assumes "length data < 2 ^ 64"
  shows "IntrinsicGas data c h = (if intrinsic_sum data c h < 2 ^ 64 then Inr (of_nat (intrinsic_sum data c h)) else Inl ErrOutOfGas)"
proof -
  let ?nz = "length (filter (\<lambda>b. b \<noteq> 0) data)" and ?z = "length (filter (\<lambda>b. b = 0) data)"
  define g where "g = (if c \<and> h then TxGasContractCreation else TxGas)"
  have g: "unat g = (if c \<and> h then 53000 else 21000)" by (simp add: g_def)
  have len: "length data = ?z + ?nz" using length_zero_nonzero[of data] by simp
  then have nz: "unat (of_nat ?nz :: u64) = ?nz" and z: "unat (of_nat ?z :: u64) = ?z"
    using assms by (simp_all add: unat_of_nat)
  have zeq: "of_nat (length data) - of_nat ?nz = (of_nat ?z :: u64)" unfolding len by simp
  show ?thesis
  proof (cases "data = []")
    case True
    then show ?thesis by (simp add: IntrinsicGas_def intrinsic_sum_def)
  next
    case False
    define g1 where "g1 = g + of_nat ?nz * TxDataNonZeroGas"
    have I: "IntrinsicGas data c h = (if (max_u64 - g) div TxDataNonZeroGas < of_nat ?nz then Inl ErrOutOfGas
        else if (max_u64 - g1) div TxDataZeroGas < of_nat ?z then Inl ErrOutOfGas else Inr (g1 + of_nat ?z * TxDataZeroGas))"
      unfolding IntrinsicGas_def Let_def count_nonzero add_0_left zeq g_def[symmetric] g1_def[symmetric] using False by simp
    have s: "intrinsic_sum data c h = unat g + ?nz * 68 + ?z * 4" by (simp add: intrinsic_sum_def g)
    have n: "of_nat (intrinsic_sum data c h) = g1 + of_nat ?z * TxDataZeroGas"
      by (simp add: s g1_def)
    have "unat g1 = unat g + ?nz * 68" if "unat g + ?nz * 68 < 2 ^ 64"
      using that nz by (simp add: g1_def unat_word_ariths)
    then show ?thesis unfolding I price_overflow[of TxDataNonZeroGas, simplified] price_overflow[of TxDataZeroGas, simplified] nz z
      using s n by auto
  qed
qed

subsection \<open>Where the gas goes\<close>

text \<open>The fields that running the machine leaves alone.\<close>

definition same_deal :: "'w StateTransition \<Rightarrow> 'w StateTransition \<Rightarrow> bool" where
  "same_deal st st' \<longleftrightarrow> st_gp st' = st_gp st \<and> st_msg st' = st_msg st \<and> st_initialGas st' = st_initialGas st \<and>
     st_gasPrice st' = st_gasPrice st"

context vm_rel
begin

lemma st_execute_bounded:
  assumes "unat (st_gas st) < fuel" and "good (evm_StateDB (st_evm st))" and "num_ok (st_value st)"
  shows "post (\<lambda>(st', ret, err). same_deal st st' \<and> st_gas st' \<le> st_gas st \<and> kept (st_evm st) (st_evm st'))
    (st_execute V (evm_loop fuel V) st)"
proof -
  note b = evm_loop_bounded[of fuel]
  let ?from = "msg_from (st_msg st)"
  let ?r = "read_state (vs_GetNonce (vm_db V) ?from) (st_evm st)"
  let ?e = "on_state (vs_SetNonce (vm_db V) ?from (snd ?r + 1)) (fst ?r)"
  have k: "kept (st_evm st) ?e" by (intro kept_intros)
  have "post (returns_gas (st_evm st) (st_gas st)) (evm_Call V (evm_loop fuel V) ?e c a i (st_gas st) (st_value st))" for c a i
    using Call_bounded[OF b assms(1) kept_good[OF k assms(2)] assms(3), of c a i] k
    by (auto elim!: post_mono simp: returns_gas_def intro: kept_trans)
  then show ?thesis
    using Creates_bounded(1)[OF b assms]
    by (auto simp: st_execute_def Let_def case_prod_unfold same_deal_def returns_gas_def creates_gas_def
        intro!: post_obind_I[where P = "returns_gas (st_evm st) (st_gas st)"] post_obind_I[where P = "creates_gas (st_evm st) (st_gas st)"])
qed

end

lemma refundGas_settles:
  assumes "st_gas st \<le> st_initialGas st" and "unat (st_gp st) + unat (st_initialGas st) < 2 ^ 64"
  shows "\<exists>r. unat r \<le> unat (gasUsed st) div 2 \<and>
    refundGas V st = Some (st\<lparr>st_gas := st_gas st + r, st_gp := st_gp st + (st_gas st + r),
      st_evm := on_state (vs_AddBalance (vm_db V) (msg_from (st_msg st)) (uint (st_gas st + r) * st_gasPrice st)) (st_evm st)\<rparr>) \<and>
    unat (st_gas st + r) = unat (st_gas st) + unat r"
proof -
  let ?half = "gasUsed st div 2" and ?counter = "vs_GetRefund (vm_db V) (evm_StateDB (st_evm st))"
  define r where "r = (if ?half > ?counter then ?counter else ?half)"
  have half: "unat ?half = unat (gasUsed st) div 2" by (simp add: unat_div)
  then have r: "unat r \<le> unat (gasUsed st) div 2" by (auto simp: r_def word_less_nat_alt)
  have used: "unat (gasUsed st) = unat (st_initialGas st) - unat (st_gas st)"
    using assms(1) by (simp add: gasUsed_def unat_sub word_le_nat_alt)
  have le: "unat (st_gas st) + unat r \<le> unat (st_initialGas st)"
    using r used assms(1) by (simp add: word_le_nat_alt)
  then have sum: "unat (st_gas st + r) = unat (st_gas st) + unat r"
    using assms(2) by (simp add: unat_word_ariths)
  have "AddGas (st_gp st) (st_gas st + r) = Some (st_gp st + (st_gas st + r))"
  proof -
    have "unat (max_u64 - (st_gas st + r)) = 2 ^ 64 - 1 - unat (st_gas st + r)"
      using unat_u64_lt[of "st_gas st + r"] by (subst unat_sub) (simp_all add: word_le_nat_alt)
    then show ?thesis using sum le assms(2) by (auto simp: AddGas_def word_less_nat_alt)
  qed
  then show ?thesis using r sum by (auto simp: refundGas_def Let_def r_def[symmetric])
qed

text \<open>The machine once the gas is paid for, and the balance that pays.\<close>

definition st_funds :: "'w vm \<Rightarrow> 'w evm \<Rightarrow> message \<Rightarrow> 'w evm \<times> bigint" where
  "st_funds V evm msg = read_state (vs_GetBalance (vm_db V) (msg_from msg)) evm"

definition st_paid :: "'w vm \<Rightarrow> 'w evm \<Rightarrow> message \<Rightarrow> 'w evm" where
  "st_paid V evm msg =
     on_state (vs_SubBalance (vm_db V) (msg_from msg) (uint (msg_gasLimit msg) * msg_gasPrice msg)) (fst (st_funds V evm msg))"

definition st_repaid :: "'w vm \<Rightarrow> message \<Rightarrow> u64 \<Rightarrow> 'w evm \<Rightarrow> 'w evm" where
  "st_repaid V msg left evm =
     on_state (vs_AddBalance (vm_db V) (ctx_Coinbase V) (uint (msg_gasLimit msg - left) * msg_gasPrice msg))
       (on_state (vs_AddBalance (vm_db V) (msg_from msg) (uint left * msg_gasPrice msg)) evm)"

lemma NewStateTransition_fields [simp]:
  "st_gp (NewStateTransition evm msg gp) = gp" "st_msg (NewStateTransition evm msg gp) = msg" "st_data (NewStateTransition evm msg gp) = msg_data msg"
  "st_gasPrice (NewStateTransition evm msg gp) = msg_gasPrice msg" "st_value (NewStateTransition evm msg gp) = msg_amount msg"
  by (simp_all add: NewStateTransition_def)

lemma preCheck_buys:
  "preCheck V (NewStateTransition evm msg gp) =
     (let st = (NewStateTransition evm msg gp)\<lparr>st_evm := fst (st_funds V evm msg)\<rparr> in
      if snd (st_funds V evm msg) < uint (msg_gasLimit msg) * msg_gasPrice msg then (st, Some errInsufficientBalanceForGas)
      else if gp < msg_gasLimit msg then (st, Some TxGasLimitReached)
      else (st\<lparr>st_gp := gp - msg_gasLimit msg, st_gas := msg_gasLimit msg, st_initialGas := msg_gasLimit msg,
               st_evm := st_paid V evm msg\<rparr>, None))"
  by (simp add: preCheck_def buyGas_def NewStateTransition_def SubGas_def st_funds_def st_paid_def case_prod_unfold Let_def)

context vm_rel
begin

text \<open>How a transaction can end: refused, failed after the gas was bought, or carried out.\<close>

definition settled :: "'w evm \<Rightarrow> message \<Rightarrow> u64 \<Rightarrow> 'w StateTransition \<times> (tx_error + bytes \<times> u64 \<times> bool) \<Rightarrow> bool" where
  "settled evm msg gp r = (case r of (st, res) \<Rightarrow>
     let price = uint (msg_gasLimit msg) * msg_gasPrice msg in
     (\<exists>e. res = Inl e \<and> st_gp st = gp \<and> st_evm st = fst (st_funds V evm msg)) \<or>
     msg_gasLimit msg \<le> gp \<and> price \<le> snd (st_funds V evm msg) \<and>
       ((\<exists>e. res = Inl e \<and> st_gp st = gp - msg_gasLimit msg \<and> kept (st_paid V evm msg) (st_evm st)) \<or>
        (\<exists>ret failed ig left evm1. res = Inr (ret, msg_gasLimit msg - left, failed) \<and> left \<le> msg_gasLimit msg \<and>
           IntrinsicGas (msg_data msg) (msg_to msg = None) (IsHomestead (vm_chainConfig V) (vm_block V)) = Inr ig \<and>
           unat ig \<le> 2 * unat (msg_gasLimit msg - left) \<and> st_gp st = gp - (msg_gasLimit msg - left) \<and>
           kept (st_paid V evm msg) evm1 \<and> st_evm st = st_repaid V msg left evm1)))"

lemma settle:
  assumes st: "same_deal st1 st3" "st_gas st3 \<le> limit - ig" "ig \<le> limit" "limit \<le> gp"
    and st1: "st_gp st1 = gp - limit" "st_initialGas st1 = limit"
  shows "\<exists>left. refundGas V st3 = Some (st3\<lparr>st_gas := left, st_gp := gp - (limit - left),
      st_evm := on_state (vs_AddBalance (vm_db V) (msg_from (st_msg st3)) (uint left * st_gasPrice st3)) (st_evm st3)\<rparr>) \<and>
    left \<le> limit \<and> unat ig \<le> 2 * unat (limit - left)"
proof -
  have deal: "st_gp st3 = gp - limit" "st_initialGas st3 = limit" using st(1) st1 by (auto simp: same_deal_def)
  have g3: "unat (st_gas st3) \<le> unat limit - unat ig" and ig: "unat ig \<le> unat limit" and gp: "unat limit \<le> unat gp"
    using st(2-4) by (auto simp: word_le_nat_alt unat_sub)
  have "unat (gp - limit) = unat gp - unat limit" using gp by (simp add: unat_sub word_le_nat_alt)
  then have fits: "unat (st_gp st3) + unat (st_initialGas st3) < 2 ^ 64" using deal gp unat_u64_lt[of gp] by simp
  have le: "st_gas st3 \<le> st_initialGas st3" using g3 deal by (simp add: word_le_nat_alt)
  obtain r where r: "unat r \<le> unat (gasUsed st3) div 2" "unat (st_gas st3 + r) = unat (st_gas st3) + unat r"
    and s: "refundGas V st3 = Some (st3\<lparr>st_gas := st_gas st3 + r, st_gp := st_gp st3 + (st_gas st3 + r),
      st_evm := on_state (vs_AddBalance (vm_db V) (msg_from (st_msg st3)) (uint (st_gas st3 + r) * st_gasPrice st3)) (st_evm st3)\<rparr>)"
    using refundGas_settles[OF le fits, of V] by blast
  have used: "unat (gasUsed st3) = unat limit - unat (st_gas st3)"
    using le deal by (simp add: gasUsed_def unat_sub word_le_nat_alt)
  have left: "st_gas st3 + r \<le> limit" using r used g3 by (simp add: word_le_nat_alt)
  then have "unat (limit - (st_gas st3 + r)) = unat limit - (unat (st_gas st3) + unat r)"
    using r(2) by (simp add: unat_sub word_le_nat_alt)
  then have "unat ig \<le> 2 * unat (limit - (st_gas st3 + r))" using r used g3 ig by simp
  moreover have "st_gp st3 + (st_gas st3 + r) = gp - (limit - (st_gas st3 + r))" using deal by simp
  ultimately show ?thesis using s left by metis
qed

lemma TransitionDb_settled:
  assumes "unat (msg_gasLimit msg) < fuel" and "num_ok (msg_amount msg)"
    and good: "uint (msg_gasLimit msg) * msg_gasPrice msg \<le> snd (st_funds V evm msg) \<Longrightarrow> good (evm_StateDB (st_paid V evm msg))"
  shows "post (settled evm msg gp) (ApplyMessage V (evm_loop fuel V) evm msg gp)"
proof (cases "snd (st_funds V evm msg) < uint (msg_gasLimit msg) * msg_gasPrice msg \<or> gp < msg_gasLimit msg")
  case True
  then show ?thesis
    unfolding ApplyMessage_def TransitionDb_def preCheck_buys Let_def by (auto simp: settled_def)
next
  case False
  then have le: "msg_gasLimit msg \<le> gp" by (simp add: not_less)
  let ?st1 = "(NewStateTransition evm msg gp)\<lparr>st_gp := gp - msg_gasLimit msg, st_gas := msg_gasLimit msg,
    st_initialGas := msg_gasLimit msg, st_evm := st_paid V evm msg\<rparr>"
  let ?ig = "IntrinsicGas (msg_data msg) (msg_to msg = None) (IsHomestead (vm_chainConfig V) (vm_block V))"
  have pre: "preCheck V (NewStateTransition evm msg gp) = (?st1, None)"
    using False by (simp add: preCheck_buys Let_def)
  have err: "settled evm msg gp (st, Inl e)" if "st_gp st = gp - msg_gasLimit msg" "kept (st_paid V evm msg) (st_evm st)" for st e
    using that False le by (auto simp: settled_def Let_def)
  show ?thesis
  proof (cases "\<exists>ig. ?ig = Inr ig \<and> ig \<le> msg_gasLimit msg")
    case False
    then show ?thesis
      by (auto simp: ApplyMessage_def TransitionDb_def pre useGas_def intro!: err split: sum.split)
  next
    case True
    then obtain ig where ig: "?ig = Inr ig" "ig \<le> msg_gasLimit msg" by blast
    let ?st2 = "(NewStateTransition evm msg gp)\<lparr>st_gp := gp - msg_gasLimit msg, st_initialGas := msg_gasLimit msg,
      st_evm := st_paid V evm msg, st_gas := msg_gasLimit msg - ig\<rparr>"
    have less: "unat (msg_gasLimit msg - ig) < fuel"
      using assms(1) ig(2) by (simp add: unat_sub word_le_nat_alt)
    have ok: "good (evm_StateDB (st_paid V evm msg))" using good False by simp
    have exec: "post (\<lambda>(st', ret, err). same_deal ?st2 st' \<and> st_gas st' \<le> msg_gasLimit msg - ig \<and> kept (st_paid V evm msg) (st_evm st'))
        (st_execute V (evm_loop fuel V) ?st2)"
      using st_execute_bounded[of ?st2 fuel] less ok assms(2) by simp
    have final: "post (settled evm msg gp) (obind (of_opt (refundGas V st3)) (\<lambda>st4.
         let st5 = st4\<lparr>st_evm := on_state (vs_AddBalance (vm_db V) (ctx_Coinbase V) (uint (gasUsed st4) * st_gasPrice st4)) (st_evm st4)\<rparr>
         in Value (st5, Inr (ret, gasUsed st5, vmerr))))"
      if st3: "same_deal ?st2 st3" "st_gas st3 \<le> msg_gasLimit msg - ig" "kept (st_paid V evm msg) (st_evm st3)" for st3 ret vmerr
    proof -
      obtain left where l: "refundGas V st3 = Some (st3\<lparr>st_gas := left, st_gp := gp - (msg_gasLimit msg - left),
          st_evm := on_state (vs_AddBalance (vm_db V) (msg_from (st_msg st3)) (uint left * st_gasPrice st3)) (st_evm st3)\<rparr>)"
        "left \<le> msg_gasLimit msg" "unat ig \<le> 2 * unat (msg_gasLimit msg - left)"
        using settle[of ?st2 st3 "msg_gasLimit msg" ig gp] st3 ig(2) le by auto
      then show ?thesis
        using st3 ig(1) False le by (auto simp: same_deal_def gasUsed_def settled_def Let_def st_repaid_def)
    qed
    have same_gp: "st_gp st3 = gp - msg_gasLimit msg" if "same_deal ?st2 st3" for st3
      using that by (simp add: same_deal_def)
    show ?thesis
      unfolding ApplyMessage_def TransitionDb_def pre
      using ig by (auto simp: useGas_def intro!: post_obind_I[OF exec] err final dest: same_gp simp del: not_None_eq)
  qed
qed

end

subsection \<open>Where the ether goes\<close>

lemma eth_credit:
  assumes "eth_ok E V s" and "0 \<le> x"
  shows "eth_ok E V (AddBalance E a x s)" and "total_supply E (AddBalance E a x s) = total_supply E s + x"
  using assms moves_inv[OF moves_writes(2)] by (auto simp: eth_ok_def nonneg_def sdb_inv_def balance_writes supply_AddBalance)

lemma eth_debit:
  assumes "eth_ok E V s" and "x \<le> balance_at E s a"
  shows "eth_ok E V (SubBalance E a x s)" and "total_supply E (SubBalance E a x s) = total_supply E s - x"
  using assms moves_inv[OF moves_writes(3)] by (auto simp: eth_ok_def nonneg_def sdb_inv_def balance_writes supply_SubBalance)

lemma eth_st_funds:
  assumes "eth_ok E V (evm_StateDB evm)" and "0 \<le> ctx_GasPrice V"
  shows "eth_ok E V (evm_StateDB (fst (st_funds (evm_over (sdb_ops E) V) evm msg)))"
    and "total_supply E (evm_StateDB (fst (st_funds (evm_over (sdb_ops E) V) evm msg))) = total_supply E (evm_StateDB evm)"
    and "snd (st_funds (evm_over (sdb_ops E) V) evm msg) = balance_at E (evm_StateDB evm) (msg_from msg)"
  using assms moves_inv[OF moves_reads(1)] supply_same[OF balance_reads(1)]
  by (auto simp: st_funds_def read_state_def over_simps case_prod_unfold Let_def eth_ok_def nonneg_def) (simp_all add: balance_at_def)

lemma eth_st_paid:
  assumes "eth_ok E V (evm_StateDB evm)" and "0 \<le> ctx_GasPrice V"
    and "uint (msg_gasLimit msg) * msg_gasPrice msg \<le> snd (st_funds (evm_over (sdb_ops E) V) evm msg)"
  shows "eth_ok E V (evm_StateDB (st_paid (evm_over (sdb_ops E) V) evm msg))"
    and "total_supply E (evm_StateDB (st_paid (evm_over (sdb_ops E) V) evm msg)) =
      total_supply E (evm_StateDB evm) - uint (msg_gasLimit msg) * msg_gasPrice msg"
proof -
  let ?s = "evm_StateDB (fst (st_funds (evm_over (sdb_ops E) V) evm msg))"
  have "balance_at E ?s = balance_at E (evm_StateDB evm)"
    by (simp add: st_funds_def read_state_def over_simps case_prod_unfold Let_def)
  then have "uint (msg_gasLimit msg) * msg_gasPrice msg \<le> balance_at E ?s (msg_from msg)"
    using assms(3) eth_st_funds(3)[OF assms(1,2)] by simp
  from eth_debit[OF eth_st_funds(1)[OF assms(1,2)] this]
  show "eth_ok E V (evm_StateDB (st_paid (evm_over (sdb_ops E) V) evm msg))"
    "total_supply E (evm_StateDB (st_paid (evm_over (sdb_ops E) V) evm msg)) =
      total_supply E (evm_StateDB evm) - uint (msg_gasLimit msg) * msg_gasPrice msg"
    by (simp_all add: st_paid_def on_state_def over_simps eth_st_funds(2)[OF assms(1,2)])
qed

lemma eth_st_repaid:
  assumes "eth_ok E V (evm_StateDB evm)" and "0 \<le> msg_gasPrice msg" and "left \<le> msg_gasLimit msg"
  shows "eth_ok E V (evm_StateDB (st_repaid (evm_over (sdb_ops E) V) msg left evm))"
    and "total_supply E (evm_StateDB (st_repaid (evm_over (sdb_ops E) V) msg left evm)) =
      total_supply E (evm_StateDB evm) + uint (msg_gasLimit msg) * msg_gasPrice msg"
proof -
  have "0 \<le> uint left * msg_gasPrice msg" "0 \<le> uint (msg_gasLimit msg - left) * msg_gasPrice msg"
    using assms(2) by simp_all
  note first = eth_credit[OF assms(1) this(1), of "msg_from msg"]
    and second = eth_credit[OF eth_credit(1)[OF assms(1) this(1)] this(2)]
  have "uint (msg_gasLimit msg - left) = uint (msg_gasLimit msg) - uint left"
    using assms(3) by (simp add: uint_sub_if' word_le_def)
  then have "uint left * msg_gasPrice msg + uint (msg_gasLimit msg - left) * msg_gasPrice msg = uint (msg_gasLimit msg) * msg_gasPrice msg"
    by (simp add: left_diff_distrib)
  then show "eth_ok E V (evm_StateDB (st_repaid (evm_over (sdb_ops E) V) msg left evm))"
    "total_supply E (evm_StateDB (st_repaid (evm_over (sdb_ops E) V) msg left evm)) =
      total_supply E (evm_StateDB evm) + uint (msg_gasLimit msg) * msg_gasPrice msg"
    using first second by (simp_all add: st_repaid_def on_state_def over_simps)
qed

subsection \<open>The nonce of the message\<close>

definition with_nonce :: "u64 \<Rightarrow> 'w StateTransition \<Rightarrow> 'w StateTransition" where
  "with_nonce n st = st\<lparr>st_msg := (st_msg st)\<lparr>msg_nonce := n\<rparr>\<rparr>"

lemma with_nonce_fields [simp]:
  "st_evm (with_nonce n st) = st_evm st" "st_gp (with_nonce n st) = st_gp st" "st_data (with_nonce n st) = st_data st"
  "st_gas (with_nonce n st) = st_gas st" "st_gasPrice (with_nonce n st) = st_gasPrice st" "st_value (with_nonce n st) = st_value st"
  "st_initialGas (with_nonce n st) = st_initialGas st" "msg_to (st_msg (with_nonce n st)) = msg_to (st_msg st)"
  "msg_from (st_msg (with_nonce n st)) = msg_from (st_msg st)" "msg_gasLimit (st_msg (with_nonce n st)) = msg_gasLimit (st_msg st)"
  "msg_checkNonce (st_msg (with_nonce n st)) = msg_checkNonce (st_msg st)" "st_to (with_nonce n st) = st_to st"
  "gasUsed (with_nonce n st) = gasUsed st"
  by (simp_all add: with_nonce_def st_to_def gasUsed_def)

lemma with_nonce_updates:
  "(with_nonce n st)\<lparr>st_evm := e\<rparr> = with_nonce n (st\<lparr>st_evm := e\<rparr>)" "(with_nonce n st)\<lparr>st_gas := g\<rparr> = with_nonce n (st\<lparr>st_gas := g\<rparr>)"
  "(with_nonce n st)\<lparr>st_gp := g\<rparr> = with_nonce n (st\<lparr>st_gp := g\<rparr>)" "(with_nonce n st)\<lparr>st_initialGas := g\<rparr> = with_nonce n (st\<lparr>st_initialGas := g\<rparr>)"
  by (simp_all add: with_nonce_def)

lemma obind_map_outcome: "obind (map_outcome f r) g = obind r (\<lambda>x. g (f x))"
  by (cases r) simp_all

lemma map_outcome_obind: "map_outcome f (obind r g) = obind r (\<lambda>x. map_outcome f (g x))"
  by (cases r) simp_all

lemmas obind_map = obind_map_outcome map_outcome_obind

lemma steps_nonce:
  "preCheck V (with_nonce n st) = apfst (with_nonce n) (preCheck V st)"
  "useGas g (with_nonce n st) = map_sum id (with_nonce n) (useGas g st)"
  "refundGas V (with_nonce n st) = map_option (with_nonce n) (refundGas V st)"
  "st_execute V loop (with_nonce n st) = map_outcome (apfst (with_nonce n)) (st_execute V loop st)"
  by (auto simp: preCheck_def buyGas_def useGas_def refundGas_def st_execute_def with_nonce_updates Let_def case_prod_unfold obind_map
      split: sum.split option.split)

lemma of_opt_map: "of_opt (map_option f m) = map_outcome f (of_opt m)"
  by (cases m) simp_all

lemma TransitionDb_nonce: "TransitionDb V loop (with_nonce n st) = map_outcome (apfst (with_nonce n)) (TransitionDb V loop st)"
  by (auto simp: TransitionDb_def steps_nonce obind_map of_opt_map with_nonce_updates Let_def case_prod_unfold
      intro!: arg_cong2[where f = obind] ext split: sum.split option.split)

subsection \<open>Properties\<close>


lemma ApplyMessage_ether:
  fixes E :: "('d, 'a, 's) sdb_env"
  assumes "sdb_ok E (evm_StateDB evm)" and "revs_ok (evm_StateDB evm)" and "nonneg E (evm_StateDB evm)"
    and "0 \<le> ctx_GasPrice V" and "0 \<le> msg_gasPrice msg" and "0 \<le> msg_amount msg"
    and "unat (msg_gasLimit msg) < fuel" and "V1 = evm_over (sdb_ops E) V"
    and "ApplyMessage V1 (evm_loop fuel V1) evm msg gp = Value (st, res)"
  shows "sdb_inv E (evm_StateDB (st_evm st)) \<and> total_supply E (evm_StateDB (st_evm st)) \<le> total_supply E (evm_StateDB evm) \<and>
    nonneg E (evm_StateDB (st_evm st))"
proof -
  have ok: "eth_ok E V (evm_StateDB evm)" using assms(1-4) by (simp add: eth_ok_def sdb_inv_def)
  let ?paid = "st_paid V1 evm msg"
  have "post (eth.settled E V evm msg gp) (ApplyMessage V1 (evm_loop fuel V1) evm msg gp)"
    unfolding assms(8) using assms(4,6,7) eth_st_paid(1)[OF ok assms(4)] by (intro eth.TransitionDb_settled) auto
  then have "eth.settled E V evm msg gp (st, res)" by (simp add: assms(9))
  then have "eth_ok E V (evm_StateDB (st_evm st)) \<and> total_supply E (evm_StateDB (st_evm st)) \<le> total_supply E (evm_StateDB evm)"
    unfolding eth.settled_def prod.case Let_def
    unfolding assms(8)[symmetric]
  proof (elim disjE conjE exE)
    assume "st_evm st = fst (st_funds V1 evm msg)"
    then show ?thesis using eth_st_funds[OF ok assms(4)] assms(8) by simp
  next
    assume "uint (msg_gasLimit msg) * msg_gasPrice msg \<le> snd (st_funds V1 evm msg)" "eth.kept E V ?paid (st_evm st)"
    then show ?thesis using eth_st_paid[OF ok assms(4)] assms(4,5,8) by (auto simp: eth.kept_def eth_moves_def intro: order_trans)
  next
    fix left evm1
    assume "uint (msg_gasLimit msg) * msg_gasPrice msg \<le> snd (st_funds V1 evm msg)" "eth.kept E V ?paid evm1"
      and st: "left \<le> msg_gasLimit msg" "st_evm st = st_repaid V1 msg left evm1"
    then have ok1: "eth_ok E V (evm_StateDB evm1)" and
      "total_supply E (evm_StateDB evm1) \<le> total_supply E (evm_StateDB evm) - uint (msg_gasLimit msg) * msg_gasPrice msg"
      using eth_st_paid[OF ok assms(4)] assms(4,8) by (auto simp: eth.kept_def eth_moves_def)
    then show ?thesis using eth_st_repaid[OF ok1 assms(5) st(1)] st(2) assms(8) by simp
  qed
  then show ?thesis using assms(4) by (simp add: eth_ok_def)
qed

text \<open>
  C2: A transaction moves ether and never makes any: over a database without negative balances, with a price and
  an amount that are not negative, the sum of all balances after a message is applied, with the gas
  bought, the run, the refund and the pay of the miner, is at most what it was, and no balance is negative.
\<close>

theorem transaction_conserves_ether:
  fixes E :: "('d, 'a, 's) sdb_env"
  assumes "sdb_ok E (evm_StateDB evm)" and "revs_ok (evm_StateDB evm)" and "nonneg E (evm_StateDB evm)"
    and "0 \<le> ctx_GasPrice V" and "0 \<le> msg_gasPrice msg" and "0 \<le> msg_amount msg"
    and "unat (msg_gasLimit msg) < fuel" and "V1 = evm_over (sdb_ops E) V"
    and "ApplyMessage V1 (evm_loop fuel V1) evm msg gp = Value (st, res)"
  shows "total_supply E (evm_StateDB (st_evm st)) \<le> total_supply E (evm_StateDB evm) \<and> nonneg E (evm_StateDB (st_evm st))"
  using ApplyMessage_ether[OF assms] by blast

text \<open>
  C39: The nonce of a message is never looked at: applying a message with any other nonce does exactly the same,
  and no message is ever refused because its nonce is too high or too low.
\<close>

theorem nonce_is_not_checked:
  "map_outcome (\<lambda>(st, res). (st_evm st, st_gp st, res)) (ApplyMessage V loop evm (msg\<lparr>msg_nonce := n\<rparr>) gp) =
     map_outcome (\<lambda>(st, res). (st_evm st, st_gp st, res)) (ApplyMessage V loop evm msg gp) \<and>
   (\<nexists>st. ApplyMessage V loop evm msg gp = Value (st, Inl ErrNonceTooHigh) \<or> ApplyMessage V loop evm msg gp = Value (st, Inl ErrNonceTooLow))"
proof
  have "ApplyMessage V loop evm (msg\<lparr>msg_nonce := n\<rparr>) gp = map_outcome (apfst (with_nonce n)) (ApplyMessage V loop evm msg gp)"
    using TransitionDb_nonce[of V loop n "NewStateTransition evm msg gp"]
    by (simp add: ApplyMessage_def with_nonce_def NewStateTransition_def)
  then show "map_outcome (\<lambda>(st, res). (st_evm st, st_gp st, res)) (ApplyMessage V loop evm (msg\<lparr>msg_nonce := n\<rparr>) gp) =
     map_outcome (\<lambda>(st, res). (st_evm st, st_gp st, res)) (ApplyMessage V loop evm msg gp)"
    by (simp add: outcome.map_comp o_def apfst_def map_prod_def case_prod_unfold)
  show "\<nexists>st. ApplyMessage V loop evm msg gp = Value (st, Inl ErrNonceTooHigh) \<or> ApplyMessage V loop evm msg gp = Value (st, Inl ErrNonceTooLow)"
    by (auto simp: ApplyMessage_def TransitionDb_def preCheck_buys obind_def of_opt_def Let_def
        split: prod.splits option.splits sum.splits outcome.splits if_splits)
qed

text \<open>A transfer of 5 that brings just the intrinsic gas.\<close>

definition demo_msg :: message where
  "demo_msg = \<lparr>msg_to = Some 8, msg_from = 7, msg_nonce = 0, msg_amount = 5, msg_gasLimit = 21000, msg_gasPrice = 0, msg_data = [],
     msg_checkNonce = True\<rparr>"

theorem transaction_conserves_ether_witness:
  "\<exists>st ret. ApplyMessage demo_vm (evm_loop 21001 demo_vm) demo_evm demo_msg 50000 = Value (st, Inr (ret, 21000, False)) \<and>
     balance_at demo_env (evm_StateDB (st_evm st)) 8 = 5 \<and>
     total_supply demo_env (evm_StateDB (st_evm st)) \<le> total_supply demo_env (evm_StateDB demo_evm) \<and> nonneg demo_env (evm_StateDB (st_evm st))"
proof -
  have "\<not> (case ApplyMessage demo_vm (evm_loop 21001 demo_vm) demo_evm demo_msg 50000 of
    Value (st, Inr (ret, used, failed)) \<Rightarrow> used \<noteq> 21000 \<or> failed \<or> balance_at demo_env (evm_StateDB (st_evm st)) 8 \<noteq> 5 | _ \<Rightarrow> True)"
    by code_simp
  then obtain st ret where
    r: "ApplyMessage demo_vm (evm_loop 21001 demo_vm) demo_evm demo_msg 50000 = Value (st, Inr (ret, 21000, False))"
    and b: "balance_at demo_env (evm_StateDB (st_evm st)) 8 = 5"
    by (auto split: outcome.splits prod.splits sum.splits)
  have "0 \<le> ctx_GasPrice demo_base" "0 \<le> msg_gasPrice demo_msg" "0 \<le> msg_amount demo_msg" "unat (msg_gasLimit demo_msg) < 21001"
    by (simp_all add: demo_base_def demo_msg_def)
  from transaction_conserves_ether[OF demo_evm_ok demo_nonneg this demo_vm_def r] r b show ?thesis by simp
qed


end
