(* ===== verification/Evm_Arith.thy ===== *)
theory Evm_Arith
  imports Evm_Ops "HOL-Library.Signed_Division"
begin

text \<open>
  The arithmetic instructions work on unbounded integers and reduce; on stack entries that are
  256-bit words they are the operations of those words.
\<close>

unbundle bit_operations_syntax

abbreviation w256 :: "256 word \<Rightarrow> bigint" where
  "w256 \<equiv> uint"

lemma w256_bounds: "0 \<le> w256 x" "w256 x < 2 ^ 256"
  using uint_bounded[of x] by simp_all

lemma U256_uint: "U256 k = w256 (word_of_int k)"
  by (simp add: U256_mod uint_word_of_int)

lemma U256_w256 [simp]: "U256 (w256 x) = w256 x"
  by (simp add: U256_uint)

lemma w256_eq: "0 \<le> k \<Longrightarrow> k < 2 ^ 256 \<Longrightarrow> w256 (word_of_int k) = k"
  by (simp add: uint_word_of_int)

lemma S256_w256: "S256 (w256 x) = sint x"
proof -
  have top: "bit (w256 x) 255 \<longleftrightarrow> 2 ^ 255 \<le> w256 x"
  proof (cases "w256 x < 2 ^ 255")
    case True
    then show ?thesis by (simp add: bit_iff_odd div_pos_pos_trivial)
  next
    case False
    then have "w256 x div 2 ^ 255 = 1"
      using w256_bounds(2)[of x] by (intro int_div_pos_eq[where r = "w256 x - 2 ^ 255"]) auto
    with False show ?thesis by (simp add: bit_iff_odd)
  qed
  have "take_bit 256 (w256 x) = w256 x"
    using w256_bounds[of x] by (simp add: take_bit_eq_mod)
  then show ?thesis
    using top by (simp add: sint_uint signed_take_bit_eq_take_bit_minus S256_def Cmp_def)
qed

lemma w256_eq_0 [simp]: "w256 x = 0 \<longleftrightarrow> x = 0"
  by (simp add: uint_0_iff)

lemma w256_pos [simp]: "0 < w256 x \<longleftrightarrow> x \<noteq> 0"
  using w256_bounds(1)[of x] by (auto simp: less_le)

lemma w256_inj: "w256 x = w256 y \<longleftrightarrow> x = y"
  by (simp add: word_uint_eq_iff)

lemma ring_words:
  "opAdd (w256 x # w256 y # st) = Some (w256 (x + y) # st)" "opSub (w256 x # w256 y # st) = Some (w256 (x - y) # st)"
  "opMul (w256 x # w256 y # st) = Some (w256 (x * y) # st)"
  by (simp_all add: U256_mod uint_word_ariths)

lemma division_words:
  "opDiv (w256 x # w256 y # st) = Some (w256 (x div y) # st)"
  "opMod (w256 x # w256 y # st) = Some ((if y = 0 then 0 else w256 (x mod y)) # st)"
  by (simp_all flip: uint_div_distrib uint_mod_distrib)

lemma opExp_words: "opExp (w256 x # w256 y # st) = Some (w256 (x ^ unat y) # st)"
proof -
  have p: "w256 (x ^ n) = w256 x ^ n mod 2 ^ 256" for n
    by (induction n) (simp_all add: uint_word_ariths mod_mult_right_eq)
  have n: "nat (w256 y) = unat y" by simp
  have e: "fst (Exp (w256 x) (w256 y)) = w256 (x ^ unat y)"
    using Exp_correct[of "w256 y" "w256 x"] w256_bounds(1)[of y] p[of "unat y"] n by simp
  have "y = 0 \<or> y = 1 \<or> 1 < w256 y"
  proof -
    have "w256 y = 0 \<or> w256 y = 1 \<or> 1 < w256 y" using w256_bounds(1)[of y] by linarith
    then show ?thesis using w256_inj[of y 1] by auto
  qed
  then show ?thesis
    using e by (elim disjE) (auto simp: Cmp_def Let_def power_0_left unat_eq_zero)
qed

lemma modular_words:
  "opAddmod (w256 x # w256 y # w256 z # st) = Some ((if z = 0 then 0 else (w256 x + w256 y) mod w256 z) # st)"
  "opMulmod (w256 x # w256 y # w256 z # st) = Some ((if z = 0 then 0 else (w256 x * w256 y) mod w256 z) # st)"
proof -
  have "U256 (k mod w256 z) = k mod w256 z" if "z \<noteq> 0" for k
  proof (rule U256_id)
    have z: "0 < w256 z" using that by simp
    show "0 \<le> k mod w256 z" using z by simp
    show "k mod w256 z < 2 ^ 256" using pos_mod_bound[OF z, of k] w256_bounds(2)[of z] by linarith
  qed
  then show "opAddmod (w256 x # w256 y # w256 z # st) = Some ((if z = 0 then 0 else (w256 x + w256 y) mod w256 z) # st)"
    "opMulmod (w256 x # w256 y # w256 z # st) = Some ((if z = 0 then 0 else (w256 x * w256 y) mod w256 z) # st)"
    by simp_all
qed

lemma comparison_words:
  "opLt (w256 x # w256 y # st) = Some (of_bool (x < y) # st)" "opGt (w256 x # w256 y # st) = Some (of_bool (y < x) # st)"
  "opEq (w256 x # w256 y # st) = Some (of_bool (x = y) # st)" "opIszero (w256 x # st) = Some (of_bool (x = 0) # st)"
  by (simp_all add: word_less_def w256_inj)

text \<open>
  C17: The unsigned instructions are the operations of 256-bit words: sum, difference and product wrap
  around, division and remainder by zero give zero, powers are modulo \<open>2 ^ 256\<close>, and the modular
  sum and product do not wrap before they are reduced.
\<close>

theorem unsigned_arithmetic:
  "opAdd (w256 x # w256 y # st) = Some (w256 (x + y) # st) \<and>
   opSub (w256 x # w256 y # st) = Some (w256 (x - y) # st) \<and>
   opMul (w256 x # w256 y # st) = Some (w256 (x * y) # st) \<and>
   opDiv (w256 x # w256 y # st) = Some (w256 (x div y) # st) \<and>
   opMod (w256 x # w256 y # st) = Some ((if y = 0 then 0 else w256 (x mod y)) # st) \<and>
   opExp (w256 x # w256 y # st) = Some (w256 (x ^ unat y) # st) \<and>
   opAddmod (w256 x # w256 y # w256 z # st) = Some ((if z = 0 then 0 else (w256 x + w256 y) mod w256 z) # st) \<and>
   opMulmod (w256 x # w256 y # w256 z # st) = Some ((if z = 0 then 0 else (w256 x * w256 y) mod w256 z) # st) \<and>
   opLt (w256 x # w256 y # st) = Some (of_bool (x < y) # st) \<and>
   opGt (w256 x # w256 y # st) = Some (of_bool (y < x) # st) \<and>
   opEq (w256 x # w256 y # st) = Some (of_bool (x = y) # st) \<and>
   opIszero (w256 x # st) = Some (of_bool (x = 0) # st)"
  by (intro conjI ring_words division_words opExp_words modular_words comparison_words)

subsection \<open>Signed and bitwise instructions\<close>

lemma signed_division_words:
  "opSdiv (w256 x # w256 y # st) = Some (w256 (word_of_int (sint x sdiv sint y)) # st)"
  "opSmod (w256 x # w256 y # st) = Some ((if y = 0 then 0 else w256 (word_of_int (sint x smod sint y))) # st)"
proof -
  have z: "sint w = 0 \<longleftrightarrow> w = 0" for w :: "256 word"
    using w256_bounds[of w] by (auto simp: S256_w256[symmetric] S256_def Cmp_def)
  show "opSdiv (w256 x # w256 y # st) = Some (w256 (word_of_int (sint x sdiv sint y)) # st)"
    by (auto simp: S256_w256 Let_def signed_divide_int_def U256_uint z sgn_if)
  show "opSmod (w256 x # w256 y # st) = Some ((if y = 0 then 0 else w256 (word_of_int (sint x smod sint y))) # st)"
    by (auto simp: S256_w256 Let_def signed_modulo_int_def U256_uint z sgn_if)
qed

lemma signed_comparison_words:
  "opSlt (w256 x # w256 y # st) = Some (of_bool (x <s y) # st)" "opSgt (w256 x # w256 y # st) = Some (of_bool (y <s x) # st)"
proof -
  have "opSlt (a # b # st) = Some (of_bool (S256 a < S256 b) # st) \<and> opSgt (a # b # st) = Some (of_bool (S256 b < S256 a) # st)"
    if "0 \<le> a" "a < 2 ^ 256" "0 \<le> b" "b < 2 ^ 256" for a b
    using that by (simp add: S256_def Cmp_def Let_def)
  from this[OF w256_bounds w256_bounds, of x y]
  show "opSlt (w256 x # w256 y # st) = Some (of_bool (x <s y) # st)" "opSgt (w256 x # w256 y # st) = Some (of_bool (y <s x) # st)"
    by (simp_all add: word_sless_alt S256_w256)
qed

lemma bitwise_words:
  "opAnd (w256 x # w256 y # st) = Some (w256 (x AND y) # st)" "opOr (w256 x # w256 y # st) = Some (w256 (x OR y) # st)"
  "opXor (w256 x # w256 y # st) = Some (w256 (x XOR y) # st)" "opNot (w256 x # st) = Some (w256 (NOT x) # st)"
proof -
  have "word_of_int (NOT (w256 x)) = NOT x" by (rule bit_word_eqI) (simp add: bit_simps)
  then show "opAnd (w256 x # w256 y # st) = Some (w256 (x AND y) # st)" "opOr (w256 x # w256 y # st) = Some (w256 (x OR y) # st)"
    "opXor (w256 x # w256 y # st) = Some (w256 (x XOR y) # st)" "opNot (w256 x # st) = Some (w256 (NOT x) # st)"
    by (simp_all add: uint_and uint_or uint_xor U256_uint)
qed

lemma shift_amount:
  assumes "w256 s < 256"
  shows "unat (Uint64 (w256 s)) = unat s"
proof -
  have "uint (Uint64 (w256 s)) = w256 s"
    using Uint64_small[of "w256 s"] w256_bounds(1)[of s] assms by simp
  then show ?thesis by (simp only: unat_eq_nat_uint)
qed

lemma unat_w256: "w256 s = int (unat s)"
  by (simp only: uint_nat)

lemma wide_shifts:
  fixes x :: "256 word"
  assumes "256 \<le> n"
  shows "push_bit n x = 0" "drop_bit n x = 0" "signed_drop_bit n x = word_of_int (if 0 \<le> sint x then 0 else - 1)"
proof -
  show "push_bit n x = 0" "drop_bit n x = 0"
    using assms by (auto intro!: bit_word_eqI simp: bit_simps)
  have n: "(2 :: int) ^ 256 \<le> 2 ^ n" using assms by (simp only: power_increasing_iff)
  have "- (2 ^ 256) \<le> S256 a \<and> S256 a < 2 ^ 256" if "0 \<le> a" "a < 2 ^ 256" for a
    using that by (simp add: S256_def Cmp_def)
  from this[OF w256_bounds, of x] have b: "- (2 ^ 256) \<le> sint x" "sint x < 2 ^ 256"
    by (simp_all only: S256_w256)
  have "sint x div 2 ^ n = (if 0 \<le> sint x then 0 else - 1)"
  proof (cases "0 \<le> sint x")
    case True
    then show ?thesis using b(2) n by (simp only: if_True) (rule div_pos_pos_trivial, linarith+)
  next
    case False
    have "(sint x + 2 ^ n) div 2 ^ n = 0"
      using b(1) n False by (intro div_pos_pos_trivial) linarith+
    moreover have "(sint x + 2 ^ n) div 2 ^ n = sint x div 2 ^ n + 1" by (rule div_add_self2) simp
    ultimately show ?thesis using False by simp
  qed
  then have "sint (signed_drop_bit n x) = (if 0 \<le> sint x then 0 else - 1)"
    by (simp only: sint_signed_drop_bit_eq drop_bit_eq_div)
  then have "word_of_int (sint (signed_drop_bit n x)) = (word_of_int (if 0 \<le> sint x then 0 else - 1) :: 256 word)"
    by (rule arg_cong)
  then show "signed_drop_bit n x = word_of_int (if 0 \<le> sint x then 0 else - 1)" by simp
qed

lemma shift_words:
  "opSHL (w256 s # w256 x # st) = Some (w256 (push_bit (unat s) x) # st)"
  "opSHR (w256 s # w256 x # st) = Some (w256 (drop_bit (unat s) x) # st)"
  "opSAR (w256 s # w256 x # st) = Some (w256 (signed_drop_bit (unat s) x) # st)"
proof -
  have l: "word_of_int (push_bit n (w256 x)) = push_bit n x" "word_of_int (drop_bit n (w256 x)) = drop_bit n x" for n
    by (rule bit_word_eqI; simp add: bit_simps)+
  have r: "word_of_int (drop_bit n (sint x)) = signed_drop_bit n x" for n
    by (simp flip: sint_signed_drop_bit_eq)
  have s: "256 \<le> w256 s \<Longrightarrow> 256 \<le> unat s" using unat_w256[of s] by linarith
  show "opSHL (w256 s # w256 x # st) = Some (w256 (push_bit (unat s) x) # st)"
    "opSHR (w256 s # w256 x # st) = Some (w256 (drop_bit (unat s) x) # st)"
    "opSAR (w256 s # w256 x # st) = Some (w256 (signed_drop_bit (unat s) x) # st)"
    using s by (cases "256 \<le> w256 s"; simp add: Let_def shift_amount S256_w256 U256_uint[of "push_bit _ _"] U256_uint[of "drop_bit _ _"] U256_uint[of 0] U256_uint[of "- 1"] l r wide_shifts)+
qed

lemma opByte_words:
  "opByte (w256 i # w256 x # st) = Some ((if unat i < 32 then w256 (take_bit 8 (drop_bit (8 * (31 - unat i)) x)) else 0) # st)"
proof -
  have b: "uint (Byte (w256 x) 32 n) = w256 (take_bit 8 (drop_bit (8 * (31 - n)) x))" if "n < 32" for n
  proof -
    have "w256 (take_bit 8 (drop_bit (8 * (31 - n)) x)) = take_bit 8 (drop_bit (8 * (31 - n)) (w256 x))"
      by (rule bit_eqI) (auto simp: bit_simps)
    also have "\<dots> = w256 x div 2 ^ (8 * (31 - n)) mod 2 ^ 8"
      by (simp only: drop_bit_eq_div take_bit_eq_mod)
    also have "\<dots> = uint (bigEndianByteAt (w256 x) (31 - n))"
      by (simp add: bigEndianByteAt_value w256_bounds power_mult)
    finally show ?thesis using that by (simp add: Byte_def)
  qed
  have "w256 i < 32 \<longleftrightarrow> unat i < 32" using unat_w256[of i] by linarith
  moreover have "nat (w256 i) = unat i" by (simp only: unat_eq_nat_uint)
  ultimately show ?thesis using b[of "unat i"] by simp
qed

lemma opSignExtend_words:
  "opSignExtend (w256 k # w256 x # st) = Some (w256 (if unat k < 31 then signed_take_bit (8 * unat k + 7) x else x) # st)"
proof (cases "unat k < 31")
  case True
  let ?b = "8 * unat k + 7"
  have m: "2 ^ ?b - 1 = (mask ?b :: int)" by (simp add: mask_eq_exp_minus_1)
  have k: "w256 k < 31" using True unat_w256[of k] by linarith
  then have b: "unat (Uint64 (w256 k)) * 8 + 7 = ?b" using shift_amount[of k] by simp
  have "word_of_int (w256 x OR NOT (mask ?b)) = signed_take_bit ?b x" if "bit x ?b"
    using that True by (intro bit_word_eqI) (auto simp: bit_simps min_def)
  moreover have "word_of_int (w256 x AND mask ?b) = signed_take_bit ?b x" if "\<not> bit x ?b"
    using that True by (intro bit_word_eqI) (auto simp: bit_simps min_def)
  ultimately show ?thesis
    using True k by (simp add: m b Let_def U256_uint[of "_ OR _"] U256_uint[of "_ AND _"] bit_uint_iff)
next
  case False
  then have "\<not> w256 k < 31" using unat_w256[of k] by linarith
  with False show ?thesis by simp
qed

text \<open>
  C18: The signed and bitwise instructions are those of two's complement 256-bit words: division
  truncates, comparisons are signed, shifts by 256 and more shift everything out, \<open>BYTE\<close> counts from
  the most significant byte and \<open>SIGNEXTEND\<close> extends from the given byte.
\<close>

theorem signed_and_bitwise:
  "opSdiv (w256 x # w256 y # st) = Some (w256 (word_of_int (sint x sdiv sint y)) # st) \<and>
   opSmod (w256 x # w256 y # st) = Some ((if y = 0 then 0 else w256 (word_of_int (sint x smod sint y))) # st) \<and>
   opSlt (w256 x # w256 y # st) = Some (of_bool (x <s y) # st) \<and>
   opSgt (w256 x # w256 y # st) = Some (of_bool (y <s x) # st) \<and>
   opAnd (w256 x # w256 y # st) = Some (w256 (x AND y) # st) \<and>
   opOr (w256 x # w256 y # st) = Some (w256 (x OR y) # st) \<and>
   opXor (w256 x # w256 y # st) = Some (w256 (x XOR y) # st) \<and>
   opNot (w256 x # st) = Some (w256 (NOT x) # st) \<and>
   opSHL (w256 y # w256 x # st) = Some (w256 (push_bit (unat y) x) # st) \<and>
   opSHR (w256 y # w256 x # st) = Some (w256 (drop_bit (unat y) x) # st) \<and>
   opSAR (w256 y # w256 x # st) = Some (w256 (signed_drop_bit (unat y) x) # st) \<and>
   opByte (w256 y # w256 x # st) = Some ((if unat y < 32 then w256 (take_bit 8 (drop_bit (8 * (31 - unat y)) x)) else 0) # st) \<and>
   opSignExtend (w256 y # w256 x # st) = Some (w256 (if unat y < 31 then signed_take_bit (8 * unat y + 7) x else x) # st)"
  by (intro conjI signed_division_words signed_comparison_words bitwise_words shift_words opByte_words opSignExtend_words)

end
