(* ===== verification/Evm_Jumpdest.thy ===== *)
theory Evm_Jumpdest
  imports Evm_Data
begin

text \<open>
  The jump destination analysis: the bitmap that \<open>codeBitmap\<close> builds by eights tells the instructions
  of a code from the operands of its PUSHes, and \<open>validJumpdest\<close> answers exactly, cached or not.
\<close>

unbundle bit_operations_syntax

subsection \<open>Reading the code instruction by instruction\<close>

definition push_width :: "byte \<Rightarrow> nat" where
  "push_width op = (if is_PUSH op then unat (op - 0x60) + 1 else 0)"

function instr_starts :: "bytes \<Rightarrow> nat \<Rightarrow> nat list" where
  "instr_starts code pc =
     (if pc < length code then pc # instr_starts code (pc + 1 + push_width (code ! pc)) else [])"
  by pat_completeness auto
termination
  by (relation "measure (\<lambda>(c, pc). length c - pc)") auto

declare instr_starts.simps [simp del]

lemma push_width_le: "push_width op \<le> 32"
  by (auto simp: push_width_def is_PUSH_def word_le_nat_alt unat_sub)

subsection \<open>Bits of the map\<close>

definition marked :: "bitvec \<Rightarrow> nat \<Rightarrow> bool" where
  "marked bits p \<longleftrightarrow> bit (bits ! (p div 8)) (7 - p mod 8)"

lemma bit_0x80: "bit (0x80 :: byte) n \<longleftrightarrow> n = 7"
proof -
  have "(0x80 :: byte) = push_bit 7 1" by (simp add: push_bit_eq_mult)
  show ?thesis unfolding \<open>(0x80 :: byte) = push_bit 7 1\<close> bit_push_bit_iff bit_1_iff by auto
qed

lemma bit_0xFF: "bit (0xFF :: byte) n \<longleftrightarrow> n < 8"
proof -
  have "(0xFF :: byte) = - 1" by simp
  show ?thesis unfolding \<open>(0xFF :: byte) = - 1\<close> bit_minus_1_iff by simp
qed

lemma codeSegment_marked: "p div 8 < length bits \<Longrightarrow> codeSegment bits p = Some (\<not> marked bits p)"
proof -
  have "(b AND drop_bit (p mod 8) 0x80 = 0) = (\<not> bit b (7 - p mod 8))" for b :: byte
  proof -
    have "bit (b AND drop_bit (p mod 8) 0x80) n \<longleftrightarrow> n = 7 - p mod 8 \<and> bit b n" for n
      by (auto simp only: bit_and_iff bit_drop_bit_eq comp_apply bit_0x80)
    then show ?thesis by (metis bit_0_eq bot_apply bot_bool_def bit_word_eqI)
  qed
  then show "p div 8 < length bits \<Longrightarrow> ?thesis" by (simp add: codeSegment_def marked_def)
qed

lemma bitvec_or_marked:
  assumes "i < length bits"
  shows "\<exists>b. bitvec_or bits i v = Some b \<and> length b = length bits \<and>
    (\<forall>p. marked b p \<longleftrightarrow> marked bits p \<or> p div 8 = i \<and> bit v (7 - p mod 8))"
  using assms by (auto simp: bitvec_or_def marked_def nth_list_update bit_simps)

lemma same_byte:
  fixes q r Q R :: nat
  assumes "r < 8" and "R < 8"
  shows "q = Q \<and> R + (7 - r) = 7 \<longleftrightarrow> 8 * q + r = 8 * Q + R"
    and "q = Q \<and> R + (7 - r) < 8 \<or> q = Q + 1 \<and> \<not> R + (7 - r) < 8 \<longleftrightarrow> 8 * Q + R \<le> 8 * q + r \<and> 8 * q + r < 8 * Q + R + 8"
proof -
  have e: "R + (7 - r) = 7 \<longleftrightarrow> R = r" "R + (7 - r) < 8 \<longleftrightarrow> R \<le> r" using assms by auto
  consider "q + 1 \<le> Q" | "q = Q" | "q = Q + 1" | "Q + 2 \<le> q" by linarith
  then show "q = Q \<and> R + (7 - r) = 7 \<longleftrightarrow> 8 * q + r = 8 * Q + R"
    "q = Q \<and> R + (7 - r) < 8 \<or> q = Q + 1 \<and> \<not> R + (7 - r) < 8 \<longleftrightarrow> 8 * Q + R \<le> 8 * q + r \<and> 8 * q + r < 8 * Q + R + 8"
    unfolding e using assms by (cases; linarith)+
qed

lemma same_byte_div:
  fixes p pos :: nat
  shows "p div 8 = pos div 8 \<and> pos mod 8 + (7 - p mod 8) = 7 \<longleftrightarrow> p = pos"
    and "p div 8 = pos div 8 \<and> pos mod 8 + (7 - p mod 8) < 8 \<or> p div 8 = pos div 8 + 1 \<and> \<not> pos mod 8 + (7 - p mod 8) < 8 \<longleftrightarrow>
      pos \<le> p \<and> p < pos + 8"
proof -
  have "p mod 8 < 8" "pos mod 8 < 8" "8 * (p div 8) + p mod 8 = p" "8 * (pos div 8) + pos mod 8 = pos" by simp_all
  with same_byte[OF this(1,2), of "p div 8" "pos div 8"]
  show "p div 8 = pos div 8 \<and> pos mod 8 + (7 - p mod 8) = 7 \<longleftrightarrow> p = pos"
    "p div 8 = pos div 8 \<and> pos mod 8 + (7 - p mod 8) < 8 \<or> p div 8 = pos div 8 + 1 \<and> \<not> pos mod 8 + (7 - p mod 8) < 8 \<longleftrightarrow>
      pos \<le> p \<and> p < pos + 8"
    by (simp_all only:)
qed

lemma bitvec_set_marked:
  assumes "pos div 8 < length bits"
  shows "\<exists>b. bitvec_set bits pos = Some b \<and> length b = length bits \<and> (\<forall>p. marked b p \<longleftrightarrow> marked bits p \<or> p = pos)"
proof -
  have "p div 8 = pos div 8 \<and> pos mod 8 + (7 - p mod 8) = 7 \<longleftrightarrow> p = pos" for p
    by (rule same_byte_div)
  then show ?thesis
    using bitvec_or_marked[OF assms, of "drop_bit (pos mod 8) 0x80"]
    by (simp only: bitvec_set_def bit_drop_bit_eq comp_apply bit_0x80)
qed

lemma bitvec_set8_marked:
  assumes "pos div 8 + 1 < length bits"
  shows "\<exists>b. bitvec_set8 bits pos = Some b \<and> length b = length bits \<and>
    (\<forall>p. marked b p \<longleftrightarrow> marked bits p \<or> pos \<le> p \<and> p < pos + 8)"
proof -
  obtain b1 where b1: "bitvec_or bits (pos div 8) (drop_bit (pos mod 8) 0xFF) = Some b1" "length b1 = length bits"
    "\<And>p. marked b1 p \<longleftrightarrow> marked bits p \<or> p div 8 = pos div 8 \<and> pos mod 8 + (7 - p mod 8) < 8"
    using bitvec_or_marked[of "pos div 8" bits "drop_bit (pos mod 8) 0xFF"] add_lessD1[OF assms]
    by (auto simp only: bit_drop_bit_eq comp_apply bit_0xFF)
  have "pos div 8 + 1 < length b1" using assms b1(2) by simp
  have possible: "possible_bit TYPE(8 word) (7 - k)" for k by simp
  from bitvec_or_marked[OF \<open>pos div 8 + 1 < length b1\<close>, of "NOT (drop_bit (pos mod 8) 0xFF)"]
  obtain b2 where b2: "bitvec_or b1 (pos div 8 + 1) (NOT (drop_bit (pos mod 8) 0xFF)) = Some b2" "length b2 = length b1"
    "\<And>p. marked b2 p \<longleftrightarrow> marked b1 p \<or> p div 8 = pos div 8 + 1 \<and> \<not> pos mod 8 + (7 - p mod 8) < 8"
    by (auto simp only: possible simp_thms bit_not_iff bit_drop_bit_eq comp_apply bit_0xFF)
  have "p div 8 = pos div 8 \<and> pos mod 8 + (7 - p mod 8) < 8 \<or> p div 8 = pos div 8 + 1 \<and> \<not> pos mod 8 + (7 - p mod 8) < 8 \<longleftrightarrow>
      pos \<le> p \<and> p < pos + 8" for p
    by (rule same_byte_div)
  then show ?thesis using b1 b2 by (auto simp: bitvec_set8_def)
qed

lemma set_loop_marked:
  assumes "(pc + n) div 8 < length bits"
  shows "\<exists>b. set_loop n bits pc = Some (b, pc + n) \<and> length b = length bits \<and>
    (\<forall>p. marked b p \<longleftrightarrow> marked bits p \<or> pc \<le> p \<and> p < pc + n)"
  using assms
proof (induction n arbitrary: bits pc)
  case (Suc n)
  have "pc div 8 < length bits" using Suc.prems by (meson div_le_mono le_add1 le_less_trans)
  then obtain b where b: "bitvec_set bits pc = Some b" "length b = length bits" "\<And>p. marked b p \<longleftrightarrow> marked bits p \<or> p = pc"
    using bitvec_set_marked by blast
  have "(pc + 1 + n) div 8 < length b" using Suc.prems b(2) by simp
  from Suc.IH[OF this] b show ?case by fastforce
qed auto

lemma set8_loop_marked:
  assumes "(pc + n) div 8 < length bits"
  shows "\<exists>b. set8_loop n bits pc = Some (b, pc + n) \<and> length b = length bits \<and>
    (\<forall>p. marked b p \<longleftrightarrow> marked bits p \<or> pc \<le> p \<and> p < pc + n)"
  using assms
proof (induction n bits pc rule: set8_loop.induct)
  case (1 n bits pc)
  show ?case
  proof (cases "8 \<le> n")
    case True
    have "pc div 8 + 1 = (pc + 8) div 8" by simp
    also have "\<dots> \<le> (pc + n) div 8" using True by (intro div_le_mono) simp
    finally have "pc div 8 + 1 < length bits" using "1.prems" by linarith
    then obtain b where b: "bitvec_set8 bits pc = Some b" "length b = length bits"
      "\<And>p. marked b p \<longleftrightarrow> marked bits p \<or> pc \<le> p \<and> p < pc + 8"
      using bitvec_set8_marked by blast
    have "(pc + 8 + (n - 8)) div 8 < length b" using "1.prems" b(2) True by simp
    from "1.IH"[OF True b(1) this] obtain b' where b': "set8_loop (n - 8) b (pc + 8) = Some (b', pc + 8 + (n - 8))"
      "length b' = length b" "\<And>p. marked b' p \<longleftrightarrow> marked b p \<or> pc + 8 \<le> p \<and> p < pc + 8 + (n - 8)" by blast
    have "marked b' p \<longleftrightarrow> marked bits p \<or> pc \<le> p \<and> p < pc + n" for p
      using b(3) b'(3) True by auto
    then show ?thesis using True b b' by (simp add: set8_loop.simps[of n])
  next
    case False
    then show ?thesis using set_loop_marked[OF "1.prems"] by (simp add: set8_loop.simps[of n])
  qed
qed

lemma starts_ge: "p \<in> set (instr_starts code pc) \<Longrightarrow> pc \<le> p"
proof (induction code pc rule: instr_starts.induct)
  case (1 code pc)
  then show ?case by (subst (asm) instr_starts.simps) (auto split: if_splits)
qed

lemma codeBitmap_loop_marked:
  assumes "length bits = length code div 8 + 5" and "pc \<le> length code + 32"
  shows "\<exists>b. codeBitmap_loop code bits pc = Some b \<and> length b = length bits \<and>
    (\<forall>p. p < length code \<longrightarrow> marked b p = (marked bits p \<or> pc \<le> p \<and> p \<notin> set (instr_starts code pc)))"
  using assms
proof (induction code bits pc rule: codeBitmap_loop.induct)
  case (1 code bits pc)
  show ?case
  proof (cases "pc < length code")
    case False
    then show ?thesis by (auto simp: codeBitmap_loop.simps[of code bits pc])
  next
    case pc: True
    let ?n = "push_width (code ! pc)"
    have starts: "instr_starts code pc = pc # instr_starts code (pc + 1 + ?n)"
      using pc by (simp add: instr_starts.simps[of code pc])
    show ?thesis
    proof (cases "is_PUSH (code ! pc)")
      case True
      then have n: "?n = unat (code ! pc - 0x60) + 1" by (simp add: push_width_def)
      have "(pc + 1 + ?n) div 8 \<le> (length code + 32) div 8"
        using pc push_width_le[of "code ! pc"] by (intro div_le_mono) linarith
      then have "(pc + 1 + ?n) div 8 < length bits" using "1.prems"(1) by simp
      then obtain b where b: "set8_loop ?n bits (pc + 1) = Some (b, pc + 1 + ?n)" "length b = length bits"
        "\<And>p. marked b p \<longleftrightarrow> marked bits p \<or> pc + 1 \<le> p \<and> p < pc + 1 + ?n"
        using set8_loop_marked by blast
      have "pc + 1 + ?n \<le> length code + 32" using pc push_width_le[of "code ! pc"] by linarith
      then obtain b' where b': "codeBitmap_loop code b (pc + 1 + ?n) = Some b'" "length b' = length b"
        "\<And>p. p < length code \<Longrightarrow> marked b' p = (marked b p \<or> pc + 1 + ?n \<le> p \<and> p \<notin> set (instr_starts code (pc + 1 + ?n)))"
        using "1.IH"(1)[OF pc refl True b(1)[unfolded n] refl] b(2) "1.prems"(1) unfolding n by auto
      have "codeBitmap_loop code bits pc = Some b'"
        unfolding codeBitmap_loop.simps[of code bits pc] Let_def n[symmetric]
        by (simp only: pc True b(1) b'(1) if_True option.case prod.case)
      moreover have "marked b' p = (marked bits p \<or> pc \<le> p \<and> p \<notin> set (instr_starts code pc))" if "p < length code" for p
        unfolding b'(3)[OF that] b(3) starts list.set insert_iff using starts_ge[of p code "pc + 1 + ?n"] by linarith
      ultimately show ?thesis unfolding b(2)[symmetric] b'(2)[symmetric] by blast
    next
      case False
      then have n: "?n = 0" by (simp add: push_width_def)
      obtain b where b: "codeBitmap_loop code bits (pc + 1) = Some b" "length b = length bits"
        "\<And>p. p < length code \<Longrightarrow> marked b p = (marked bits p \<or> pc + 1 \<le> p \<and> p \<notin> set (instr_starts code (pc + 1)))"
        using "1.IH"(2)[OF pc refl False] "1.prems" pc by auto
      have "codeBitmap_loop code bits pc = Some b"
        unfolding codeBitmap_loop.simps[of code bits pc] Let_def by (simp only: pc False b(1) if_True if_False)
      moreover have "marked b p = (marked bits p \<or> pc \<le> p \<and> p \<notin> set (instr_starts code pc))" if "p < length code" for p
        unfolding b(3)[OF that] starts n list.set insert_iff using starts_ge[of p code "pc + 1"] by auto
      ultimately show ?thesis using b(2) by blast
    qed
  qed
qed

lemma codeBitmap_exact:
  "\<exists>bits. codeBitmap code = Some bits \<and> (\<forall>p. p < length code \<longrightarrow> codeSegment bits p = Some (p \<in> set (instr_starts code 0)))"
proof -
  let ?bits = "replicate (length code div 8 + 1 + 4) 0 :: bitvec"
  have len: "length ?bits = length code div 8 + 5" by simp
  obtain b where b: "codeBitmap code = Some b" "length b = length ?bits"
    "\<And>p. p < length code \<Longrightarrow> marked b p = (marked ?bits p \<or> p \<notin> set (instr_starts code 0))"
    using codeBitmap_loop_marked[OF len, of 0] unfolding codeBitmap_def by blast
  have "codeSegment b p = Some (p \<in> set (instr_starts code 0))" if "p < length code" for p
  proof -
    have p: "p div 8 < length code div 8 + 5" using that div_le_mono[of p "length code" 8] by linarith
    then have "\<not> marked ?bits p" unfolding marked_def by (simp only: nth_replicate len[symmetric] length_replicate bit_0_eq) simp
    then show ?thesis using b that p len codeSegment_marked[of p b] by simp
  qed
  with b(1) show ?thesis by blast
qed

subsection \<open>The cache\<close>

text \<open>An analysis on record under the hash of a code is the analysis of that code.\<close>

definition analysed :: "(hash, bitvec) gomap \<Rightarrow> Contract \<Rightarrow> bool" where
  "analysed jumpdests c \<longleftrightarrow>
     (\<forall>a. gm_get jumpdests (c_CodeHash c) = Some a \<and> c_CodeHash c \<noteq> 0 \<longrightarrow> codeBitmap (c_Code c) = Some a) \<and>
     (\<forall>a. c_analysis c = Some a \<longrightarrow> codeBitmap (c_Code c) = Some a)"

lemma BitLen_small: "0 \<le> d \<Longrightarrow> BitLen d < 63 \<Longrightarrow> unat (Uint64 d) = nat d"
proof -
  assume "0 \<le> d" and "BitLen d < 63"
  then have "nat d < 2 ^ 62" using nat_bitlen_le[of "nat d" 62] by (simp add: BitLen_def)
  then have "uint (Uint64 d) = d" using \<open>0 \<le> d\<close> Uint64_small[of d] by simp
  then show ?thesis by (simp only: unat_eq_nat_uint)
qed

lemma BitLen_large: "0 \<le> d \<Longrightarrow> \<not> BitLen d < 63 \<Longrightarrow> 2 ^ 62 \<le> d"
  using nat_bitlen_le[of "nat d" 62] by (simp add: BitLen_def)

text \<open>
  C16: A jump destination is valid exactly when it is the position of a JUMPDEST that is an
  instruction, not a byte in the operand of a PUSH; the analysis never reads or writes outside its
  bitmap, and an answer from the cache is the same as a new analysis.
\<close>

theorem validJumpdest_exact:
  assumes "analysed jumpdests c" and "0 \<le> dest" and "length (c_Code c) \<le> 2 ^ 62"
  shows "\<exists>jumpdests' c'. validJumpdest jumpdests c dest =
      Some (jumpdests', c', dest < int (length (c_Code c)) \<and> c_Code c ! nat dest = JUMPDEST \<and> nat dest \<in> set (instr_starts (c_Code c) 0)) \<and>
    analysed jumpdests' c' \<and> c_Code c' = c_Code c \<and> c_CodeHash c' = c_CodeHash c"
proof -
  obtain bits where bits: "codeBitmap (c_Code c) = Some bits"
    "\<And>p. p < length (c_Code c) \<Longrightarrow> codeSegment bits p = Some (p \<in> set (instr_starts (c_Code c) 0))"
    using codeBitmap_exact by blast
  show ?thesis
  proof (cases "BitLen dest < 63 \<and> nat dest < length (c_Code c)")
    case True
    then have d: "unat (Uint64 dest) = nat dest" "dest < int (length (c_Code c))" using BitLen_small assms(2) by auto
    show ?thesis
      using True d bits assms(1)
      by (auto simp: validJumpdest_def analysed_def Let_def gm_get_set split: option.splits)
  next
    case False
    have "\<not> dest < int (length (c_Code c)) \<and> (63 \<le> BitLen dest \<or> length (c_Code c) \<le> unat (Uint64 dest))"
    proof (cases "BitLen dest < 63")
      case True
      then show ?thesis using False assms(2) BitLen_small by auto
    next
      case False
      then show ?thesis using BitLen_large[OF assms(2)] assms(3) by simp
    qed
    then show ?thesis using assms(1) by (auto simp: validJumpdest_def Let_def)
  qed
qed

text \<open>\<open>PUSH1 0x5b; JUMPDEST\<close>: position 2 is a destination, position 1 is not.\<close>

definition demo_contract :: Contract where
  "demo_contract = (NewContract (AccountRef 7) 9 0 100)\<lparr>c_Code := [0x60, 0x5b, 0x5b]\<rparr>"

theorem validJumpdest_exact_witness:
  "(\<exists>j c. validJumpdest [] demo_contract 2 = Some (j, c, True)) \<and> (\<exists>j c. validJumpdest [] demo_contract 1 = Some (j, c, False))"
proof -
  have ok: "analysed [] demo_contract" "length (c_Code demo_contract) \<le> 2 ^ 62"
    by (simp_all add: analysed_def demo_contract_def NewContract_def)
  have starts: "instr_starts (c_Code demo_contract) 0 = [0, 2]"
    by code_simp
  show ?thesis
    using validJumpdest_exact[OF ok(1) _ ok(2), of 2] validJumpdest_exact[OF ok(1) _ ok(2), of 1]
    unfolding starts by (auto simp: demo_contract_def)
qed

end
