(* ===== verification/Evm_Memory.thy ===== *)
theory Evm_Memory
  imports Evm_Gas
begin

text \<open>
  The price of memory: the fee of an expansion is the difference of a quadratic total, so the fees
  of a frame add up to the total of its final size.
\<close>

definition memory_total :: "nat \<Rightarrow> nat" where
  "memory_total words = 3 * words + words * words div 512"

definition mem_words :: "Memory \<Rightarrow> nat" where
  "mem_words m = length (mem_store m) div 32"

text \<open>A memory of whole words whose recorded cost is the total of its size.\<close>

definition mem_priced :: "Memory \<Rightarrow> bool" where
  "mem_priced m \<longleftrightarrow> length (mem_store m) = 32 * mem_words m \<and> mem_words m < 2 ^ 32 \<and> unat (lastGasCost m) = memory_total (mem_words m)"

lemma memory_total_mono: "a \<le> b \<Longrightarrow> memory_total a \<le> memory_total b"
  unfolding memory_total_def by (intro add_mono div_le_mono mult_le_mono) simp_all

lemma memory_total_bound: "w < 2 ^ 32 \<Longrightarrow> memory_total w < 2 ^ 64"
proof -
  assume "w < 2 ^ 32"
  then have w: "w \<le> 2 ^ 32 - 1" by simp
  have "memory_total w \<le> memory_total (2 ^ 32 - 1)" using w by (rule memory_total_mono)
  also have "\<dots> < 2 ^ 64" by (simp add: memory_total_def)
  finally show ?thesis .
qed

lemma toWordSize_small:
  assumes "unat sz \<le> 2 ^ 63"
  shows "unat (toWordSize sz) = (unat sz + 31) div 32"
proof -
  have "\<not> sz > max_u64 - 31" using assms by (simp add: word_less_nat_alt unat_sub)
  moreover have "unat (sz + 31) = unat sz + 31" using assms by (simp add: unat_word_ariths)
  ultimately show ?thesis by (simp add: toWordSize_def unat_div)
qed

lemma memory_fee_words:
  assumes "unat w < 2 ^ 32"
  shows "unat (w * MemoryGas + w * w div QuadCoeffDiv) = memory_total (unat w)"
proof -
  have "unat w * unat w \<le> (2 ^ 32 - 1) * (2 ^ 32 - 1)" using assms by (intro mult_le_mono) simp_all
  then have "unat (w * w) = unat w * unat w" by (simp add: unat_word_ariths)
  moreover have "unat (w * 3) = 3 * unat w" using assms by (simp add: unat_word_ariths)
  ultimately show ?thesis
    using memory_total_bound[OF assms] by (simp add: unat_word_ariths unat_div memory_total_def)
qed

text \<open>
  C27: Up to \<open>2 ^ 37 - 32\<close> bytes the price of memory is exact: nothing overflows, the fee is the total
  of the new size less the total of the old one, and growing the memory as the interpreter does keeps
  the recorded total right.
\<close>

theorem memoryGasCost_exact:
  assumes "mem_priced m" and "unat newMemSize \<le> 0x1fffffffe0"
  shows "\<exists>m' fee. memoryGasCost m newMemSize = (m', Inr fee) \<and>
    unat fee = memory_total (max (mem_words m) ((unat newMemSize + 31) div 32)) - memory_total (mem_words m) \<and>
    mem_priced (mem_Resize m' (toWordSize newMemSize * 32)) \<and>
    mem_words (mem_Resize m' (toWordSize newMemSize * 32)) = max (mem_words m) ((unat newMemSize + 31) div 32)"
proof -
  let ?w = "toWordSize newMemSize" and ?n = "(unat newMemSize + 31) div 32"
  have w: "unat ?w = ?n" using assms(2) by (intro toWordSize_small) simp
  have n: "?n < 2 ^ 32" using div_le_mono[of "unat newMemSize + 31" "0x1fffffffe0 + 31" 32] assms(2) by simp
  have b: "unat (?w * 32) = 32 * ?n" using w n by (simp add: unat_word_ariths)
  have t: "unat (?w * MemoryGas + ?w * ?w div QuadCoeffDiv) = memory_total ?n"
    using memory_fee_words[of ?w] w n by simp
  have l: "length (mem_store m) = 32 * mem_words m" "unat (lastGasCost m) = memory_total (mem_words m)" "mem_words m < 2 ^ 32"
    using assms(1) by (auto simp: mem_priced_def)
  show ?thesis
  proof (cases "mem_words m < ?n")
    case True
    let ?m = "m\<lparr>lastGasCost := ?w * MemoryGas + ?w * ?w div QuadCoeffDiv\<rparr>"
    have "0 < unat newMemSize" using True by (auto intro: ccontr)
    then have ne: "newMemSize \<noteq> 0" by auto
    have small: "\<not> newMemSize > 0xffffffffe0" using assms(2) by (simp add: word_less_nat_alt)
    have g: "memoryGasCost m newMemSize = (?m, Inr (?w * MemoryGas + ?w * ?w div QuadCoeffDiv - lastGasCost m))"
      using ne small True b l(1) by (simp add: memoryGasCost_def Let_def)
    have "memory_total (mem_words m) \<le> memory_total ?n" using True by (intro memory_total_mono) simp
    then have "unat (?w * MemoryGas + ?w * ?w div QuadCoeffDiv - lastGasCost m) = memory_total ?n - memory_total (mem_words m)"
      using t l(2) by (subst unat_sub) (simp_all add: word_le_nat_alt)
    moreover have "length (mem_store (mem_Resize ?m (?w * 32))) = 32 * ?n" "lastGasCost (mem_Resize ?m (?w * 32)) = lastGasCost ?m"
      using True b l(1) by (simp_all add: mem_Resize_def)
    then have "mem_words (mem_Resize ?m (?w * 32)) = ?n" "mem_priced (mem_Resize ?m (?w * 32))"
      using t n by (simp_all add: mem_priced_def mem_words_def)
    ultimately show ?thesis using g True by (simp add: max_def)
  next
    case False
    then have "memoryGasCost m newMemSize = (m, Inr 0)"
      using b l(1) assms(2) by (auto simp: memoryGasCost_def Let_def word_less_nat_alt)
    moreover have "mem_Resize m (?w * 32) = m" using False b l(1) by (simp add: mem_Resize_def)
    ultimately show ?thesis using False assms(1) by (simp add: max_def)
  qed
qed

text \<open>A frame with two words of memory grows to ten.\<close>

theorem memoryGasCost_exact_witness:
  "\<exists>m' fee. memoryGasCost \<lparr>mem_store = replicate 64 0, lastGasCost = 6\<rparr> 320 = (m', Inr fee) \<and> unat fee = 24"
proof -
  have "mem_priced \<lparr>mem_store = replicate 64 0, lastGasCost = 6\<rparr>"
    by (simp add: mem_priced_def mem_words_def memory_total_def)
  from memoryGasCost_exact[OF this, of 320] show ?thesis by (auto simp: mem_words_def memory_total_def)
qed


end
