(* ===== verification/Mpt_Encoding.thy ===== *)
theory Mpt_Encoding
  imports Go_Prelude
begin

text \<open>
  \<open>trie/encoding.go\<close>: the three encodings of a trie key.  Key bytes are what the user passes,
  hex encoding has a nibble per byte and an optional terminator 16, compact encoding packs
  the nibbles behind a flag.  A panic is \<open>None\<close>.
\<close>

definition hasTerm :: "bytes \<Rightarrow> bool" where
  "hasTerm s = (length s > 0 \<and> s ! (length s - 1) = 16)"

text \<open>The bytes that \<open>decodeNibbles\<close> writes; an odd number of nibbles is an index out of range.\<close>

fun decodeNibbles :: "bytes \<Rightarrow> bytes option" where
  "decodeNibbles [] = Some []"
| "decodeNibbles [x] = None"
| "decodeNibbles (x # y # rest) = map_option (\<lambda>bs. (push_bit 4 x OR y) # bs) (decodeNibbles rest)"

definition hexToCompact :: "bytes \<Rightarrow> bytes option" where
  "hexToCompact hex =
     (let terminator = (if hasTerm hex then 1 else 0 :: byte);
          hex1 = (if hasTerm hex then take (length hex - 1) hex else hex);
          flag = push_bit 5 terminator;
          (flag1, hex2) = (if odd (length hex1) then (flag OR push_bit 4 1 OR hex1 ! 0, drop 1 hex1) else (flag, hex1))
      in map_option (\<lambda>bs. flag1 # bs) (decodeNibbles hex2))"

definition keybytesToHex :: "bytes \<Rightarrow> bytes" where
  "keybytesToHex str = concat (map (\<lambda>b. [b div 16, b mod 16]) str) @ [16]"

definition compactToHex :: "bytes \<Rightarrow> bytes" where
  "compactToHex compact =
     (if compact = [] then compact
      else let base = keybytesToHex compact;
               base1 = (if base ! 0 < 2 then take (length base - 1) base else base);
               chop = 2 - (base1 ! 0 AND 1)
           in drop (unat chop) base1)"

definition hexToKeybytes :: "bytes \<Rightarrow> bytes option" where
  "hexToKeybytes hex =
     (let hex1 = (if hasTerm hex then take (length hex - 1) hex else hex)
      in if odd (length hex1) then None else decodeNibbles hex1)"

fun prefixLen :: "bytes \<Rightarrow> bytes \<Rightarrow> nat" where
  "prefixLen (a # as) (b # bs) = (if a \<noteq> b then 0 else Suc (prefixLen as bs))"
| "prefixLen _ _ = 0"

subsection \<open>Nibbles\<close>

abbreviation nibbles :: "bytes \<Rightarrow> bool" where
  "nibbles \<equiv> list_all (\<lambda>x. x < 16)"

lemma nibble_unat: "x < (16 :: byte) \<longleftrightarrow> unat x < 16"
  by (simp add: word_less_nat_alt)

lemma pack_add:
  fixes x y :: byte
  assumes "x < 16" and "y < 16"
  shows "push_bit 4 x OR y = 16 * x + y" and "unat (push_bit 4 x OR y) = 16 * unat x + unat y"
proof -
  have "\<not> bit y n" if "4 \<le> n" for n
  proof -
    have "take_bit 4 y = y" using assms(2) by (simp add: word_unat_eq_iff unsigned_take_bit_eq nibble_unat take_bit_nat_eq_self)
    then show ?thesis using that by (metis bit_take_bit_iff not_less)
  qed
  then have "push_bit 4 x + y = push_bit 4 x OR y"
    by (intro disjunctive_add) (auto simp: bit_push_bit_iff not_le)
  then show "push_bit 4 x OR y = 16 * x + y" by (simp add: push_bit_eq_mult mult.commute)
  then show "unat (push_bit 4 x OR y) = 16 * unat x + unat y"
    using assms by (simp add: nibble_unat unat_word_ariths)
qed

lemma unpack:
  fixes x y :: byte
  assumes "x < 16" and "y < 16"
  shows "(push_bit 4 x OR y) div 16 = x" and "(push_bit 4 x OR y) mod 16 = y"
  using pack_add(2)[OF assms] assms by (auto simp: nibble_unat word_unat_eq_iff unat_div unat_mod)

lemma byte_nibbles: "b div 16 < 16 \<and> b mod 16 < 16" for b :: byte
proof -
  have "unat b < 256" using unsigned_less[of b] by simp
  then have "unat b div 16 < 16" by simp
  then show ?thesis by (simp add: nibble_unat unat_div unat_mod)
qed

lemma repack: "push_bit 4 (b div 16) OR b mod 16 = b" for b :: byte
proof -
  have "b div 16 < 16" "b mod 16 < 16" using byte_nibbles by simp_all
  from pack_add(2)[OF this] show ?thesis by (simp add: word_unat_eq_iff unat_div unat_mod)
qed

definition unpackNibbles :: "bytes \<Rightarrow> bytes" where
  "unpackNibbles bs = concat (map (\<lambda>b. [b div 16, b mod 16]) bs)"

lemma unpackNibbles_simps [simp]: "unpackNibbles [] = []" "unpackNibbles (b # bs) = b div 16 # b mod 16 # unpackNibbles bs"
  by (simp_all add: unpackNibbles_def)

lemma keybytesToHex_unpack: "keybytesToHex str = unpackNibbles str @ [16]"
  by (simp add: keybytesToHex_def unpackNibbles_def)

lemma length_unpackNibbles [simp]: "length (unpackNibbles bs) = 2 * length bs"
  by (induction bs) simp_all

lemma decode_unpack: "decodeNibbles (unpackNibbles bs) = Some bs"
  by (induction bs) (simp_all add: repack)

lemma unpack_decode:
  "nibbles h \<Longrightarrow> even (length h) \<Longrightarrow> \<exists>bs. decodeNibbles h = Some bs \<and> length bs = length h div 2 \<and> unpackNibbles bs = h"
proof (induction h rule: decodeNibbles.induct)
  case (3 x y rest)
  then obtain bs where "decodeNibbles rest = Some bs" "length bs = length rest div 2" "unpackNibbles bs = rest" by auto
  then show ?case using 3(2) by (intro exI[of _ "(push_bit 4 x OR y) # bs"]) (simp add: unpack)
qed simp_all

lemma nibbles_unpack: "nibbles (unpackNibbles bs)"
  by (induction bs) (simp_all add: byte_nibbles)

lemma hasTerm_snoc [simp]: "hasTerm (ns @ [x]) \<longleftrightarrow> x = 16"
  by (simp add: hasTerm_def)

lemma hasTerm_nibbles: "nibbles ns \<Longrightarrow> \<not> hasTerm ns"
  by (cases ns rule: rev_cases) (auto simp: hasTerm_def)

lemma hexToKeybytes_roundtrip: "hexToKeybytes (keybytesToHex k) = Some k"
  by (simp add: hexToKeybytes_def keybytesToHex_unpack decode_unpack)

subsection \<open>Compact encoding\<close>

definition hex_key :: "bytes \<Rightarrow> bool \<Rightarrow> bytes" where
  "hex_key ns t = ns @ (if t then [16] else [])"

definition flag_byte :: "bool \<Rightarrow> bytes \<Rightarrow> byte" where
  "flag_byte t ns = push_bit 4 ((if t then 2 else 0) + (if odd (length ns) then 1 else 0)) OR (if odd (length ns) then hd ns else 0)"

lemma hexToCompact_hex_key:
  assumes "nibbles ns"
  shows "hexToCompact (hex_key ns t) = map_option ((#) (flag_byte t ns)) (decodeNibbles (if odd (length ns) then tl ns else ns))"
proof -
  have "hasTerm (hex_key ns t) = t" using hasTerm_nibbles[OF assms] by (simp add: hex_key_def)
  moreover have "ns \<noteq> []" if "odd (length ns)" using that by auto
  ultimately show ?thesis
    by (auto simp: hexToCompact_def hex_key_def flag_byte_def Let_def hd_conv_nth drop_Suc simp flip: or.assoc split: if_splits)
qed

lemma compactToHex_flag:
  assumes "nibbles ns" and "unpackNibbles bs = (if odd (length ns) then tl ns else ns)"
  shows "compactToHex (flag_byte t ns # bs) = hex_key ns t"
proof -
  define m :: byte where "m = (if t then 2 else 0) + (if odd (length ns) then 1 else 0)"
  define x :: byte where "x = (if odd (length ns) then hd ns else 0)"
  have "m < 16" "x < 16" using assms(1) by (cases ns; auto simp: m_def x_def)+
  then have flag: "flag_byte t ns div 16 = m" "flag_byte t ns mod 16 = x"
    using unpack[of m x] by (simp_all add: flag_byte_def m_def x_def)
  have base: "keybytesToHex (flag_byte t ns # bs) = m # x # unpackNibbles bs @ [16]"
    by (simp add: keybytesToHex_unpack flag)
  have "compactToHex (flag_byte t ns # bs) = drop (unat (2 - (m AND 1))) (m # x # unpackNibbles bs @ (if m < 2 then [] else [16]))"
    unfolding compactToHex_def base Let_def by simp
  then show ?thesis
    unfolding assms(2) by (cases ns) (auto simp: m_def x_def hex_key_def)
qed

text \<open>
  C25: The encodings of trie keys lose nothing: key bytes come back from their hex encoding, and a
  hex key, with or without terminator and of even or odd length, comes back from its compact encoding,
  which has one byte for the flag and one for every two nibbles.
\<close>

theorem key_encodings_roundtrip:
  assumes "nibbles ns"
  shows "hexToKeybytes (keybytesToHex k) = Some k \<and>
    (\<exists>c. hexToCompact (hex_key ns t) = Some c \<and> compactToHex c = hex_key ns t \<and> length c = length ns div 2 + 1)"
proof -
  let ?ns = "if odd (length ns) then tl ns else ns"
  have "nibbles ?ns" "even (length ?ns)" "length ?ns div 2 = length ns div 2"
    using assms by (cases ns; auto)+
  then obtain bs where "decodeNibbles ?ns = Some bs" "length bs = length ns div 2" "unpackNibbles bs = ?ns"
    using unpack_decode[of ?ns] by auto
  then show ?thesis
    using hexToCompact_hex_key[OF assms] compactToHex_flag[OF assms] hexToKeybytes_roundtrip by simp
qed

theorem key_encodings_roundtrip_witness:
  "hexToKeybytes (keybytesToHex [0x12, 0xab]) = Some [0x12, 0xab] \<and> hexToCompact (hex_key [1, 2, 3] True) = Some [0x31, 0x23] \<and>
   (\<exists>c. hexToCompact (hex_key [1, 2, 3] True) = Some c \<and> compactToHex c = hex_key [1, 2, 3] True \<and> length c = 2)"
  using key_encodings_roundtrip[of "[1, 2, 3]" "[0x12, 0xab]" True] by (simp add: hexToCompact_def hex_key_def hasTerm_def numeral_3_eq_3)

end
