(* ===== verification/Mpt_Trie.thy ===== *)
theory Mpt_Trie
  imports Mpt_Encoding Evm_Data
begin

text \<open>
  \<open>trie/trie.go\<close> and \<open>trie/node.go\<close>: lookup, insertion and deletion in the Merkle Patricia trie.  A
  part of the trie that is not loaded is a hash node; the node database that resolves it is the
  argument \<open>db\<close> (a hash is mapped to a node or is missing).  The recursion is cut off by fuel,
  since a database could map a hash to a node that refers to it again; twice the length of the key and
  two is enough on a well-formed trie.
\<close>

subsection \<open>node.go\<close>

type_synonym u16 = "16 word"

record nodeFlag =
  nf_hash :: "bytes option"
  nf_gen :: u16
  nf_dirty :: bool

datatype node =
    NilNode
  | FullNode "node list" nodeFlag
  | ShortNode bytes node nodeFlag
  | HashNode bytes
  | ValueNode bytes

definition flag_canUnload :: "nodeFlag \<Rightarrow> u16 \<Rightarrow> u16 \<Rightarrow> bool" where
  "flag_canUnload fl cachegen cachelimit = (\<not> nf_dirty fl \<and> cachegen - nf_gen fl \<ge> cachelimit)"

fun canUnload :: "node \<Rightarrow> u16 \<Rightarrow> u16 \<Rightarrow> bool option" where
  "canUnload (FullNode cs fl) gen limit = Some (flag_canUnload fl gen limit)"
| "canUnload (ShortNode k v fl) gen limit = Some (flag_canUnload fl gen limit)"
| "canUnload (HashNode h) gen limit = Some False"
| "canUnload (ValueNode v) gen limit = Some False"
| "canUnload NilNode gen limit = None"

fun node_cache :: "node \<Rightarrow> (bytes option \<times> bool) option" where
  "node_cache (FullNode cs fl) = Some (nf_hash fl, nf_dirty fl)"
| "node_cache (ShortNode k v fl) = Some (nf_hash fl, nf_dirty fl)"
| "node_cache (HashNode h) = Some (None, True)"
| "node_cache (ValueNode v) = Some (None, True)"
| "node_cache NilNode = None"

subsection \<open>trie.go\<close>

datatype trie_error = MissingNodeError bytes bytes

type_synonym node_db = "bytes \<Rightarrow> node option"

definition newFlag :: "u16 \<Rightarrow> nodeFlag" where
  "newFlag cachegen = \<lparr>nf_hash = None, nf_gen = cachegen, nf_dirty = True\<rparr>"

definition resolveHash :: "node_db \<Rightarrow> bytes \<Rightarrow> bytes \<Rightarrow> trie_error + node" where
  "resolveHash db n prefix = (case db n of Some nd \<Rightarrow> Inr nd | None \<Rightarrow> Inl (MissingNodeError n prefix))"

definition t_resolve :: "node_db \<Rightarrow> node \<Rightarrow> bytes \<Rightarrow> trie_error + node" where
  "t_resolve db n prefix = (case n of HashNode h \<Rightarrow> resolveHash db h prefix | _ \<Rightarrow> Inr n)"

type_synonym get_result = "(bytes option \<times> node \<times> bool \<times> trie_error option) outcome"

fun tryGet :: "nat \<Rightarrow> node_db \<Rightarrow> u16 \<Rightarrow> node \<Rightarrow> bytes \<Rightarrow> nat \<Rightarrow> get_result" where
  "tryGet 0 db gen origNode key pos = NoFuel"
| "tryGet (Suc fuel) db gen origNode key pos =
     (case origNode of
        NilNode \<Rightarrow> Value (None, NilNode, False, None)
      | ValueNode v \<Rightarrow> Value (Some v, ValueNode v, False, None)
      | ShortNode k val fl \<Rightarrow>
          if length key < pos + length k \<or> k \<noteq> take (length k) (drop pos key) then Value (None, origNode, False, None)
          else obind (tryGet fuel db gen val key (pos + length k)) (\<lambda>(value, newnode, didResolve, err).
                 Value (value, if err = None \<and> didResolve then ShortNode k newnode (fl\<lparr>nf_gen := gen\<rparr>) else origNode, didResolve, err))
      | FullNode cs fl \<Rightarrow>
          if pos \<ge> length key \<or> unat (key ! pos) \<ge> length cs then Panics
          else obind (tryGet fuel db gen (cs ! unat (key ! pos)) key (pos + 1)) (\<lambda>(value, newnode, didResolve, err).
                 Value (value, if err = None \<and> didResolve then FullNode (cs[unat (key ! pos) := newnode]) (fl\<lparr>nf_gen := gen\<rparr>) else origNode,
                        didResolve, err))
      | HashNode h \<Rightarrow>
          (case resolveHash db h (take pos key) of
             Inl err \<Rightarrow> Value (None, HashNode h, True, Some err)
           | Inr child \<Rightarrow> obind (tryGet fuel db gen child key pos) (\<lambda>(value, newnode, _, err). Value (value, newnode, True, err))))"

text \<open>An update answers with an error, or whether something changed and the new node.\<close>

type_synonym upd_result = "(trie_error + bool \<times> node) outcome"

definition rbind :: "('e + 'x) outcome \<Rightarrow> ('x \<Rightarrow> ('e + 'y) outcome) \<Rightarrow> ('e + 'y) outcome" where
  "rbind r f = obind r (\<lambda>x. case x of Inl e \<Rightarrow> Value (Inl e) | Inr y \<Rightarrow> f y)"

fun t_insert :: "nat \<Rightarrow> node_db \<Rightarrow> u16 \<Rightarrow> node \<Rightarrow> bytes \<Rightarrow> bytes \<Rightarrow> node \<Rightarrow> upd_result" where
  "t_insert 0 db gen n prefix key val = NoFuel"
| "t_insert (Suc fuel) db gen n prefix key val =
     (if length key = 0 then
        (case n of
           ValueNode v \<Rightarrow> (case val of ValueNode w \<Rightarrow> Value (Inr (v \<noteq> w, val)) | _ \<Rightarrow> Panics)
         | _ \<Rightarrow> Value (Inr (True, val)))
      else
        case n of
          ShortNode k child fl \<Rightarrow>
            (let matchlen = prefixLen key k in
             if matchlen = length k then
               rbind (t_insert fuel db gen child (prefix @ take matchlen key) (drop matchlen key) val) (\<lambda>(dirty, nn).
                 if \<not> dirty then Value (Inr (False, n)) else Value (Inr (True, ShortNode k nn (newFlag gen))))
             else
               rbind (t_insert fuel db gen NilNode (prefix @ take (matchlen + 1) k) (drop (matchlen + 1) k) child) (\<lambda>(_, b1).
                 if unat (k ! matchlen) \<ge> 17 then Panics
                 else if matchlen \<ge> length key then Panics
                 else rbind (t_insert fuel db gen NilNode (prefix @ take (matchlen + 1) key) (drop (matchlen + 1) key) val) (\<lambda>(_, b2).
                   if unat (key ! matchlen) \<ge> 17 then Panics
                   else
                     let branch = FullNode ((replicate 17 NilNode)[unat (k ! matchlen) := b1, unat (key ! matchlen) := b2]) (newFlag gen)
                     in if matchlen = 0 then Value (Inr (True, branch))
                        else Value (Inr (True, ShortNode (take matchlen key) branch (newFlag gen))))))
        | FullNode cs fl \<Rightarrow>
            if unat (key ! 0) \<ge> length cs then Panics
            else rbind (t_insert fuel db gen (cs ! unat (key ! 0)) (prefix @ [key ! 0]) (drop 1 key) val) (\<lambda>(dirty, nn).
                   if \<not> dirty then Value (Inr (False, n))
                   else Value (Inr (True, FullNode (cs[unat (key ! 0) := nn]) (newFlag gen))))
        | NilNode \<Rightarrow> Value (Inr (True, ShortNode key val (newFlag gen)))
        | HashNode h \<Rightarrow>
            (case resolveHash db h prefix of
               Inl err \<Rightarrow> Value (Inl err)
             | Inr rn \<Rightarrow> rbind (t_insert fuel db gen rn prefix key val) (\<lambda>(dirty, nn).
                 if \<not> dirty then Value (Inr (False, rn)) else Value (Inr (True, nn))))
        | ValueNode v \<Rightarrow> Panics)"

text \<open>The index of the only child, -1 if there is none and -2 if there are more.\<close>

fun single_pos :: "int \<Rightarrow> int \<Rightarrow> node list \<Rightarrow> int" where
  "single_pos i pos [] = pos"
| "single_pos i pos (cld # cs) =
     (if cld \<noteq> NilNode then (if pos = -1 then single_pos (i + 1) i cs else -2) else single_pos (i + 1) pos cs)"

definition reduce_full :: "node_db \<Rightarrow> u16 \<Rightarrow> node list \<Rightarrow> bytes \<Rightarrow> upd_result" where
  "reduce_full db gen cs prefix =
     (let pos = single_pos 0 (-1) cs in
      if pos \<ge> 0 then
        let one = Value (Inr (True, ShortNode [of_int pos] (cs ! nat pos) (newFlag gen))) in
        if pos \<noteq> 16 then
          (case t_resolve db (cs ! nat pos) prefix of
             Inl err \<Rightarrow> Value (Inl err)
           | Inr (ShortNode ck cv _) \<Rightarrow> Value (Inr (True, ShortNode (of_int pos # ck) cv (newFlag gen)))
           | Inr _ \<Rightarrow> one)
        else one
      else Value (Inr (True, FullNode cs (newFlag gen))))"

fun t_delete :: "nat \<Rightarrow> node_db \<Rightarrow> u16 \<Rightarrow> node \<Rightarrow> bytes \<Rightarrow> bytes \<Rightarrow> upd_result" where
  "t_delete 0 db gen n prefix key = NoFuel"
| "t_delete (Suc fuel) db gen n prefix key =
     (case n of
        ShortNode k child fl \<Rightarrow>
          (let matchlen = prefixLen key k in
           if matchlen < length k then Value (Inr (False, n))
           else if matchlen = length key then Value (Inr (True, NilNode))
           else
             rbind (t_delete fuel db gen child (prefix @ take (length k) key) (drop (length k) key)) (\<lambda>(dirty, child1).
               if \<not> dirty then Value (Inr (False, n))
               else case child1 of
                      ShortNode ck cv _ \<Rightarrow> Value (Inr (True, ShortNode (k @ ck) cv (newFlag gen)))
                    | _ \<Rightarrow> Value (Inr (True, ShortNode k child1 (newFlag gen)))))
      | FullNode cs fl \<Rightarrow>
          if length key = 0 \<or> unat (key ! 0) \<ge> length cs then Panics
          else rbind (t_delete fuel db gen (cs ! unat (key ! 0)) (prefix @ [key ! 0]) (drop 1 key)) (\<lambda>(dirty, nn).
                 if \<not> dirty then Value (Inr (False, n)) else reduce_full db gen (cs[unat (key ! 0) := nn]) prefix)
      | ValueNode v \<Rightarrow> Value (Inr (True, NilNode))
      | NilNode \<Rightarrow> Value (Inr (False, NilNode))
      | HashNode h \<Rightarrow>
          (case resolveHash db h prefix of
             Inl err \<Rightarrow> Value (Inl err)
           | Inr rn \<Rightarrow> rbind (t_delete fuel db gen rn prefix key) (\<lambda>(dirty, nn).
               if \<not> dirty then Value (Inr (False, rn)) else Value (Inr (True, nn)))))"

subsection \<open>Keys\<close>

text \<open>A key in hex encoding: nibbles and a terminator.\<close>

fun hexkey :: "bytes \<Rightarrow> bool" where
  "hexkey [] = False"
| "hexkey (x # k) = (if k = [] then x = 16 else x < 16 \<and> hexkey k)"

lemma hexkey_append: "k \<noteq> [] \<Longrightarrow> hexkey (p @ k) \<longleftrightarrow> nibbles p \<and> hexkey k"
  by (induction p) auto

lemma hexkey_not_nibbles: "hexkey k \<Longrightarrow> \<not> nibbles k"
  by (induction k) (auto split: if_splits)

lemma hexkey_snoc [simp]: "hexkey (ns @ [x]) \<longleftrightarrow> nibbles ns \<and> x = 16"
  by (simp add: hexkey_append)

lemma hexkey_prefix_free: "hexkey (p @ k) \<Longrightarrow> hexkey p \<Longrightarrow> k = []"
  using hexkey_append[of k p] hexkey_not_nibbles by blast

lemma hexkey_keybytes [simp]: "hexkey (keybytesToHex key)"
  by (simp add: keybytesToHex_unpack nibbles_unpack)

lemma keybytesToHex_inj [simp]: "keybytesToHex a = keybytesToHex b \<longleftrightarrow> a = b"
  by (metis hexToKeybytes_roundtrip option.inject)

lemma prefixLen_split:
  "\<exists>p a b. x = p @ a \<and> y = p @ b \<and> prefixLen x y = length p \<and> (a = [] \<or> b = [] \<or> hd a \<noteq> hd b)"
proof (induction x y rule: prefixLen.induct)
  case (1 a as b bs)
  show ?case
  proof (cases "a = b")
    case True
    with 1 obtain p c d where "as = p @ c" "bs = p @ d" "prefixLen as bs = length p" "c = [] \<or> d = [] \<or> hd c \<noteq> hd d" by blast
    then show ?thesis using True by (intro exI[of _ "b # p"] exI[of _ c] exI[of _ d]) simp
  next
    case False
    then show ?thesis by (intro exI[of _ "[]"] exI[of _ "a # as"] exI[of _ "b # bs"]) simp
  qed
qed auto

lemma prefixLen_append [simp]: "prefixLen (p @ a) (p @ b) = length p + prefixLen a b"
  by (induction p) simp_all

lemma prefixLen_whole [simp]: "prefixLen (k @ a) k = length k"
  using prefixLen_append[of k a "[]"] by (cases a) simp_all

subsection \<open>Contents\<close>

text \<open>What is stored under the rest of a key, with hash nodes looked up in the database.\<close>

inductive holds :: "node_db \<Rightarrow> node \<Rightarrow> bytes \<Rightarrow> bytes \<Rightarrow> bool" for db where
  holds_value: "holds db (ValueNode v) [] v"
| holds_short: "holds db n key v \<Longrightarrow> holds db (ShortNode k n fl) (k @ key) v"
| holds_full: "unat i < length cs \<Longrightarrow> holds db (cs ! unat i) key v \<Longrightarrow> holds db (FullNode cs fl) (i # key) v"
| holds_hash: "db h = Some n \<Longrightarrow> holds db n key v \<Longrightarrow> holds db (HashNode h) key v"

inductive_simps holds_simps:
  "holds db NilNode key v" "holds db (ValueNode u) key v" "holds db (ShortNode k n fl) key v"
  "holds db (FullNode cs fl) key v" "holds db (HashNode h) key v"

lemma holds_det: "holds db n key v \<Longrightarrow> holds db n key u \<Longrightarrow> u = v"
  by (induction arbitrary: u rule: holds.induct) (auto simp: holds_simps)

lemma holds_value_iff [simp]: "holds db (ValueNode u) key v \<longleftrightarrow> key = [] \<and> v = u" "\<not> holds db NilNode key v"
  by (auto simp: holds_simps)

lemma holds_short_append [simp]: "holds db (ShortNode k n fl) (k @ key) v \<longleftrightarrow> holds db n key v"
  by (auto simp: holds_simps)

lemma holds_full_Cons [simp]: "holds db (FullNode cs fl) (i # key) v \<longleftrightarrow> unat i < length cs \<and> holds db (cs ! unat i) key v"
  by (auto simp: holds_simps)

lemma holds_hash_iff [simp]: "holds db (HashNode h) key v \<longleftrightarrow> (\<exists>n. db h = Some n \<and> holds db n key v)"
  by (auto simp: holds_simps)

subsection \<open>Well-formed tries\<close>

definition is_full :: "node_db \<Rightarrow> node \<Rightarrow> bool" where
  "is_full db n = (case n of FullNode _ _ \<Rightarrow> True | HashNode h \<Rightarrow> (case db h of Some (FullNode _ _) \<Rightarrow> True | _ \<Rightarrow> False) | _ \<Rightarrow> False)"

definition loaded :: "node \<Rightarrow> bool" where
  "loaded n = (case n of FullNode _ _ \<Rightarrow> True | ShortNode _ _ _ \<Rightarrow> True | _ \<Rightarrow> False)"

text \<open>
  A short node is a leaf, whose key ends with the terminator, or leads to a full node; a full node has at least two
  children, a value only under the terminator; a hash node is in the database.
\<close>

inductive wf_node :: "node_db \<Rightarrow> node \<Rightarrow> bool" for db where
  wf_leaf: "hexkey k \<Longrightarrow> v \<noteq> [] \<Longrightarrow> wf_node db (ShortNode k (ValueNode v) fl)"
| wf_ext: "nibbles k \<Longrightarrow> k \<noteq> [] \<Longrightarrow> wf_node db n \<Longrightarrow> is_full db n \<Longrightarrow> wf_node db (ShortNode k n fl)"
| wf_full: "length cs = 17 \<Longrightarrow> (\<And>i. i < 16 \<Longrightarrow> cs ! i \<noteq> NilNode \<Longrightarrow> wf_node db (cs ! i)) \<Longrightarrow>
    (cs ! 16 = NilNode \<or> (\<exists>v. v \<noteq> [] \<and> cs ! 16 = ValueNode v)) \<Longrightarrow>
    i < j \<Longrightarrow> j < 17 \<Longrightarrow> cs ! i \<noteq> NilNode \<Longrightarrow> cs ! j \<noteq> NilNode \<Longrightarrow> wf_node db (FullNode cs fl)"
| wf_hash: "db h = Some n \<Longrightarrow> wf_node db n \<Longrightarrow> loaded n \<Longrightarrow> wf_node db (HashNode h)"

inductive_simps wf_short_iff: "wf_node db (ShortNode k n fl)"
inductive_simps wf_full_iff: "wf_node db (FullNode cs fl)"
inductive_simps wf_hash_iff: "wf_node db (HashNode h)"
inductive_simps wf_other [simp]: "wf_node db NilNode" "wf_node db (ValueNode v)"

text \<open>A place in the trie with the rest of the key that leads there.\<close>

definition slot :: "node_db \<Rightarrow> bytes \<Rightarrow> node \<Rightarrow> bool" where
  "slot db key n \<longleftrightarrow> (if key = [] then n = NilNode \<or> (\<exists>v. v \<noteq> [] \<and> n = ValueNode v)
     else hexkey key \<and> (n = NilNode \<or> wf_node db n))"

lemma wf_full_upd:
  assumes "wf_node db (FullNode cs fl)" and "i < 17" and "i < 16 \<Longrightarrow> wf_node db c" and "i = 16 \<Longrightarrow> \<exists>v. v \<noteq> [] \<and> c = ValueNode v"
  shows "wf_node db (FullNode (cs[i := c]) fl')"
proof -
  from assms(1) obtain a b where w: "length cs = 17" "\<And>j. j < 16 \<Longrightarrow> cs ! j \<noteq> NilNode \<Longrightarrow> wf_node db (cs ! j)"
    "cs ! 16 = NilNode \<or> (\<exists>v. v \<noteq> [] \<and> cs ! 16 = ValueNode v)" "a < b" "b < 17" "cs ! a \<noteq> NilNode" "cs ! b \<noteq> NilNode"
    by (auto simp: wf_full_iff)
  have "i < 16 \<or> i = 16" using assms(2) by linarith
  then have c: "c \<noteq> NilNode" using assms(3,4) by auto
  have keep: "cs[i := c] ! x \<noteq> NilNode" if "cs ! x \<noteq> NilNode" "x < 17" for x
    using that w(1) c by (cases "i = x") auto
  show ?thesis
  proof (rule wf_full[where i = a and j = b])
    show "cs[i := c] ! 16 = NilNode \<or> (\<exists>v. v \<noteq> [] \<and> cs[i := c] ! 16 = ValueNode v)"
      using w assms(4) by (cases "i = 16") auto
    show "wf_node db (cs[i := c] ! j)" if "j < 16" "cs[i := c] ! j \<noteq> NilNode" for j
      using that w assms(3) by (cases "i = j") auto
  qed (use w keep[of a] keep[of b] in auto)
qed

lemma full_child:
  assumes "wf_node db (FullNode cs fl)" and "hexkey (i # r)"
  shows "unat i < length cs" and "slot db r (cs ! unat i)"
proof -
  have i: "r = [] \<Longrightarrow> unat i = 16" "r \<noteq> [] \<Longrightarrow> unat i < 16" using assms(2) by (auto simp: word_less_nat_alt split: if_splits)
  then show "unat i < length cs" using assms(1) by (cases "r = []") (auto simp: wf_full_iff)
  show "slot db r (cs ! unat i)" using i assms by (auto simp: wf_full_iff slot_def split: if_splits)
qed

lemma full_child_upd:
  assumes "wf_node db (FullNode cs fl)" and "hexkey (i # r)" and "slot db r c" and "c \<noteq> NilNode"
  shows "wf_node db (FullNode (cs[unat i := c]) fl')"
proof (rule wf_full_upd[OF assms(1)])
  have i: "r = [] \<Longrightarrow> unat i = 16" "r \<noteq> [] \<Longrightarrow> unat i < 16" using assms(2) by (auto simp: word_less_nat_alt split: if_splits)
  show "unat i < 17" using i by (cases "r = []") auto
  show "wf_node db c" if "unat i < 16" using that i assms(3,4) by (cases "r = []") (auto simp: slot_def)
  show "\<exists>v. v \<noteq> [] \<and> c = ValueNode v" if "unat i = 16" using that i assms(3,4) by (cases "r = []") (auto simp: slot_def)
qed

lemma short_child:
  assumes "wf_node db (ShortNode k c fl)" and "hexkey (k @ r)"
  shows "slot db r c" and "length r < length (k @ r)"
proof -
  from assms(1) show "slot db r c"
  proof (cases rule: wf_node.cases)
    case (wf_leaf v)
    then show ?thesis using hexkey_prefix_free[OF assms(2)] by (auto simp: slot_def)
  next
    case wf_ext
    moreover have "r \<noteq> []" using wf_ext(1) assms(2) hexkey_not_nibbles[of k] by auto
    ultimately show ?thesis using assms(2) by (auto simp: slot_def hexkey_append)
  qed
  show "length r < length (k @ r)" using assms(1) by (auto simp: wf_short_iff)
qed

lemma prefix_iff: "(length rest < length k \<or> k \<noteq> take (length k) rest) \<longleftrightarrow> (\<nexists>r. rest = k @ r)"
  by (metis append_eq_conv_conj append_take_drop_id le_add1 length_append not_less)

end
