(* ===== verification/Mpt_Map.thy ===== *)
theory Mpt_Map
  imports Mpt_Trie
begin

text \<open>
  The trie is a map: what lookup, insertion and deletion do to the contents of a well-formed trie, and that
  they keep it well-formed, never panic and never miss a node.
\<close>

subsection \<open>Lookup\<close>

definition found :: "node_db \<Rightarrow> node \<Rightarrow> bytes \<Rightarrow> bytes option \<times> node \<times> bool \<times> trie_error option \<Rightarrow> bool" where
  "found db n rest r = (case r of (val, n', d, err) \<Rightarrow> err = None \<and> (\<forall>v. val = Some v \<longleftrightarrow> holds db n rest v) \<and>
     slot db rest n' \<and> (\<forall>k v. holds db n' k v \<longleftrightarrow> holds db n k v) \<and> (is_full db n \<longrightarrow> is_full db n') \<and> (n' = NilNode \<longrightarrow> n = NilNode))"

definition gets :: "node_db \<Rightarrow> node \<Rightarrow> bytes \<Rightarrow> get_result \<Rightarrow> bool" where
  "gets db n rest r = (case r of Value x \<Rightarrow> found db n rest x | _ \<Rightarrow> False)"

lemma gets_Value [simp]: "gets db n rest (Value x) = found db n rest x"
  by (simp add: gets_def)

lemma gets_obind: "gets db n rest r \<Longrightarrow> (\<And>val n' d. found db n rest (val, n', d, None) \<Longrightarrow> gets db m rest' (f (val, n', d, None))) \<Longrightarrow> gets db m rest' (obind r f)"
  by (cases r) (auto simp: gets_def found_def)

lemma found_same: "slot db rest n \<Longrightarrow> (\<And>v. val = Some v \<longleftrightarrow> holds db n rest v) \<Longrightarrow> found db n rest (val, n, d, None)"
  by (simp add: found_def)

lemma slot_wf: "wf_node db n \<Longrightarrow> hexkey key \<Longrightarrow> slot db key n"
  by (cases key) (simp_all add: slot_def)

lemma found_short:
  assumes "wf_node db (ShortNode k c fl)" and "hexkey (k @ r)" and "found db c r (val, n', d, None)"
  shows "found db (ShortNode k c fl) (k @ r) (val, if d then ShortNode k n' fl' else ShortNode k c fl, d, None)"
proof (cases d)
  case True
  have "wf_node db (ShortNode k n' fl')"
    using assms(1)
  proof (cases rule: wf_node.cases)
    case (wf_leaf v)
    then have "r = []" using assms(2) hexkey_prefix_free by blast
    then show ?thesis using assms(3) wf_leaf by (auto simp: found_def slot_def intro: wf_node.wf_leaf)
  next
    case wf_ext
    then have "r \<noteq> []" using assms(2) hexkey_not_nibbles[of k] by auto
    then show ?thesis using assms(3) wf_ext by (auto simp: found_def slot_def is_full_def intro!: wf_node.wf_ext)
  qed
  then show ?thesis
    using assms(2,3) True by (auto simp: found_def slot_wf holds_simps is_full_def)
next
  case False
  then show ?thesis using assms by (auto simp: found_def slot_wf)
qed

lemma found_full:
  assumes "wf_node db (FullNode cs fl)" and "hexkey (i # r)" and "found db (cs ! unat i) r (val, n', d, None)"
  shows "found db (FullNode cs fl) (i # r) (val, if d then FullNode (cs[unat i := n']) fl' else FullNode cs fl, d, None)"
proof (cases d)
  case True
  have i: "unat i < length cs" by (rule full_child[OF assms(1,2)])
  have "wf_node db (FullNode (cs[unat i := n']) fl')"
  proof (cases "n' = NilNode")
    case True
    then have "cs[unat i := n'] = cs" using assms(3) by (simp add: found_def list_update_same_conv[OF i])
    then show ?thesis using assms(1) by (auto simp: wf_full_iff)
  next
    case False
    then show ?thesis using full_child_upd[OF assms(1,2)] assms(3) by (auto simp: found_def)
  qed
  moreover have "holds db (FullNode (cs[unat i := n']) fl') k v \<longleftrightarrow> holds db (FullNode cs fl) k v" for k v
    using assms(3) i by (cases k; cases "unat (hd k) = unat i") (auto simp: found_def holds_simps(4)[where key = "[]"])
  ultimately show ?thesis
    using assms(2,3) True i by (auto simp: found_def slot_wf is_full_def)
next
  case False
  then show ?thesis using assms full_child[OF assms(1,2)] by (auto simp: found_def slot_wf)
qed

lemmas found_child = found_short[where d = True, unfolded if_True] found_short[where d = False, unfolded if_False]
  found_full[where d = True, unfolded if_True] found_full[where d = False, unfolded if_False]

lemma tryGet_loaded:
  assumes IH: "\<And>r pre n f. length r < length rest \<Longrightarrow> slot db r n \<Longrightarrow> 2 * length r + 2 \<le> f \<Longrightarrow> gets db n r (tryGet f db gen n (pre @ r) (length pre))"
    and n: "slot db rest n" "\<And>h. n \<noteq> HashNode h" and fuel: "2 * length rest + 1 \<le> fuel"
  shows "gets db n rest (tryGet fuel db gen n (pre @ rest) (length pre))"
proof -
  obtain f where f: "fuel = Suc f" "2 * length rest \<le> f" using fuel by (cases fuel) auto
  show ?thesis
  proof (cases n)
    case (ShortNode k c fl)
    then have w: "wf_node db (ShortNode k c fl)" "hexkey rest" using n(1) by (auto simp: slot_def split: if_splits)
    show ?thesis
    proof (cases "\<exists>r. rest = k @ r")
      case True
      then obtain r where r: "rest = k @ r" ..
      have s: "slot db r c" "length r < length rest" using short_child[OF w(1)] w(2) r by auto
      have "gets db c r (tryGet f db gen c ((pre @ k) @ r) (length (pre @ k)))"
        using f s by (intro IH) auto
      then show ?thesis
        unfolding f(1) ShortNode tryGet.simps node.case using r w
        by (auto intro!: gets_obind[where n = c and rest = r] found_child split: if_splits)
    next
      case False
      then show ?thesis
        unfolding f(1) ShortNode tryGet.simps node.case using prefix_iff[of rest k] w
        by (auto intro!: found_same slot_wf simp: holds_simps)
    qed
  next
    case (FullNode cs fl)
    then have w: "wf_node db (FullNode cs fl)" "hexkey rest" using n(1) by (auto simp: slot_def split: if_splits)
    then obtain i r where r: "rest = i # r" by (cases rest) auto
    have s: "unat i < length cs" "slot db r (cs ! unat i)" using full_child[OF w(1)] w(2) r by auto
    have "gets db (cs ! unat i) r (tryGet f db gen (cs ! unat i) ((pre @ [i]) @ r) (length (pre @ [i])))"
      using f s r by (intro IH) auto
    then show ?thesis
      unfolding f(1) FullNode tryGet.simps node.case using r w s
      by (auto simp: nth_append simp del: hexkey.simps intro!: gets_obind[where n = "cs ! unat i" and rest = r] found_child split: if_splits)
  qed (use n f in \<open>auto simp: slot_def found_def split: if_splits\<close>)
qed

lemma tryGet_correct:
  "slot db rest n \<Longrightarrow> 2 * length rest + 2 \<le> fuel \<Longrightarrow> gets db n rest (tryGet fuel db gen n (pre @ rest) (length pre))"
proof (induction "length rest" arbitrary: rest pre n fuel rule: less_induct)
  case less
  note loaded = tryGet_loaded[OF less.hyps]
  show ?case
  proof (cases "\<exists>h. n = HashNode h")
    case False
    then show ?thesis using less.prems by (intro loaded) auto
  next
    case True
    then obtain h where h: "n = HashNode h" ..
    with less.prems(1) obtain m where m: "db h = Some m" "wf_node db m" "loaded m" "hexkey rest"
      by (auto simp: slot_def wf_hash_iff split: if_splits)
    obtain f where f: "fuel = Suc f" "2 * length rest + 1 \<le> f" using less.prems(2) by (cases fuel) auto
    have "gets db m rest (tryGet f db gen m (pre @ rest) (length pre))"
      using m f by (intro loaded slot_wf[OF m(2,4)]) (auto simp: loaded_def)
    then show ?thesis
      using m by (auto simp: h f resolveHash_def intro!: gets_obind[where n = m]) (auto simp: found_def is_full_def loaded_def split: node.splits)
  qed
qed

subsection \<open>Insertion\<close>

definition inserted :: "node_db \<Rightarrow> node \<Rightarrow> bytes \<Rightarrow> bytes \<Rightarrow> bool \<times> node \<Rightarrow> bool" where
  "inserted db n key v r = (case r of (dirty, n') \<Rightarrow> slot db key n' \<and> n' \<noteq> NilNode \<and> (is_full db n \<longrightarrow> is_full db n') \<and>
     (\<forall>k u. holds db n' k u \<longleftrightarrow> (if k = key then u = v else holds db n k u)) \<and> (\<not> dirty \<longrightarrow> holds db n key v))"

definition inserts :: "node_db \<Rightarrow> node \<Rightarrow> bytes \<Rightarrow> bytes \<Rightarrow> upd_result \<Rightarrow> bool" where
  "inserts db n key v r = (case r of Value (Inr x) \<Rightarrow> inserted db n key v x | _ \<Rightarrow> False)"

lemma inserts_Value [simp]: "inserts db n key v (Value (Inr x)) = inserted db n key v x"
  by (simp add: inserts_def)

lemma rbind_simps [simp]: "rbind (Value (Inr x)) f = f x" "rbind (Value (Inl e)) f = Value (Inl e)" "rbind NoFuel f = NoFuel" "rbind Panics f = Panics"
  by (simp_all add: rbind_def)

lemma inserts_rbind:
  assumes "inserts db n key v r" and "\<And>dirty n'. inserted db n key v (dirty, n') \<Longrightarrow> inserts db m key' v (f (dirty, n'))"
  shows "inserts db m key' v (rbind r f)"
proof -
  obtain dirty n' where "r = Value (Inr (dirty, n'))" "inserted db n key v (dirty, n')"
    using assms(1) by (auto simp: inserts_def split: outcome.splits sum.splits)
  then show ?thesis using assms(2) by simp
qed

lemma inserted_unchanged:
  assumes "slot db key n" and "holds db n key v"
  shows "inserted db n key v (dirty, n)"
  using assms holds_det by (auto simp: inserted_def)

lemma t_insert_nil: "0 < f \<Longrightarrow> t_insert f db gen NilNode prefix key val = Value (Inr (True, if key = [] then val else ShortNode key val (newFlag gen)))"
  by (cases f) auto

lemma inserted_short:
  assumes w: "wf_node db (ShortNode k c fl)" "hexkey (k @ r)" and i: "inserted db c r v (dirty, n')"
  shows "inserted db (ShortNode k c fl) (k @ r) v (if dirty then (True, ShortNode k n' fl') else (False, ShortNode k c fl))"
proof (cases dirty)
  case True
  have "wf_node db (ShortNode k n' fl')"
    using w(1)
  proof (cases rule: wf_node.cases)
    case (wf_leaf u)
    then have "r = []" using w(2) hexkey_prefix_free by blast
    then show ?thesis using i wf_leaf by (auto simp: inserted_def slot_def intro: wf_node.wf_leaf)
  next
    case wf_ext
    then have "r \<noteq> []" using w(2) hexkey_not_nibbles[of k] by auto
    then show ?thesis using i wf_ext by (auto simp: inserted_def slot_def intro!: wf_node.wf_ext)
  qed
  then show ?thesis
    using w i True by (auto simp: inserted_def slot_wf holds_simps is_full_def)
next
  case False
  then have "holds db (ShortNode k c fl) (k @ r) v" using i by (simp add: inserted_def)
  from inserted_unchanged[OF slot_wf[OF w] this] False show ?thesis by simp
qed

lemma inserted_full:
  assumes w: "wf_node db (FullNode cs fl)" "hexkey (i # r)" and n': "inserted db (cs ! unat i) r v (dirty, n')"
  shows "inserted db (FullNode cs fl) (i # r) v (if dirty then (True, FullNode (cs[unat i := n']) fl') else (False, FullNode cs fl))"
proof (cases dirty)
  case True
  have i: "unat i < length cs" by (rule full_child[OF w])
  have "wf_node db (FullNode (cs[unat i := n']) fl')"
    using full_child_upd[OF w] n' by (auto simp: inserted_def)
  moreover have "holds db (FullNode (cs[unat i := n']) fl') k u \<longleftrightarrow> (if k = i # r then u = v else holds db (FullNode cs fl) k u)" for k u
    using n' i by (cases k; cases "unat (hd k) = unat i") (auto simp: inserted_def holds_simps(4)[where key = "[]"] word_unat_eq_iff)
  ultimately show ?thesis
    using w(2) n' True by (auto simp: inserted_def slot_wf is_full_def)
next
  case False
  then have "holds db (FullNode cs fl) (i # r) v" using n' full_child[OF w] by (simp add: inserted_def)
  from inserted_unchanged[OF slot_wf[OF w] this] False show ?thesis by simp
qed

lemmas inserted_child = inserted_short[where dirty = True, unfolded if_True] inserted_short[where dirty = False, unfolded if_False]
  inserted_full[where dirty = True, unfolded if_True] inserted_full[where dirty = False, unfolded if_False]

text \<open>Two keys that part at different nibbles: a branch with the remainders.\<close>

definition below :: "bytes \<Rightarrow> node \<Rightarrow> nodeFlag \<Rightarrow> node" where
  "below rest n fl = (if rest = [] then n else ShortNode rest n fl)"

definition child_ok :: "node_db \<Rightarrow> byte \<Rightarrow> node \<Rightarrow> bool" where
  "child_ok db x n \<longleftrightarrow> unat x < 16 \<and> wf_node db n \<or> unat x = 16 \<and> (\<exists>v. v \<noteq> [] \<and> n = ValueNode v)"

lemma holds_below [simp]: "holds db (below rest n fl) k u \<longleftrightarrow> (\<exists>r. k = rest @ r \<and> holds db n r u)"
  by (auto simp: below_def holds_simps)

lemma child_ok_leaf: "hexkey (x # rest) \<Longrightarrow> v \<noteq> [] \<Longrightarrow> child_ok db x (below rest (ValueNode v) fl)"
  by (auto simp: child_ok_def below_def word_less_nat_alt intro: wf_leaf split: if_splits)

lemma child_ok_below:
  assumes "wf_node db (ShortNode (p @ y # rest) c fl)"
  shows "child_ok db y (below rest c fl')"
  using assms
proof (cases rule: wf_node.cases)
  case (wf_leaf v)
  then show ?thesis using child_ok_leaf[of y rest v] by (auto simp: hexkey_append simp del: hexkey.simps)
next
  case wf_ext
  then show ?thesis by (auto simp: child_ok_def below_def word_less_nat_alt intro: wf_node.wf_ext)
qed

definition branch :: "byte \<Rightarrow> node \<Rightarrow> byte \<Rightarrow> node \<Rightarrow> node list" where
  "branch y b1 x b2 = (replicate 17 NilNode)[unat y := b1, unat x := b2]"

lemma branch_nth:
  assumes "unat x < 17" and "unat y < 17" and "x \<noteq> y" and "i < 17"
  shows "branch y b1 x b2 ! i = (if i = unat x then b2 else if i = unat y then b1 else NilNode)"
  using assms by (auto simp: branch_def nth_list_update)

lemma child_ok_less: "child_ok db x n \<Longrightarrow> unat x < 17 \<and> n \<noteq> NilNode"
  by (auto simp: child_ok_def)

lemma wf_branch:
  assumes x: "child_ok db x b2" and y: "child_ok db y b1" and "x \<noteq> y"
  shows "wf_node db (FullNode (branch y b1 x b2) fl)"
proof -
  have less: "unat x < 17" "unat y < 17" and ne: "unat x \<noteq> unat y" using child_ok_less[OF x] child_ok_less[OF y] assms(3) by (auto simp: word_unat_eq_iff)
  note nth = branch_nth[OF less assms(3)]
  show ?thesis
  proof (rule wf_full[where i = "min (unat x) (unat y)" and j = "max (unat x) (unat y)"])
    show "wf_node db (branch y b1 x b2 ! i)" if "i < 16" "branch y b1 x b2 ! i \<noteq> NilNode" for i
      using that x y by (auto simp: nth child_ok_def split: if_splits)
    show "branch y b1 x b2 ! 16 = NilNode \<or> (\<exists>v. v \<noteq> [] \<and> branch y b1 x b2 ! 16 = ValueNode v)"
      using x y by (auto simp: nth child_ok_def)
  qed (use less ne child_ok_less[OF x] child_ok_less[OF y] in \<open>auto simp: nth min_def max_def\<close>, simp add: branch_def)
qed

lemma holds_branch:
  assumes "unat x < 17" and "unat y < 17" and "x \<noteq> y"
  shows "holds db (FullNode (branch y b1 x b2) fl) k u \<longleftrightarrow> (\<exists>r. k = x # r \<and> holds db b2 r u \<or> k = y # r \<and> holds db b1 r u)"
proof (cases k)
  case Nil
  then show ?thesis by (simp add: holds_simps(4)[where key = "[]"])
next
  case (Cons i r)
  have "length (branch y b1 x b2) = 17" by (simp add: branch_def)
  then show ?thesis using Cons assms branch_nth[OF assms, of "unat i" b1 b2] by (auto simp: word_unat_eq_iff split: if_splits)
qed

lemma inserted_branch:
  assumes w: "wf_node db (ShortNode (p @ y # b) c fl)" and key: "hexkey (p @ x # a)" and "x \<noteq> y" and "v \<noteq> []"
  shows "inserted db (ShortNode (p @ y # b) c fl) (p @ x # a) v
    (True, below p (FullNode (branch y (below b c f1) x (below a (ValueNode v) f2)) f3) f4)"
proof -
  let ?B = "FullNode (branch y (below b c f1) x (below a (ValueNode v) f2)) f3"
  have x: "child_ok db x (below a (ValueNode v) f2)" using key assms(4) by (intro child_ok_leaf) (auto simp: hexkey_append)
  have y: "child_ok db y (below b c f1)" by (rule child_ok_below[OF w])
  have B: "wf_node db ?B" by (rule wf_branch[OF x y assms(3)])
  have "nibbles p" using key by (simp add: hexkey_append)
  then have "wf_node db (below p ?B f4)" using B by (auto simp: below_def is_full_def intro!: wf_ext)
  moreover have "holds db (below p ?B f4) k u \<longleftrightarrow> (if k = p @ x # a then u = v else holds db (ShortNode (p @ y # b) c fl) k u)" for k u
    using assms(3) holds_branch[of x y db "below b c f1" "below a (ValueNode v) f2" f3] child_ok_less[OF x] child_ok_less[OF y]
    by (auto simp: holds_simps(3))
  ultimately show ?thesis
    using key by (auto simp: inserted_def slot_wf is_full_def)
qed

lemma short_split:
  assumes "wf_node db (ShortNode k c fl)" and "hexkey key"
  shows "(\<exists>r. key = k @ r \<and> prefixLen key k = length k) \<or>
    (\<exists>p x a y b. key = p @ x # a \<and> k = p @ y # b \<and> x \<noteq> y \<and> prefixLen key k = length p)"
proof -
  obtain p a b where s: "key = p @ a" "k = p @ b" "prefixLen key k = length p" "a = [] \<or> b = [] \<or> hd a \<noteq> hd b"
    using prefixLen_split[of key k] by blast
  have "b = []" if "a = []"
    using assms(1)
  proof (cases rule: wf_node.cases)
    case (wf_leaf v)
    then show ?thesis using hexkey_prefix_free[of p b] assms(2) s that by simp
  next
    case wf_ext
    then show ?thesis using hexkey_not_nibbles[of p] assms(2) s that by simp
  qed
  then show ?thesis using s by (cases a; cases b) auto
qed

lemma t_insert_loaded:
  assumes IH: "\<And>r pre n f. length r < length key \<Longrightarrow> slot db r n \<Longrightarrow> 2 * length r + 2 \<le> f \<Longrightarrow> inserts db n r v (t_insert f db gen n pre r (ValueNode v))"
    and n: "slot db key n" "\<And>h. n \<noteq> HashNode h" and fuel: "2 * length key + 1 \<le> fuel" and v: "v \<noteq> []"
  shows "inserts db n key v (t_insert fuel db gen n pre key (ValueNode v))"
proof -
  obtain f where f: "fuel = Suc f" "2 * length key \<le> f" using fuel by (cases fuel) auto
  show ?thesis
  proof (cases "key = []")
    case True
    then show ?thesis using n v by (auto simp: f slot_def inserted_def is_full_def)
  next
    case False
    then have key: "hexkey key" "0 < f" using n f by (cases key; auto simp: slot_def)+
    show ?thesis
    proof (cases n)
      case (ShortNode k c fl)
      then have w: "wf_node db (ShortNode k c fl)" using n(1) False by (auto simp: slot_def)
      from short_split[OF w key(1)] show ?thesis
      proof (elim disjE exE conjE)
        fix r assume r: "key = k @ r" "prefixLen key k = length k"
        have s: "slot db r c" "length r < length key" using short_child[OF w] key r by auto
        have "inserts db c r v (t_insert f db gen c (pre @ k) r (ValueNode v))"
          using f s by (intro IH) auto
        then show ?thesis
          unfolding f(1) ShortNode t_insert.simps node.case Let_def using r w key False
          by (auto intro!: inserts_rbind[where n = c and key = r] inserted_child split: if_splits)
      next
        fix p x a y b assume s: "key = p @ x # a" "k = p @ y # b" "x \<noteq> y" "prefixLen key k = length p"
        have x: "child_ok db x (below a (ValueNode v) f2)" for f2 using key s v by (intro child_ok_leaf) (auto simp: hexkey_append)
        have y: "child_ok db y (below b c f1)" for f1 using child_ok_below w s by simp
        have "inserted db n key v
          (True, below p (FullNode (branch y (below b c (newFlag gen)) x (below a (ValueNode v) (newFlag gen))) (newFlag gen)) (newFlag gen))"
          using inserted_branch[of db p y b c fl x a v] w key s v ShortNode by simp
        then show ?thesis
          unfolding f(1) ShortNode t_insert.simps node.case Let_def using s key(2) child_ok_less[OF x] child_ok_less[OF y]
          by (auto simp: t_insert_nil below_def branch_def nth_append)
      qed
    next
      case (FullNode cs fl)
      then have w: "wf_node db (FullNode cs fl)" using n(1) False by (auto simp: slot_def)
      obtain i r where r: "key = i # r" using False by (cases key) auto
      have s: "unat i < length cs" "slot db r (cs ! unat i)" using full_child[OF w] key r by auto
      have "inserts db (cs ! unat i) r v (t_insert f db gen (cs ! unat i) (pre @ [i]) r (ValueNode v))"
        using f s r by (intro IH) auto
      then show ?thesis
        unfolding f(1) FullNode t_insert.simps node.case using r w key s
        by (auto simp del: hexkey.simps intro!: inserts_rbind[where n = "cs ! unat i" and key = r] inserted_child split: if_splits)
    qed (use n f False key v in \<open>auto simp: slot_def inserted_def is_full_def holds_simps intro: wf_leaf split: if_splits\<close>)
  qed
qed

lemma t_insert_correct:
  "slot db key n \<Longrightarrow> 2 * length key + 2 \<le> fuel \<Longrightarrow> v \<noteq> [] \<Longrightarrow> inserts db n key v (t_insert fuel db gen n pre key (ValueNode v))"
proof (induction "length key" arbitrary: key pre n fuel rule: less_induct)
  case less
  note loaded = t_insert_loaded[OF less.hyps]
  show ?case
  proof (cases "\<exists>h. n = HashNode h")
    case False
    then show ?thesis using less.prems by (intro loaded) auto
  next
    case True
    then obtain h where h: "n = HashNode h" ..
    with less.prems(1) obtain m where m: "db h = Some m" "wf_node db m" "loaded m" "hexkey key"
      by (auto simp: slot_def wf_hash_iff split: if_splits)
    obtain f where f: "fuel = Suc f" "2 * length key + 1 \<le> f" using less.prems(2) by (cases fuel) auto
    have "inserts db m key v (t_insert f db gen m pre key (ValueNode v))"
      using m f less.prems(3) by (intro loaded slot_wf[OF m(2,4)]) (auto simp: loaded_def)
    moreover have "key \<noteq> []" using m(4) by auto
    moreover have hash: "inserted db (HashNode h) key v (if dirty then (True, n') else (False, m))" if "inserted db m key v (dirty, n')" for dirty n'
      using that m inserted_unchanged[OF slot_wf[OF m(2,4)], of v dirty]
      by (cases dirty) (auto simp: inserted_def is_full_def loaded_def split: node.splits)
    ultimately show ?thesis
      using m by (auto simp: h f resolveHash_def intro!: inserts_rbind[where n = m and key = key]
          hash[of True, unfolded if_True] hash[of False, unfolded if_False] split: if_splits)
  qed
qed

end
