(* ===== verification/Mpt_Delete.thy ===== *)
theory Mpt_Delete
  imports Mpt_Map
begin

text \<open>
  Deletion: the key is gone, everything else is still there, and the trie is in its minimal form again.
\<close>

definition removed :: "node_db \<Rightarrow> node \<Rightarrow> bytes \<Rightarrow> bool \<times> node \<Rightarrow> bool" where
  "removed db n key r = (case r of (dirty, n') \<Rightarrow>
     (n' = NilNode \<or> (if key = [] then \<exists>v. v \<noteq> [] \<and> n' = ValueNode v else wf_node db n')) \<and>
     (is_full db n \<longrightarrow> n' \<noteq> NilNode \<and> (dirty \<longrightarrow> loaded n')) \<and>
     (\<forall>k u. holds db n' k u \<longleftrightarrow> k \<noteq> key \<and> holds db n k u) \<and> (\<not> dirty \<longrightarrow> (\<forall>u. \<not> holds db n key u)))"

definition removes :: "node_db \<Rightarrow> node \<Rightarrow> bytes \<Rightarrow> upd_result \<Rightarrow> bool" where
  "removes db n key r = (case r of Value (Inr x) \<Rightarrow> removed db n key x | _ \<Rightarrow> False)"

lemma removes_Value [simp]: "removes db n key (Value (Inr x)) = removed db n key x"
  by (simp add: removes_def)

lemma removes_rbind:
  assumes "removes db n key r" and "\<And>dirty n'. removed db n key (dirty, n') \<Longrightarrow> removes db m key' (f (dirty, n'))"
  shows "removes db m key' (rbind r f)"
proof -
  obtain dirty n' where "r = Value (Inr (dirty, n'))" "removed db n key (dirty, n')"
    using assms(1) by (auto simp: removes_def split: outcome.splits sum.splits)
  then show ?thesis using assms(2) by simp
qed

lemma removed_unchanged:
  "slot db key n \<Longrightarrow> (\<And>u. \<not> holds db n key u) \<Longrightarrow> removed db n key (False, n)"
  by (auto simp: removed_def slot_def is_full_def split: if_splits)

subsection \<open>Short nodes\<close>

lemma wf_prepend:
  assumes "wf_node db (ShortNode ck cv fl)" and "nibbles k"
  shows "wf_node db (ShortNode (k @ ck) cv fl')"
  using assms(1)
proof (cases rule: wf_node.cases)
  case (wf_leaf v)
  then show ?thesis using assms(2) hexkey_append[of ck k] by (cases ck) (auto intro: wf_node.wf_leaf)
next
  case wf_ext
  then show ?thesis using assms(2) by (auto intro!: wf_node.wf_ext)
qed

lemma removed_short:
  assumes w: "wf_node db (ShortNode k c fl)" "hexkey (k @ r)" "r \<noteq> []" and c1: "removed db c r (True, c1)"
  shows "removed db (ShortNode k c fl) (k @ r)
    (True, case c1 of ShortNode ck cv _ \<Rightarrow> ShortNode (k @ ck) cv fl' | _ \<Rightarrow> ShortNode k c1 fl')"
proof -
  have k: "nibbles k" "k \<noteq> []" "is_full db c"
    using w hexkey_prefix_free[OF w(2)] by (auto simp: wf_short_iff)
  then have c: "wf_node db c1" "loaded c1" using c1 w(3) by (auto simp: removed_def)
  let ?n = "case c1 of ShortNode ck cv _ \<Rightarrow> ShortNode (k @ ck) cv fl' | _ \<Rightarrow> ShortNode k c1 fl'"
  have "wf_node db ?n"
    using c k by (cases c1) (auto simp: loaded_def is_full_def intro: wf_prepend wf_ext)
  moreover have "holds db ?n key u \<longleftrightarrow> (\<exists>s. key = k @ s \<and> holds db c1 s u)" for key u
    using c by (cases c1) (auto simp: loaded_def holds_simps)
  ultimately show ?thesis
    using c1 w(3) k by (auto simp: removed_def holds_simps(3) is_full_def)
qed

subsection \<open>Full nodes\<close>

lemma single_pos_known: "0 \<le> pos \<Longrightarrow> single_pos i pos cs = (if \<exists>c\<in>set cs. c \<noteq> NilNode then -2 else pos)"
  by (induction cs arbitrary: i) auto

lemma single_pos_cases:
  assumes "0 \<le> i"
  shows "(\<forall>c\<in>set cs. c = NilNode) \<and> single_pos i (-1) cs = -1 \<or>
    (\<exists>j<length cs. cs ! j \<noteq> NilNode \<and> (\<forall>l<length cs. l \<noteq> j \<longrightarrow> cs ! l = NilNode) \<and> single_pos i (-1) cs = i + int j) \<or>
    (\<exists>a b. a < b \<and> b < length cs \<and> cs ! a \<noteq> NilNode \<and> cs ! b \<noteq> NilNode \<and> single_pos i (-1) cs = -2)"
  using assms
proof (induction cs arbitrary: i)
  case (Cons c cs)
  show ?case
  proof (cases "c = NilNode")
    case True
    have "0 \<le> i + 1" using Cons.prems by simp
    from Cons.IH[OF this] show ?thesis
    proof (elim disjE exE conjE)
      fix j assume "j < length cs" "cs ! j \<noteq> NilNode" "\<forall>l<length cs. l \<noteq> j \<longrightarrow> cs ! l = NilNode" "single_pos (i + 1) (-1) cs = i + 1 + int j"
      then show ?thesis using True by (intro disjI2 disjI1 exI[of _ "Suc j"]) (auto simp: less_Suc_eq_0_disj)
    next
      fix a b assume "a < b" "b < length cs" "cs ! a \<noteq> NilNode" "cs ! b \<noteq> NilNode" "single_pos (i + 1) (-1) cs = -2"
      then show ?thesis using True by (intro disjI2 exI[of _ "Suc a"] exI[of _ "Suc b"]) auto
    qed (use True in auto)
  next
    case False
    show ?thesis
    proof (cases "\<exists>c\<in>set cs. c \<noteq> NilNode")
      case True
      then obtain b where "b < length cs" "cs ! b \<noteq> NilNode" by (auto simp: in_set_conv_nth)
      then show ?thesis using False True Cons.prems
        by (intro disjI2 exI[of _ 0] exI[of _ "Suc b"]) (auto simp: single_pos_known)
    next
      case none: False
      then show ?thesis using False Cons.prems
        by (intro disjI2 disjI1 exI[of _ 0]) (auto simp: single_pos_known nth_Cons split: nat.splits)
    qed
  qed
qed simp

lemma holds_single:
  assumes "length cs = 17" and "j < 17" and "\<And>l. l < 17 \<Longrightarrow> l \<noteq> j \<Longrightarrow> cs ! l = NilNode"
  shows "holds db (FullNode cs fl) k u \<longleftrightarrow> (\<exists>r. k = of_nat j # r \<and> holds db (cs ! j) r u)"
proof -
  have j: "unat (of_nat j :: byte) = j" using assms(2) by (simp add: unat_of_nat)
  show ?thesis
  proof (cases k)
    case (Cons i r)
    have "unat i = j \<longleftrightarrow> i = of_nat j" using j by (auto simp: word_unat_eq_iff)
    then show ?thesis using Cons assms j by (cases "unat i = j") auto
  qed (simp add: holds_simps(4)[where key = "[]"])
qed

definition reduced :: "node_db \<Rightarrow> node list \<Rightarrow> nodeFlag \<Rightarrow> upd_result \<Rightarrow> bool" where
  "reduced db cs fl r \<longleftrightarrow> (\<exists>n'. r = Value (Inr (True, n')) \<and> wf_node db n' \<and> loaded n' \<and>
     (\<forall>k u. holds db n' k u \<longleftrightarrow> holds db (FullNode cs fl) k u))"

lemma reduce_single:
  assumes len: "length cs = 17" and j: "j < 17" "cs ! j \<noteq> NilNode" "\<And>l. l < 17 \<Longrightarrow> l \<noteq> j \<Longrightarrow> cs ! l = NilNode"
    and wf: "j < 16 \<Longrightarrow> wf_node db (cs ! j)" and v: "j = 16 \<Longrightarrow> \<exists>v. v \<noteq> [] \<and> cs ! j = ValueNode v"
    and pos: "single_pos 0 (-1) cs = int j"
  shows "reduced db cs fl (reduce_full db gen cs prefix)"
proof (cases "j = 16")
  case True
  then obtain v where v: "v \<noteq> []" "cs ! 16 = ValueNode v" using v by auto
  have "wf_node db (ShortNode [16] (ValueNode v) (newFlag gen))" using v by (intro wf_leaf) auto
  then show ?thesis
    using True v holds_single[OF len j(1,3)] by (auto simp: reduced_def reduce_full_def pos loaded_def holds_simps(3))
next
  case False
  then have less: "j < 16" using j(1) by simp
  then have nib: "nibbles [of_nat j :: byte]" by (simp add: word_less_nat_alt unat_of_nat)
  note child = wf[OF less]
  have one: "reduced db cs fl (Value (Inr (True, ShortNode [of_nat j] (cs ! j) (newFlag gen))))" if "is_full db (cs ! j)"
  proof -
    have "wf_node db (ShortNode [of_nat j] (cs ! j) (newFlag gen))" using nib child that by (intro wf_ext) auto
    then show ?thesis using holds_single[OF len j(1,3)] by (auto simp: reduced_def loaded_def holds_simps(3))
  qed
  have short: "reduced db cs fl (Value (Inr (True, ShortNode (of_nat j # ck) cv (newFlag gen))))"
    if "wf_node db (ShortNode ck cv f)" "\<And>r u. holds db (cs ! j) r u \<longleftrightarrow> holds db (ShortNode ck cv f) r u" for ck cv f
    using wf_prepend[OF that(1) nib] that(2) holds_single[OF len j(1,3)] by (auto simp: reduced_def loaded_def holds_simps(3))
  show ?thesis
  proof (cases "cs ! j")
    case (HashNode h)
    then obtain m where m: "db h = Some m" "wf_node db m" "loaded m" using child by (auto simp: wf_hash_iff)
    show ?thesis
    proof (cases m)
      case (ShortNode ck cv f)
      then show ?thesis using short[of ck cv f] False HashNode m by (auto simp: reduce_full_def pos t_resolve_def resolveHash_def)
    next
      case (FullNode ds f)
      then have "is_full db (cs ! j)" using HashNode m by (simp add: is_full_def)
      from one[OF this] show ?thesis using FullNode False HashNode m by (simp add: reduce_full_def pos t_resolve_def resolveHash_def)
    qed (use m in \<open>auto simp: loaded_def\<close>)
  next
    case (ShortNode ck cv f)
    then show ?thesis using short[of ck cv f] False child by (simp add: reduce_full_def pos t_resolve_def)
  next
    case (FullNode ds f)
    then show ?thesis using one False by (simp add: reduce_full_def pos t_resolve_def is_full_def)
  qed (use child in auto)
qed

lemma reduce_full_correct:
  assumes len: "length cs = 17" and wf: "\<And>j. j < 16 \<Longrightarrow> cs ! j \<noteq> NilNode \<Longrightarrow> wf_node db (cs ! j)"
    and v: "cs ! 16 = NilNode \<or> (\<exists>v. v \<noteq> [] \<and> cs ! 16 = ValueNode v)" and ex: "l < 17" "cs ! l \<noteq> NilNode"
  shows "reduced db cs fl (reduce_full db gen cs prefix)"
  using single_pos_cases[of 0 cs, OF order_refl]
proof (elim disjE exE conjE)
  fix j assume j: "j < length cs" "cs ! j \<noteq> NilNode" "\<forall>l<length cs. l \<noteq> j \<longrightarrow> cs ! l = NilNode" "single_pos 0 (-1) cs = 0 + int j"
  then show ?thesis using len wf v by (intro reduce_single[of cs j]) auto
next
  fix a b assume "a < b" "b < length cs" "cs ! a \<noteq> NilNode" "cs ! b \<noteq> NilNode" and s: "single_pos 0 (-1) cs = -2"
  then have "wf_node db (FullNode cs (newFlag gen))" using len wf v by (intro wf_full[where i = a and j = b]) auto
  moreover have "holds db (FullNode cs (newFlag gen)) k u \<longleftrightarrow> holds db (FullNode cs fl) k u" for k u
    by (cases k) (simp_all add: holds_simps(4)[where key = "[]"])
  ultimately show ?thesis using s by (simp add: reduced_def reduce_full_def loaded_def)
qed (use nth_mem[of l cs] len ex in auto)

lemma removed_full:
  assumes w: "wf_node db (FullNode cs fl)" "hexkey (i # r)" and n': "removed db (cs ! unat i) r (True, n')"
  shows "removes db (FullNode cs fl) (i # r) (reduce_full db gen (cs[unat i := n']) prefix)"
proof -
  from w(1) obtain a b where cs: "length cs = 17" "\<And>j. j < 16 \<Longrightarrow> cs ! j \<noteq> NilNode \<Longrightarrow> wf_node db (cs ! j)"
    "cs ! 16 = NilNode \<or> (\<exists>v. v \<noteq> [] \<and> cs ! 16 = ValueNode v)" "a < b" "b < 17" "cs ! a \<noteq> NilNode" "cs ! b \<noteq> NilNode"
    by (auto simp: wf_full_iff)
  have i: "r = [] \<Longrightarrow> unat i = 16" "r \<noteq> [] \<Longrightarrow> unat i < 16" using w(2) by (auto simp: word_less_nat_alt split: if_splits)
  have len: "unat i < length cs" by (rule full_child[OF w])
  let ?cs = "cs[unat i := n']"
  have other: "\<exists>l<17. ?cs ! l \<noteq> NilNode"
    using cs by (cases "unat i = a") (auto intro: exI[of _ b] exI[of _ a])
  have wf: "wf_node db (?cs ! j)" if "j < 16" "?cs ! j \<noteq> NilNode" for j
    using that cs n' i len by (cases "unat i = j"; cases "r = []") (auto simp: removed_def)
  have v: "?cs ! 16 = NilNode \<or> (\<exists>v. v \<noteq> [] \<and> ?cs ! 16 = ValueNode v)"
    using cs n' i len by (cases "unat i = 16"; cases "r = []") (auto simp: removed_def)
  have holds: "holds db (FullNode ?cs fl) k u \<longleftrightarrow> k \<noteq> i # r \<and> holds db (FullNode cs fl) k u" for k u
    using n' len by (cases k; cases "unat (hd k) = unat i") (auto simp: removed_def holds_simps(4)[where key = "[]"] word_unat_eq_iff)
  obtain l where "l < 17" "?cs ! l \<noteq> NilNode" using other by blast
  from reduce_full_correct[OF _ wf v this, of fl gen prefix] cs(1) obtain m where
    "reduce_full db gen ?cs prefix = Value (Inr (True, m))" "wf_node db m" "loaded m" "\<And>k u. holds db m k u \<longleftrightarrow> holds db (FullNode ?cs fl) k u"
    by (auto simp: reduced_def)
  then show ?thesis using holds by (auto simp: removed_def)
qed

subsection \<open>The whole trie\<close>

lemma t_delete_loaded:
  assumes IH: "\<And>r pre n f. length r < length key \<Longrightarrow> slot db r n \<Longrightarrow> 2 * length r + 2 \<le> f \<Longrightarrow> removes db n r (t_delete f db gen n pre r)"
    and n: "slot db key n" "\<And>h. n \<noteq> HashNode h" and fuel: "2 * length key + 1 \<le> fuel"
  shows "removes db n key (t_delete fuel db gen n pre key)"
proof -
  obtain f where f: "fuel = Suc f" "2 * length key \<le> f" using fuel by (cases fuel) auto
  show ?thesis
  proof (cases n)
    case (ShortNode k c fl)
    then have w: "wf_node db (ShortNode k c fl)" "hexkey key" using n(1) by (auto simp: slot_def split: if_splits)
    from short_split[OF w] show ?thesis
    proof (elim disjE exE conjE)
      fix r assume r: "key = k @ r" "prefixLen key k = length k"
      have s: "slot db r c" "length r < length key" using short_child[OF w(1)] w(2) r by auto
      show ?thesis
      proof (cases "r = []")
        case True
        then have "\<exists>v. c = ValueNode v" using s w(1) by (auto simp: slot_def wf_short_iff is_full_def)
        then show ?thesis using True r ShortNode f by (auto simp: removed_def holds_simps(3) is_full_def)
      next
        case False
        have "removes db c r (t_delete f db gen c (pre @ k) r)" using f s by (intro IH) auto
        moreover have "removed db n key (False, n)" if "removed db c r (False, n')" for n'
          using that r ShortNode by (intro removed_unchanged[OF n(1)]) (auto simp: removed_def)
        moreover have "removes db n key (case c1 of ShortNode ck cv _ \<Rightarrow> Value (Inr (True, ShortNode (k @ ck) cv (newFlag gen)))
            | _ \<Rightarrow> Value (Inr (True, ShortNode k c1 (newFlag gen))))" if "removed db c r (True, c1)" for c1
          using removed_short[OF w(1) _ False that, of "newFlag gen"] w(2) r ShortNode by (cases c1) auto
        ultimately show ?thesis
          unfolding f(1) ShortNode t_delete.simps node.case Let_def using r w False
          by (auto intro!: removes_rbind[where n = c and key = r])
      qed
    next
      fix p x a y b assume s: "key = p @ x # a" "k = p @ y # b" "x \<noteq> y" "prefixLen key k = length p"
      have "removed db n key (False, n)"
        using s ShortNode by (intro removed_unchanged[OF n(1)]) (auto simp: holds_simps(3))
      then show ?thesis using s by (simp add: f(1) ShortNode)
    qed
  next
    case (FullNode cs fl)
    then have w: "wf_node db (FullNode cs fl)" "hexkey key" using n(1) by (auto simp: slot_def split: if_splits)
    then obtain i r where r: "key = i # r" by (cases key) auto
    have s: "unat i < length cs" "slot db r (cs ! unat i)" using full_child[OF w(1)] w(2) r by auto
    have "removes db (cs ! unat i) r (t_delete f db gen (cs ! unat i) (pre @ [i]) r)"
      using f s r by (intro IH) auto
    moreover have "removed db n key (False, n)" if "removed db (cs ! unat i) r (False, n')" for n'
      using that r FullNode by (intro removed_unchanged[OF n(1)]) (auto simp: removed_def)
    ultimately show ?thesis
      unfolding f(1) FullNode t_delete.simps node.case using r w s removed_full[of db cs fl i r]
      by (auto simp del: hexkey.simps intro!: removes_rbind[where n = "cs ! unat i" and key = r])
  qed (use n f in \<open>auto simp: slot_def removed_def is_full_def split: if_splits\<close>)
qed

lemma t_delete_correct:
  "slot db key n \<Longrightarrow> 2 * length key + 2 \<le> fuel \<Longrightarrow> removes db n key (t_delete fuel db gen n pre key)"
proof (induction "length key" arbitrary: key pre n fuel rule: less_induct)
  case less
  note loaded = t_delete_loaded[OF less.hyps]
  show ?case
  proof (cases "\<exists>h. n = HashNode h")
    case False
    then show ?thesis using less.prems by (intro loaded) auto
  next
    case True
    then obtain h where h: "n = HashNode h" ..
    with less.prems(1) obtain m where m: "db h = Some m" "wf_node db m" "loaded m" "hexkey key"
      by (auto simp: slot_def wf_hash_iff split: if_splits)
    obtain f where f: "fuel = Suc f" "2 * length key + 1 \<le> f" using less.prems(2) by (cases fuel) auto
    have "removes db m key (t_delete f db gen m pre key)"
      using m f by (intro loaded slot_wf[OF m(2,4)]) (auto simp: loaded_def)
    moreover have hash: "removed db (HashNode h) key (dirty, if dirty then n' else m)" if "removed db m key (dirty, n')" for dirty n'
      using that m removed_unchanged[OF slot_wf[OF m(2,4)]]
      by (cases dirty) (auto simp: removed_def is_full_def loaded_def split: node.splits)
    ultimately show ?thesis
      using m hash[of True] hash[of False] by (auto simp: h f resolveHash_def intro!: removes_rbind[where n = m and key = key])
  qed
qed

end
