(* ===== verification/Mpt_Ops.thy ===== *)
theory Mpt_Ops
  imports Mpt_Delete
begin

text \<open>
  The operations of a trie (\<open>trie/trie.go\<close>) and of a trie with hashed keys (\<open>trie/secure_trie.go\<close>), for a
  caller that runs alone: the compare-and-swap of \<open>tryUpdate\<close> then succeeds at once.  \<open>Mpt_Concurrent\<close> has
  the callers that do not.  The main result is that the trie is a map from keys to values.
\<close>

subsection \<open>trie.go\<close>

text \<open>The root is a pointer to a node: \<open>None\<close> is a nil pointer, \<open>Some NilNode\<close> points to a nil node.\<close>

record Trie =
  tr_root :: "node option"
  tr_cachegen :: u16
  tr_cachelimit :: u16

definition SetCacheLimit :: "u16 \<Rightarrow> Trie \<Rightarrow> Trie" where
  "SetCacheLimit l t = t\<lparr>tr_cachelimit := l\<rparr>"

text \<open>The hash of the empty trie is a Keccak digest and so an argument.\<close>

definition trie_New :: "bytes \<Rightarrow> node_db \<Rightarrow> bytes \<Rightarrow> trie_error + Trie" where
  "trie_New emptyRoot db root =
     (let trie = \<lparr>tr_root = None, tr_cachegen = 0, tr_cachelimit = 0\<rparr> in
      if root \<noteq> replicate 32 0 \<and> root \<noteq> emptyRoot then
        (case resolveHash db root [] of Inl err \<Rightarrow> Inl err | Inr rootnode \<Rightarrow> Inr (trie\<lparr>tr_root := Some rootnode\<rparr>))
      else Inr trie)"

definition root_node :: "node option \<Rightarrow> node" where
  "root_node root = (case root of Some n \<Rightarrow> n | None \<Rightarrow> NilNode)"

definition key_fuel :: "bytes \<Rightarrow> nat" where
  "key_fuel key = 2 * length (keybytesToHex key) + 2"

definition TryGet :: "node_db \<Rightarrow> Trie \<Rightarrow> bytes \<Rightarrow> (Trie \<times> bytes option \<times> trie_error option) outcome" where
  "TryGet db t key =
     obind (tryGet (key_fuel key) db (tr_cachegen t) (root_node (tr_root t)) (keybytesToHex key) 0) (\<lambda>(val, newroot, didResolve, err).
       Value (if err = None \<and> didResolve then t\<lparr>tr_root := Some newroot\<rparr> else t, val, err))"

text \<open>What one turn of the loop of \<open>tryUpdate\<close> computes from the root it has read.\<close>

definition update_root :: "node_db \<Rightarrow> u16 \<Rightarrow> bytes \<Rightarrow> bytes \<Rightarrow> node \<Rightarrow> upd_result" where
  "update_root db gen key value rootCpy =
     (let k = keybytesToHex key in
      if length value \<noteq> 0 then t_insert (key_fuel key) db gen rootCpy [] k (ValueNode value)
      else t_delete (key_fuel key) db gen rootCpy [] k)"

definition TryUpdate :: "node_db \<Rightarrow> Trie \<Rightarrow> bytes \<Rightarrow> bytes \<Rightarrow> (Trie \<times> trie_error option) outcome" where
  "TryUpdate db t key value =
     obind (update_root db (tr_cachegen t) key value (root_node (tr_root t))) (\<lambda>r.
       case r of Inl err \<Rightarrow> Value (t, Some err) | Inr (_, n) \<Rightarrow> Value (t\<lparr>tr_root := Some n\<rparr>, None))"

definition TryDelete :: "node_db \<Rightarrow> Trie \<Rightarrow> bytes \<Rightarrow> (Trie \<times> trie_error option) outcome" where
  "TryDelete db t key =
     obind (t_delete (key_fuel key) db (tr_cachegen t) (root_node (tr_root t)) [] (keybytesToHex key)) (\<lambda>r.
       case r of Inl err \<Rightarrow> Value (t, Some err) | Inr (_, n) \<Rightarrow> Value (t\<lparr>tr_root := Some n\<rparr>, None))"

subsection \<open>The trie is a map\<close>

definition wf_root :: "node_db \<Rightarrow> node \<Rightarrow> bool" where
  "wf_root db n \<longleftrightarrow> n = NilNode \<or> wf_node db n"

definition wf_trie :: "node_db \<Rightarrow> Trie \<Rightarrow> bool" where
  "wf_trie db t \<longleftrightarrow> wf_root db (root_node (tr_root t))"

text \<open>The value that a lookup returns without an error.\<close>

definition get_value :: "(Trie \<times> bytes option \<times> trie_error option) outcome \<Rightarrow> bytes option option" where
  "get_value r = (case r of Value (t, val, None) \<Rightarrow> Some val | _ \<Rightarrow> None)"

lemma wf_root_slot: "wf_root db n \<Longrightarrow> slot db (keybytesToHex key) n"
proof -
  have "keybytesToHex key \<noteq> []" by (simp add: keybytesToHex_def)
  then show "wf_root db n \<Longrightarrow> ?thesis" by (simp add: slot_def wf_root_def)
qed

lemma TryGet_holds:
  assumes "wf_trie db t"
  shows "\<exists>t' val. TryGet db t key = Value (t', val, None) \<and> wf_trie db t' \<and>
    (\<forall>v. val = Some v \<longleftrightarrow> holds db (root_node (tr_root t)) (keybytesToHex key) v) \<and>
    (\<forall>k v. holds db (root_node (tr_root t')) k v \<longleftrightarrow> holds db (root_node (tr_root t)) k v)"
proof -
  let ?n = "root_node (tr_root t)" and ?k = "keybytesToHex key"
  have "gets db ?n ?k (tryGet (key_fuel key) db (tr_cachegen t) ?n ?k 0)"
    using tryGet_correct[of db ?k ?n "key_fuel key" "tr_cachegen t" "[]"] wf_root_slot assms by (simp add: wf_trie_def key_fuel_def)
  then obtain val n' d where r: "tryGet (key_fuel key) db (tr_cachegen t) ?n ?k 0 = Value (val, n', d, None)" "found db ?n ?k (val, n', d, None)"
    by (auto simp: gets_def found_def split: outcome.splits)
  have "?k \<noteq> []" by (simp add: keybytesToHex_def)
  then have "wf_root db n'" using r(2) by (auto simp: found_def slot_def wf_root_def)
  then show ?thesis using r assms by (auto simp: TryGet_def wf_trie_def found_def root_node_def)
qed

lemma get_value_holds:
  assumes "wf_trie db t"
  shows "get_value (TryGet db t key) = Some val \<longleftrightarrow> (\<forall>v. val = Some v \<longleftrightarrow> holds db (root_node (tr_root t)) (keybytesToHex key) v)"
proof -
  obtain t' val' where "TryGet db t key = Value (t', val', None)" "\<And>v. val' = Some v \<longleftrightarrow> holds db (root_node (tr_root t)) (keybytesToHex key) v"
    using TryGet_holds[OF assms, of key] by blast
  then show ?thesis by (cases val; cases val') (auto simp: get_value_def dest: holds_det)
qed

lemma update_root_correct:
  assumes "wf_root db n"
  shows "\<exists>dirty n'. update_root db gen key value n = Value (Inr (dirty, n')) \<and> wf_root db n' \<and>
    (\<forall>k v. holds db n' k v \<longleftrightarrow> (if k = keybytesToHex key then value \<noteq> [] \<and> v = value else holds db n k v))"
proof -
  have ne: "keybytesToHex key \<noteq> []" by (simp add: keybytesToHex_def)
  show ?thesis
  proof (cases "value = []")
    case True
    have "removes db n (keybytesToHex key) (t_delete (key_fuel key) db gen n [] (keybytesToHex key))"
      by (rule t_delete_correct) (simp_all add: wf_root_slot[OF assms] key_fuel_def)
    then obtain dirty n' where "t_delete (key_fuel key) db gen n [] (keybytesToHex key) = Value (Inr (dirty, n'))"
      "removed db n (keybytesToHex key) (dirty, n')" by (auto simp: removes_def split: outcome.splits sum.splits)
    then show ?thesis using True ne
      by (intro exI[of _ dirty] exI[of _ n']) (auto simp: update_root_def removed_def wf_root_def)
  next
    case False
    have "inserts db n (keybytesToHex key) value (t_insert (key_fuel key) db gen n [] (keybytesToHex key) (ValueNode value))"
      using False by (intro t_insert_correct) (simp_all add: wf_root_slot[OF assms] key_fuel_def)
    then obtain dirty n' where "t_insert (key_fuel key) db gen n [] (keybytesToHex key) (ValueNode value) = Value (Inr (dirty, n'))"
      "inserted db n (keybytesToHex key) value (dirty, n')" by (auto simp: inserts_def split: outcome.splits sum.splits)
    then show ?thesis using False ne
      by (intro exI[of _ dirty] exI[of _ n']) (auto simp: update_root_def inserted_def wf_root_def slot_def)
  qed
qed

lemma updates_return:
  assumes "wf_trie db t"
  shows "\<exists>t'. TryUpdate db t key value = Value (t', None) \<and> wf_trie db t'"
    and "\<exists>t'. TryDelete db t key = Value (t', None) \<and> wf_trie db t'"
proof -
  have "wf_root db (root_node (tr_root t))" using assms by (simp add: wf_trie_def)
  from update_root_correct[OF this, of "tr_cachegen t" key "value"] update_root_correct[OF this, of "tr_cachegen t" key "[]"]
  show "\<exists>t'. TryUpdate db t key value = Value (t', None) \<and> wf_trie db t'" "\<exists>t'. TryDelete db t key = Value (t', None) \<and> wf_trie db t'"
    by (auto simp: TryUpdate_def TryDelete_def update_root_def wf_trie_def root_node_def)
qed

text \<open>
  C6: The trie is a map from keys to values: on a well-formed trie, whose missing parts are in the
  node database, updating a key never fails or panics, keeps the trie well-formed, and afterwards a lookup of that key
  returns the value, or nothing if the value was empty, while every other lookup returns what it returned before.
  Deleting a key is the same as updating it with the empty value.
\<close>

theorem trie_is_a_map:
  assumes "wf_trie db t"
  shows "\<exists>t'. TryUpdate db t key value = Value (t', None) \<and> (value = [] \<longrightarrow> TryDelete db t key = Value (t', None)) \<and> wf_trie db t' \<and>
    (\<forall>k. \<exists>old. get_value (TryGet db t k) = Some old \<and>
       get_value (TryGet db t' k) = Some (if k = key then (if value = [] then None else Some value) else old))"
proof -
  obtain dirty n' where n': "update_root db (tr_cachegen t) key value (root_node (tr_root t)) = Value (Inr (dirty, n'))" "wf_root db n'"
    "\<And>k v. holds db n' k v \<longleftrightarrow> (if k = keybytesToHex key then value \<noteq> [] \<and> v = value else holds db (root_node (tr_root t)) k v)"
    using update_root_correct[of db "root_node (tr_root t)"] assms by (fastforce simp: wf_trie_def)
  let ?t = "t\<lparr>tr_root := Some n'\<rparr>"
  have wf: "wf_trie db ?t" using n'(2) by (simp add: wf_trie_def root_node_def)
  have "\<exists>old. get_value (TryGet db t k) = Some old \<and>
       get_value (TryGet db ?t k) = Some (if k = key then (if value = [] then None else Some value) else old)" for k
  proof -
    obtain t1 old where "TryGet db t k = Value (t1, old, None)" using TryGet_holds[OF assms] by blast
    then have old: "get_value (TryGet db t k) = Some old" by (simp add: get_value_def)
    then have "\<forall>v. old = Some v \<longleftrightarrow> holds db (root_node (tr_root t)) (keybytesToHex k) v" using get_value_holds[OF assms] by simp
    then have "\<forall>v. (if k = key then (if value = [] then None else Some value) else old) = Some v \<longleftrightarrow> holds db (root_node (tr_root ?t)) (keybytesToHex k) v"
      by (auto simp: n'(3) root_node_def)
    then show ?thesis using old get_value_holds[OF wf] by blast
  qed
  then show ?thesis using n'(1) wf by (auto simp: TryUpdate_def TryDelete_def update_root_def)
qed

definition demo_db :: node_db where
  "demo_db h = (if h = [1] then Some (ShortNode [1, 2, 16] (ValueNode [7]) (newFlag 0)) else None)"

definition demo_trie :: Trie where
  "demo_trie = \<lparr>tr_root = Some (HashNode [1]), tr_cachegen = 0, tr_cachelimit = 0\<rparr>"

lemma demo_trie_wf: "wf_trie demo_db demo_trie"
  by (auto simp: wf_trie_def wf_root_def root_node_def demo_trie_def demo_db_def loaded_def intro!: wf_hash wf_leaf)

theorem trie_is_a_map_witness:
  "\<exists>t'. TryUpdate demo_db demo_trie [0x13] [8] = Value (t', None) \<and> wf_trie demo_db t' \<and>
     get_value (TryGet demo_db t' [0x13]) = Some (Some [8]) \<and> get_value (TryGet demo_db t' [0x12]) = Some (Some [7])"
proof -
  have old: "get_value (TryGet demo_db demo_trie [0x12]) = Some (Some [7])" by code_simp
  obtain t' where t': "TryUpdate demo_db demo_trie [0x13] [8] = Value (t', None)" "wf_trie demo_db t'"
    "\<And>k. \<exists>old. get_value (TryGet demo_db demo_trie k) = Some old \<and>
       get_value (TryGet demo_db t' k) = Some (if k = [0x13] then (if [8 :: byte] = [] then None else Some [8]) else old)"
    using trie_is_a_map[OF demo_trie_wf, of "[0x13]" "[8]"] by blast
  show ?thesis using t'(1,2) t'(3)[of "[0x13]"] t'(3)[of "[0x12]"] old by auto
qed

subsection \<open>secure_trie.go\<close>

text \<open>
  A trie whose keys are hashed (the digest is the argument \<open>hashKey\<close>) with a cache of their preimages.  One
  mutex, which is not reentrant, guards the updates of all tries: a call that has to wait for a lock that its own
  caller holds waits for ever.  The lock is the first component of the state.
\<close>

datatype 'a blocking = Blocked | Ran 'a

record SecureTrie =
  sec_trie :: Trie
  secKeyCache :: "(bytes, bytes) gomap"
  sec_owner :: bool

definition NewSecure :: "bytes \<Rightarrow> node_db option \<Rightarrow> bytes \<Rightarrow> u16 \<Rightarrow> (trie_error + SecureTrie) option" where
  "NewSecure emptyRoot db root cachelimit =
     (case db of
        None \<Rightarrow> None
      | Some d \<Rightarrow> Some (case trie_New emptyRoot d root of
          Inl err \<Rightarrow> Inl err
        | Inr trie \<Rightarrow> Inr \<lparr>sec_trie = SetCacheLimit cachelimit trie, secKeyCache = [], sec_owner = False\<rparr>))"

type_synonym secure = "bool \<times> SecureTrie"

definition with_secureTrieLock :: "(secure \<Rightarrow> (secure \<times> 'r) blocking) \<Rightarrow> secure \<Rightarrow> (secure \<times> 'r) blocking" where
  "with_secureTrieLock body s =
     (if fst s then Blocked
      else case body (True, snd s) of Blocked \<Rightarrow> Blocked | Ran (s1, r) \<Rightarrow> Ran ((False, snd s1), r))"

definition getSecKeyCache :: "SecureTrie \<Rightarrow> SecureTrie" where
  "getSecKeyCache t = (if \<not> sec_owner t then t\<lparr>sec_owner := True, secKeyCache := []\<rparr> else t)"

definition secure_Copy :: "SecureTrie \<Rightarrow> SecureTrie" where
  "secure_Copy t = t\<lparr>sec_owner := False\<rparr>"

definition secure_TryGet :: "(bytes \<Rightarrow> bytes) \<Rightarrow> node_db \<Rightarrow> SecureTrie \<Rightarrow> bytes \<Rightarrow> (SecureTrie \<times> bytes option \<times> trie_error option) outcome" where
  "secure_TryGet hashKey db t key =
     obind (TryGet db (sec_trie t) (hashKey key)) (\<lambda>(t1, val, err). Value (t\<lparr>sec_trie := t1\<rparr>, val, err))"

definition secure_TryUpdate ::
  "(bytes \<Rightarrow> bytes) \<Rightarrow> node_db \<Rightarrow> bytes \<Rightarrow> bytes \<Rightarrow> secure \<Rightarrow> (secure \<times> trie_error option outcome) blocking" where
  "secure_TryUpdate hashKey db key value = with_secureTrieLock (\<lambda>(l, t).
     let hk = hashKey key in
     case TryUpdate db (sec_trie t) hk value of
       Value (t1, Some err) \<Rightarrow> Ran ((l, t\<lparr>sec_trie := t1\<rparr>), Value (Some err))
     | Value (t1, None) \<Rightarrow>
         (let t2 = getSecKeyCache (t\<lparr>sec_trie := t1\<rparr>) in Ran ((l, t2\<lparr>secKeyCache := gm_set hk key (secKeyCache t2)\<rparr>), Value None))
     | Panics \<Rightarrow> Ran ((l, t), Panics)
     | NoFuel \<Rightarrow> Ran ((l, t), NoFuel))"

definition secure_TryDelete ::
  "(bytes \<Rightarrow> bytes) \<Rightarrow> node_db \<Rightarrow> bytes \<Rightarrow> secure \<Rightarrow> (secure \<times> trie_error option outcome) blocking" where
  "secure_TryDelete hashKey db key = with_secureTrieLock (\<lambda>(l, t).
     let hk = hashKey key; t1 = getSecKeyCache t; t2 = t1\<lparr>secKeyCache := gm_del hk (secKeyCache t1)\<rparr> in
     case TryDelete db (sec_trie t2) hk of
       Value (t3, err) \<Rightarrow> Ran ((l, t2\<lparr>sec_trie := t3\<rparr>), Value err)
     | Panics \<Rightarrow> Ran ((l, t2), Panics)
     | NoFuel \<Rightarrow> Ran ((l, t2), NoFuel))"

definition secure_Delete ::
  "(bytes \<Rightarrow> bytes) \<Rightarrow> node_db \<Rightarrow> bytes \<Rightarrow> secure \<Rightarrow> (secure \<times> trie_error option outcome) blocking" where
  "secure_Delete hashKey db key = with_secureTrieLock (secure_TryDelete hashKey db key)"

definition secure_GetKey :: "(bytes \<Rightarrow> bytes option) \<Rightarrow> bytes \<Rightarrow> secure \<Rightarrow> (secure \<times> bytes option) blocking" where
  "secure_GetKey preimage shaKey = with_secureTrieLock (\<lambda>(l, t).
     let t1 = getSecKeyCache t in
     Ran ((l, t1), case gm_get (secKeyCache t1) shaKey of Some key \<Rightarrow> Some key | None \<Rightarrow> preimage shaKey))"

text \<open>
  C33: With the lock free, updating a key, deleting it with \<open>TryDelete\<close> and looking up a preimage all return
  and leave the lock free; after an update the preimage of the hashed key is known.  \<open>Delete\<close> never
  returns: it takes the lock and then calls \<open>TryDelete\<close>, which waits for it.
\<close>

theorem secure_trie_locks:
  assumes "wf_trie db (sec_trie t)"
  shows "(\<exists>t1. secure_TryUpdate hashKey db key value (False, t) = Ran ((False, t1), Value None) \<and> wf_trie db (sec_trie t1) \<and>
      secure_GetKey preimage (hashKey key) (False, t1) = Ran ((False, t1), Some key)) \<and>
    (\<exists>t2. secure_TryDelete hashKey db key (False, t) = Ran ((False, t2), Value None) \<and> wf_trie db (sec_trie t2)) \<and>
    secure_Delete hashKey db key (lock, t) = Blocked"
proof -
  obtain t1 t2 where "TryUpdate db (sec_trie t) (hashKey key) value = Value (t1, None)" "wf_trie db t1"
    "TryDelete db (sec_trie t) (hashKey key) = Value (t2, None)" "wf_trie db t2"
    using updates_return[OF assms] by blast
  then show ?thesis
    by (auto simp: secure_TryUpdate_def secure_TryDelete_def secure_GetKey_def secure_Delete_def with_secureTrieLock_def getSecKeyCache_def
        Let_def gm_get_set)
qed

theorem secure_trie_locks_witness:
  "secure_Delete id demo_db [0x12] (False, \<lparr>sec_trie = demo_trie, secKeyCache = [], sec_owner = False\<rparr>) = Blocked \<and>
   (\<exists>t. secure_TryDelete id demo_db [0x12] (False, \<lparr>sec_trie = demo_trie, secKeyCache = [], sec_owner = False\<rparr>) = Ran ((False, t), Value None))"
  using secure_trie_locks[of demo_db "\<lparr>sec_trie = demo_trie, secKeyCache = [], sec_owner = False\<rparr>" id "[0x12]" "[]" "\<lambda>k. None" False] demo_trie_wf
  by auto

end
