(* ===== verification/Mpt_Concurrent.thy ===== *)
theory Mpt_Concurrent
  imports Mpt_Ops Go_Threads
begin

text \<open>
  Several goroutines on one trie: \<open>tryUpdate\<close> of \<open>trie/trie.go\<close> reads the root pointer, computes a new root and publishes
  it with a compare-and-swap, and starts again if another thread was faster; \<open>TryGet\<close> publishes a root with the nodes it has
  loaded by a plain assignment.  A pointer is a number that is not used again and the node it points to.  The lemmas show
  that updates are linearizable among themselves, and that a lookup can undo one.
\<close>

type_synonym node_ptr = "(nat \<times> node) option"

datatype tt_op = TtUpdate bytes bytes | TtGet bytes

text \<open>
  Where a thread is: about to read the root, with the root it has read, with a new root to swap in, with a root to
  assign, or done with the error it returns.
\<close>

datatype tt_pc = TtStart | TtLoaded node_ptr | TtSwap node_ptr node | TtAssign node | TtDone "trie_error option"

record tt_thread =
  tt_op :: tt_op
  tt_pc :: tt_pc

text \<open>\<open>tt_log\<close> records the threads whose swap succeeded, in order.\<close>

record tt_state =
  tt_root :: node_ptr
  tt_next :: nat
  tt_threads :: "tt_thread list"
  tt_log :: "nat list"

abbreviation ptr_node :: "node_ptr \<Rightarrow> node" where
  "ptr_node p \<equiv> root_node (map_option snd p)"

definition tt_goto :: "nat \<Rightarrow> tt_pc \<Rightarrow> tt_state \<Rightarrow> tt_state" where
  "tt_goto i pc s = s\<lparr>tt_threads := (tt_threads s)[i := (tt_threads s ! i)\<lparr>tt_pc := pc\<rparr>]\<rparr>"

definition tt_publish :: "node \<Rightarrow> tt_state \<Rightarrow> tt_state" where
  "tt_publish n s = s\<lparr>tt_root := Some (tt_next s, n), tt_next := tt_next s + 1\<rparr>"

inductive tt_step :: "node_db \<Rightarrow> u16 \<Rightarrow> tt_state \<Rightarrow> tt_state \<Rightarrow> bool" for db gen where
  tt_load: "i < length (tt_threads s) \<Longrightarrow> tt_pc (tt_threads s ! i) = TtStart \<Longrightarrow> tt_step db gen s (tt_goto i (TtLoaded (tt_root s)) s)"
| tt_compute: "i < length (tt_threads s) \<Longrightarrow> tt_pc (tt_threads s ! i) = TtLoaded oldRoot \<Longrightarrow>
    tt_op (tt_threads s ! i) = TtUpdate key value \<Longrightarrow> update_root db gen key value (ptr_node oldRoot) = Value (Inr (dirty, n)) \<Longrightarrow>
    tt_step db gen s (tt_goto i (TtSwap oldRoot n) s)"
| tt_fail: "i < length (tt_threads s) \<Longrightarrow> tt_pc (tt_threads s ! i) = TtLoaded oldRoot \<Longrightarrow>
    tt_op (tt_threads s ! i) = TtUpdate key value \<Longrightarrow> update_root db gen key value (ptr_node oldRoot) = Value (Inl err) \<Longrightarrow>
    tt_step db gen s (tt_goto i (TtDone (Some err)) s)"
| tt_swap: "i < length (tt_threads s) \<Longrightarrow> tt_pc (tt_threads s ! i) = TtSwap oldRoot n \<Longrightarrow> map_option fst (tt_root s) = map_option fst oldRoot \<Longrightarrow>
    tt_step db gen s ((tt_publish n (tt_goto i (TtDone None) s))\<lparr>tt_log := tt_log s @ [i]\<rparr>)"
| tt_retry: "i < length (tt_threads s) \<Longrightarrow> tt_pc (tt_threads s ! i) = TtSwap oldRoot n \<Longrightarrow> map_option fst (tt_root s) \<noteq> map_option fst oldRoot \<Longrightarrow>
    tt_step db gen s (tt_goto i TtStart s)"
| tt_get: "i < length (tt_threads s) \<Longrightarrow> tt_pc (tt_threads s ! i) = TtLoaded oldRoot \<Longrightarrow> tt_op (tt_threads s ! i) = TtGet key \<Longrightarrow>
    tryGet (key_fuel key) db gen (ptr_node oldRoot) (keybytesToHex key) 0 = Value (val, newroot, didResolve, err) \<Longrightarrow>
    tt_step db gen s (tt_goto i (if err = None \<and> didResolve then TtAssign newroot else TtDone err) s)"
| tt_assign: "i < length (tt_threads s) \<Longrightarrow> tt_pc (tt_threads s ! i) = TtAssign newroot \<Longrightarrow>
    tt_step db gen s (tt_publish newroot (tt_goto i (TtDone None) s))"

inductive_cases tt_stepE: "tt_step db gen s t"

definition tt_start :: "node option \<Rightarrow> tt_op list \<Rightarrow> tt_state" where
  "tt_start root ops = \<lparr>tt_root = map_option (\<lambda>n. (0, n)) root, tt_next = 1, tt_threads = map (\<lambda>oper. \<lparr>tt_op = oper, tt_pc = TtStart\<rparr>) ops,
     tt_log = []\<rparr>"

subsection \<open>What the trie holds\<close>

definition node_value :: "node_db \<Rightarrow> node \<Rightarrow> bytes \<Rightarrow> bytes option" where
  "node_value db n key = (case tryGet (key_fuel key) db 0 n (keybytesToHex key) 0 of Value (val, _) \<Rightarrow> val | _ \<Rightarrow> None)"

fun apply_op :: "tt_op \<Rightarrow> (bytes \<Rightarrow> bytes option) \<Rightarrow> bytes \<Rightarrow> bytes option" where
  "apply_op (TtUpdate key value) m = m(key := if value = [] then None else Some value)"
| "apply_op (TtGet key) m = m"

lemma node_value_holds:
  assumes "wf_root db n"
  shows "node_value db n key = Some v \<longleftrightarrow> holds db n (keybytesToHex key) v"
proof -
  have "gets db n (keybytesToHex key) (tryGet (key_fuel key) db 0 n (keybytesToHex key) 0)"
    using tryGet_correct[of db "keybytesToHex key" n "key_fuel key" 0 "[]"] wf_root_slot[OF assms] by (simp add: key_fuel_def)
  then show ?thesis by (auto simp: node_value_def gets_def found_def split: outcome.splits)
qed

lemma node_value_update:
  assumes "wf_root db n" and "update_root db gen key value n = Value (Inr (dirty, n'))"
  shows "wf_root db n'" and "node_value db n' = apply_op (TtUpdate key value) (node_value db n)"
proof -
  show w: "wf_root db n'" using update_root_correct[OF assms(1), of gen key "value"] assms(2) by auto
  have "node_value db n' k = Some v \<longleftrightarrow> apply_op (TtUpdate key value) (node_value db n) k = Some v" for k v
    using update_root_correct[OF assms(1), of gen key "value"] assms(2)
    by (auto simp: node_value_holds[OF w] node_value_holds[OF assms(1)])
  then show "node_value db n' = apply_op (TtUpdate key value) (node_value db n)"
    by (intro ext) (metis option.exhaust)
qed

subsection \<open>Updates among themselves\<close>

text \<open>A pointer that a thread has read: older than the next one, and unchanged if it is still the root.\<close>

definition ptr_ok :: "node_db \<Rightarrow> tt_state \<Rightarrow> node_ptr \<Rightarrow> bool" where
  "ptr_ok db s p \<longleftrightarrow> wf_root db (ptr_node p) \<and> (\<forall>q. p = Some q \<longrightarrow> fst q < tt_next s) \<and>
     (map_option fst (tt_root s) = map_option fst p \<longrightarrow> tt_root s = p)"

definition tt_thread_ok :: "node_db \<Rightarrow> u16 \<Rightarrow> tt_state \<Rightarrow> nat \<Rightarrow> tt_thread \<Rightarrow> bool" where
  "tt_thread_ok db gen s i t = (case tt_op t of TtGet key \<Rightarrow> False | TtUpdate key value \<Rightarrow>
     (case tt_pc t of
        TtStart \<Rightarrow> i \<notin> set (tt_log s)
      | TtLoaded p \<Rightarrow> i \<notin> set (tt_log s) \<and> ptr_ok db s p
      | TtSwap p n \<Rightarrow> i \<notin> set (tt_log s) \<and> ptr_ok db s p \<and> (\<exists>d. update_root db gen key value (ptr_node p) = Value (Inr (d, n)))
      | TtAssign n \<Rightarrow> False
      | TtDone err \<Rightarrow> err = None \<and> i \<in> set (tt_log s)))"

definition tt_inv :: "node_db \<Rightarrow> u16 \<Rightarrow> node \<Rightarrow> tt_op list \<Rightarrow> tt_state \<Rightarrow> bool" where
  "tt_inv db gen n0 ops s \<longleftrightarrow> ptr_ok db s (tt_root s) \<and> distinct (tt_log s) \<and> set (tt_log s) \<subseteq> {..<length ops} \<and>
     map tt_op (tt_threads s) = ops \<and>
     node_value db (ptr_node (tt_root s)) = fold (\<lambda>i. apply_op (ops ! i)) (tt_log s) (node_value db n0) \<and>
     (\<forall>i<length (tt_threads s). tt_thread_ok db gen s i (tt_threads s ! i))"

lemma tt_goto_fields [simp]:
  "tt_root (tt_goto i pc s) = tt_root s" "tt_next (tt_goto i pc s) = tt_next s" "tt_log (tt_goto i pc s) = tt_log s"
  "tt_threads (tt_goto i pc s) = (tt_threads s)[i := (tt_threads s ! i)\<lparr>tt_pc := pc\<rparr>]"
  by (simp_all add: tt_goto_def)

lemma tt_publish_fields [simp]:
  "tt_root (tt_publish n s) = Some (tt_next s, n)" "tt_next (tt_publish n s) = tt_next s + 1" "tt_log (tt_publish n s) = tt_log s"
  "tt_threads (tt_publish n s) = tt_threads s"
  by (simp_all add: tt_publish_def)

lemma map_op_goto: "map tt_op ((tt_threads s)[i := (tt_threads s ! i)\<lparr>tt_pc := pc\<rparr>]) = map tt_op (tt_threads s)"
proof (rule nth_equalityI)
  fix j
  assume "j < length (map tt_op ((tt_threads s)[i := (tt_threads s ! i)\<lparr>tt_pc := pc\<rparr>]))"
  then show "map tt_op ((tt_threads s)[i := (tt_threads s ! i)\<lparr>tt_pc := pc\<rparr>]) ! j = map tt_op (tt_threads s) ! j"
    by (cases "j = i") simp_all
qed simp

lemma inv_goto:
  assumes "tt_inv db gen n0 ops s" and "i < length (tt_threads s)"
    and "tt_thread_ok db gen s i ((tt_threads s ! i)\<lparr>tt_pc := pc\<rparr>)"
  shows "tt_inv db gen n0 ops (tt_goto i pc s)"
proof -
  have same: "ptr_ok db (tt_goto i pc s) p = ptr_ok db s p" for p by (simp add: ptr_ok_def)
  then have "tt_thread_ok db gen (tt_goto i pc s) j t = tt_thread_ok db gen s j t" for j t
    by (simp add: tt_thread_ok_def split: tt_op.split tt_pc.split)
  then show ?thesis
    using assms same by (auto simp: tt_inv_def map_op_goto nth_list_update)
qed

lemma inv_swap:
  assumes inv: "tt_inv db gen n0 ops s" and i: "i < length (tt_threads s)" "tt_pc (tt_threads s ! i) = TtSwap oldRoot n"
    and eq: "map_option fst (tt_root s) = map_option fst oldRoot"
  shows "tt_inv db gen n0 ops ((tt_publish n (tt_goto i (TtDone None) s))\<lparr>tt_log := tt_log s @ [i]\<rparr>)" (is "tt_inv db gen n0 ops ?s")
proof -
  have "tt_thread_ok db gen s i (tt_threads s ! i)" using inv i(1) by (simp add: tt_inv_def)
  then obtain key val d where t: "tt_op (tt_threads s ! i) = TtUpdate key val" "i \<notin> set (tt_log s)" "ptr_ok db s oldRoot"
    "update_root db gen key val (ptr_node oldRoot) = Value (Inr (d, n))"
    using i(2) by (auto simp: tt_thread_ok_def split: tt_op.splits)
  then have root: "tt_root s = oldRoot" "wf_root db (ptr_node oldRoot)" using eq by (simp_all add: ptr_ok_def)
  note upd = node_value_update[OF root(2) t(4)]
  have old: "ptr_ok db ?s p" if "ptr_ok db s p" for p
    using that by (cases p) (auto simp: ptr_ok_def)
  have "ops ! i = TtUpdate key val" using inv i(1) t(1) by (auto simp: tt_inv_def)
  then have val: "node_value db n = fold (\<lambda>i. apply_op (ops ! i)) (tt_log s @ [i]) (node_value db n0)"
    using inv root upd(2) by (auto simp: tt_inv_def)
  have other: "tt_thread_ok db gen ?s j (tt_threads s ! j)" if "j < length (tt_threads s)" "j \<noteq> i" for j
  proof -
    have "tt_thread_ok db gen s j (tt_threads s ! j)" using inv that(1) by (simp add: tt_inv_def)
    then show ?thesis using old that(2) by (auto simp: tt_thread_ok_def split: tt_op.splits tt_pc.splits)
  qed
  have "i < length ops" "ptr_ok db ?s (Some (tt_next s, n))" "tt_thread_ok db gen ?s i ((tt_threads s ! i)\<lparr>tt_pc := TtDone None\<rparr>)"
    using inv i(1) upd(1) t(1) by (auto simp: tt_inv_def ptr_ok_def tt_thread_ok_def root_node_def)
  then show ?thesis
    using inv t(2) val other by (auto simp: tt_inv_def map_op_goto nth_list_update root_node_def)
qed

interpretation tt: step_invariant "tt_step db gen" "tt_inv db gen n0 ops" for db gen n0 ops
proof
  fix s t
  assume "tt_step db gen s t" and inv: "tt_inv db gen n0 ops s"
  have ok: "tt_thread_ok db gen s i (tt_threads s ! i)" if "i < length (tt_threads s)" for i using inv that by (simp add: tt_inv_def)
  have root: "ptr_ok db s (tt_root s)" using inv by (simp add: tt_inv_def)
  from \<open>tt_step db gen s t\<close> show "tt_inv db gen n0 ops t"
  proof cases
    case (tt_swap i oldRoot n)
    then show ?thesis using inv_swap[OF inv] by blast
  next
    case (tt_load i)
    show ?thesis unfolding tt_load(1) using ok[OF tt_load(2)] tt_load(3) root
      by (intro inv_goto[OF inv tt_load(2)]) (auto simp: tt_thread_ok_def split: tt_op.splits)
  next
    case (tt_compute i oldRoot key val dirty n)
    show ?thesis unfolding tt_compute(1) using ok[OF tt_compute(2)] tt_compute
      by (intro inv_goto[OF inv tt_compute(2)]) (auto simp: tt_thread_ok_def split: tt_op.splits)
  next
    case (tt_fail i oldRoot key val err)
    then have "wf_root db (ptr_node oldRoot)" using ok[OF tt_fail(2)] by (auto simp: tt_thread_ok_def ptr_ok_def)
    then show ?thesis using update_root_correct[of db "ptr_node oldRoot" gen key val] tt_fail by auto
  next
    case (tt_retry i oldRoot n)
    show ?thesis unfolding tt_retry(1) using ok[OF tt_retry(2)] tt_retry
      by (intro inv_goto[OF inv tt_retry(2)]) (auto simp: tt_thread_ok_def split: tt_op.splits)
  next
    case (tt_get i oldRoot key val newroot didResolve err)
    then show ?thesis using ok[OF tt_get(2)] by (simp add: tt_thread_ok_def)
  next
    case (tt_assign i newroot)
    then show ?thesis using ok[OF tt_assign(2)] by (simp add: tt_thread_ok_def split: tt_op.splits)
  qed
qed

lemma inv_start: "wf_root db (root_node root) \<Longrightarrow> ops = map (\<lambda>(k, v). TtUpdate k v) kvs \<Longrightarrow> tt_inv db gen (root_node root) ops (tt_start root ops)"
  by (cases root) (auto simp: tt_inv_def ptr_ok_def tt_start_def tt_thread_ok_def root_node_def comp_def case_prod_beta)

text \<open>A thread that runs alone finishes its update, from wherever it is.\<close>

definition can_log :: "node_db \<Rightarrow> u16 \<Rightarrow> nat \<Rightarrow> tt_state \<Rightarrow> bool" where
  "can_log db gen i s \<longleftrightarrow> (\<exists>s'. (tt_step db gen)\<^sup>*\<^sup>* s s' \<and> tt_log s' = tt_log s @ [i])"

lemma can_log_step: "tt_step db gen s t \<Longrightarrow> tt_log t = tt_log s \<Longrightarrow> can_log db gen i t \<Longrightarrow> can_log db gen i s"
  unfolding can_log_def by (metis converse_rtranclp_into_rtranclp)

lemma can_log_swap:
  "i < length (tt_threads s) \<Longrightarrow> tt_pc (tt_threads s ! i) = TtSwap oldRoot n \<Longrightarrow> map_option fst (tt_root s) = map_option fst oldRoot \<Longrightarrow>
   can_log db gen i s"
  unfolding can_log_def by (intro exI[of _ "(tt_publish n (tt_goto i (TtDone None) s))\<lparr>tt_log := tt_log s @ [i]\<rparr>"] conjI r_into_rtranclp tt_swap) auto

lemma can_log_loaded:
  assumes "tt_inv db gen n0 ops s" and i: "i < length (tt_threads s)" and pc: "tt_pc (tt_threads s ! i) = TtLoaded p"
    and nxt: "\<And>s' n. i < length (tt_threads s') \<Longrightarrow> tt_pc (tt_threads s' ! i) = TtSwap p n \<Longrightarrow> tt_root s' = tt_root s \<Longrightarrow>
      tt_inv db gen n0 ops s' \<Longrightarrow> can_log db gen i s'"
  shows "can_log db gen i s"
proof -
  have "tt_thread_ok db gen s i (tt_threads s ! i)" using assms(1) i by (simp add: tt_inv_def)
  then obtain key val where t: "tt_op (tt_threads s ! i) = TtUpdate key val" "wf_root db (ptr_node p)"
    using pc by (auto simp: tt_thread_ok_def ptr_ok_def split: tt_op.splits)
  obtain d n where "update_root db gen key val (ptr_node p) = Value (Inr (d, n))" using update_root_correct[OF t(2)] by blast
  then have step: "tt_step db gen s (tt_goto i (TtSwap p n) s)" by (rule tt_compute[OF i pc t(1)])
  show ?thesis
    by (rule can_log_step[OF step _ nxt[of _ n]]) (use i tt.step_inv[OF step assms(1)] in simp_all)
qed

lemma can_log_start:
  assumes "tt_inv db gen n0 ops s" and i: "i < length (tt_threads s)" and pc: "tt_pc (tt_threads s ! i) = TtStart"
  shows "can_log db gen i s"
proof -
  have step: "tt_step db gen s (tt_goto i (TtLoaded (tt_root s)) s)" by (rule tt_load[OF i pc])
  show ?thesis
  proof (rule can_log_step[OF step _ can_log_loaded[OF tt.step_inv[OF step assms(1)]]])
    fix s' :: tt_state and n
    assume "i < length (tt_threads s')" "tt_pc (tt_threads s' ! i) = TtSwap (tt_root s) n" "tt_root s' = tt_root (tt_goto i (TtLoaded (tt_root s)) s)"
    then show "can_log db gen i s'" by (intro can_log_swap) simp_all
  qed (use i in simp_all)
qed

lemma can_log_any:
  assumes inv: "tt_inv db gen n0 ops s" and i: "i < length (tt_threads s)" and out: "i \<notin> set (tt_log s)"
  shows "can_log db gen i s"
proof -
  have swap: "can_log db gen i s'" if s': "tt_inv db gen n0 ops s'" "i < length (tt_threads s')" "tt_pc (tt_threads s' ! i) = TtSwap p n" for s' p n
  proof (cases "map_option fst (tt_root s') = map_option fst p")
    case False
    have step: "tt_step db gen s' (tt_goto i TtStart s')" by (rule tt_retry[OF s'(2,3) False])
    show ?thesis
      by (rule can_log_step[OF step _ can_log_start[OF tt.step_inv[OF step s'(1)]]]) (use s'(2) in simp_all)
  qed (rule can_log_swap[OF s'(2,3)])
  have ok: "tt_thread_ok db gen s i (tt_threads s ! i)" using inv i by (simp add: tt_inv_def)
  show ?thesis
  proof (cases "tt_pc (tt_threads s ! i)")
    case (TtLoaded p)
    show ?thesis by (rule can_log_loaded[OF inv i TtLoaded]) (rule swap)
  next
    case (TtSwap p n)
    then show ?thesis by (rule swap[OF inv i])
  qed (use ok out can_log_start[OF inv i] in \<open>auto simp: tt_thread_ok_def split: tt_op.splits\<close>)
qed

lemma all_can_finish:
  assumes "tt_inv db gen n0 ops s"
  shows "\<exists>s'. (tt_step db gen)\<^sup>*\<^sup>* s s' \<and> set (tt_log s') = {..<length ops}"
  using assms
proof (induction "card ({..<length ops} - set (tt_log s))" arbitrary: s rule: less_induct)
  case less
  have len: "length (tt_threads s) = length ops" and log: "set (tt_log s) \<subseteq> {..<length ops}"
    using less.prems by (auto simp: tt_inv_def)
  show ?case
  proof (cases "set (tt_log s) = {..<length ops}")
    case False
    then obtain i where i: "i < length ops" "i \<notin> set (tt_log s)" using log by blast
    then obtain t where t: "(tt_step db gen)\<^sup>*\<^sup>* s t" "tt_log t = tt_log s @ [i]"
      using can_log_any[OF less.prems] len by (auto simp: can_log_def)
    have "card ({..<length ops} - set (tt_log t)) < card ({..<length ops} - set (tt_log s))"
      by (rule psubset_card_mono) (use i t(2) in auto)
    then show ?thesis using less.hyps[OF _ tt.steps_inv[OF t(1) less.prems]] t(1) by (meson rtranclp_trans)
  qed blast
qed

text \<open>
  C7: Concurrent updates of one trie are linearizable: in every interleaving of any number of goroutines that each
  update a key, the trie holds what the updates that have finished give when they are applied one after the other, each
  once, in the order of their compare-and-swap; no update returns an error; and from every state of every interleaving
  all of them can still finish.
\<close>

theorem concurrent_updates_linearizable:
  assumes "wf_root db (root_node root)" and "ops = map (\<lambda>(k, v). TtUpdate k v) kvs"
    and "(tt_step db gen)\<^sup>*\<^sup>* (tt_start root ops) s"
  shows "node_value db (ptr_node (tt_root s)) = fold (\<lambda>i. apply_op (ops ! i)) (tt_log s) (node_value db (root_node root)) \<and>
    distinct (tt_log s) \<and> set (tt_log s) \<subseteq> {..<length ops} \<and>
    (\<forall>i<length ops. i \<in> set (tt_log s) \<longleftrightarrow> tt_pc (tt_threads s ! i) = TtDone None) \<and>
    (\<forall>i<length ops. \<forall>err. tt_pc (tt_threads s ! i) \<noteq> TtDone (Some err)) \<and>
    (\<exists>s'. (tt_step db gen)\<^sup>*\<^sup>* s s' \<and> set (tt_log s') = {..<length ops})"
proof -
  have inv: "tt_inv db gen (root_node root) ops s" by (rule tt.steps_inv[OF assms(3) inv_start[OF assms(1,2)]])
  then have len: "length (tt_threads s) = length ops" by (auto simp: tt_inv_def)
  then have ok: "tt_thread_ok db gen s i (tt_threads s ! i)" if "i < length ops" for i using inv that by (simp add: tt_inv_def)
  have "(i \<in> set (tt_log s) \<longleftrightarrow> tt_pc (tt_threads s ! i) = TtDone None) \<and> tt_pc (tt_threads s ! i) \<noteq> TtDone (Some err)"
    if "i < length ops" for i err
    using ok[OF that] by (auto simp: tt_thread_ok_def split: tt_op.splits tt_pc.splits)
  then show ?thesis using inv all_can_finish[OF inv] by (auto simp: tt_inv_def)
qed

theorem concurrent_updates_linearizable_witness:
  "\<exists>s'. (tt_step demo_db 0)\<^sup>*\<^sup>* (tt_start (Some (HashNode [1])) [TtUpdate [0x13] [8], TtUpdate [0x12] []]) s' \<and> set (tt_log s') = {..<2}"
  using concurrent_updates_linearizable[of demo_db "Some (HashNode [1])" _ "[([0x13], [8]), ([0x12], [])]" 0, OF _ refl rtranclp.rtrancl_refl]
    demo_trie_wf by (auto simp: wf_trie_def demo_trie_def numeral_2_eq_2)

subsection \<open>A lookup that undoes an update\<close>

text \<open>The states of one schedule: the lookup of thread 1 runs up to its assignment, the update of thread 0 runs, the lookup assigns.\<close>

definition lost_root :: node where
  "lost_root = (case tryGet (key_fuel [0x12]) demo_db 0 (HashNode [1]) (keybytesToHex [0x12]) 0 of Value (_, n, _) \<Rightarrow> n | _ \<Rightarrow> NilNode)"

definition lost_new :: node where
  "lost_new = (case update_root demo_db 0 [0x13] [8] (HashNode [1]) of Value (Inr (_, n)) \<Rightarrow> n | _ \<Rightarrow> NilNode)"

lemma lost_get: "tryGet (key_fuel [0x12]) demo_db 0 (HashNode [1]) (keybytesToHex [0x12]) 0 = Value (Some [7], lost_root, True, None)"
  by code_simp

lemma lost_update: "update_root demo_db 0 [0x13] [8] (HashNode [1]) = Value (Inr (True, lost_new))"
  by code_simp

lemma lost_values: "node_value demo_db lost_root [0x13] = None" "node_value demo_db lost_new [0x13] = Some [8]"
  by code_simp+

text \<open>
  C40: A lookup can undo an update that has already returned: on a trie whose root is not loaded there is a schedule of an
  update and a lookup, of different keys, in which the update returns without an error and its value is in the trie,
  and the lookup then assigns the root that it had loaded before, after which the value is gone.
\<close>

theorem lookup_undoes_update:
  "\<exists>s1 s2. (tt_step demo_db 0)\<^sup>*\<^sup>* (tt_start (Some (HashNode [1])) [TtUpdate [0x13] [8], TtGet [0x12]]) s1 \<and>
     tt_pc (tt_threads s1 ! 0) = TtDone None \<and> node_value demo_db (ptr_node (tt_root s1)) [0x13] = Some [8] \<and>
     tt_step demo_db 0 s1 s2 \<and> tt_pc (tt_threads s2 ! 1) = TtDone None \<and> node_value demo_db (ptr_node (tt_root s2)) [0x13] = None"
proof -
  let ?p = "Some (0, HashNode [1])"
  let ?s = "\<lambda>r m pc0 pc1 l. \<lparr>tt_root = r, tt_next = m, tt_threads = [\<lparr>tt_op = TtUpdate [0x13] [8], tt_pc = pc0\<rparr>, \<lparr>tt_op = TtGet [0x12], tt_pc = pc1\<rparr>],
    tt_log = l\<rparr>"
  note goto = tt_goto_def tt_publish_def root_node_def eval_nat_numeral
  have "tt_step demo_db 0 (?s ?p 1 TtStart TtStart []) (?s ?p 1 TtStart (TtLoaded ?p) [])"
    using tt_load[of 1 "?s ?p 1 TtStart TtStart []" demo_db 0] by (simp add: goto)
  moreover have "tt_step demo_db 0 (?s ?p 1 TtStart (TtLoaded ?p) []) (?s ?p 1 TtStart (TtAssign lost_root) [])"
    using tt_get[of 1 "?s ?p 1 TtStart (TtLoaded ?p) []" ?p "[0x12]" demo_db 0 "Some [7]" lost_root True None] lost_get by (simp add: goto)
  moreover have "tt_step demo_db 0 (?s ?p 1 TtStart (TtAssign lost_root) []) (?s ?p 1 (TtLoaded ?p) (TtAssign lost_root) [])"
    using tt_load[of 0 "?s ?p 1 TtStart (TtAssign lost_root) []" demo_db 0] by (simp add: goto)
  moreover have "tt_step demo_db 0 (?s ?p 1 (TtLoaded ?p) (TtAssign lost_root) []) (?s ?p 1 (TtSwap ?p lost_new) (TtAssign lost_root) [])"
    using tt_compute[of 0 "?s ?p 1 (TtLoaded ?p) (TtAssign lost_root) []" ?p "[0x13]" "[8]" demo_db 0 True lost_new] lost_update by (simp add: goto)
  moreover have "tt_step demo_db 0 (?s ?p 1 (TtSwap ?p lost_new) (TtAssign lost_root) []) (?s (Some (1, lost_new)) 2 (TtDone None) (TtAssign lost_root) [0])"
    using tt_swap[of 0 "?s ?p 1 (TtSwap ?p lost_new) (TtAssign lost_root) []" ?p lost_new demo_db 0] by (simp add: goto)
  ultimately have run: "(tt_step demo_db 0)\<^sup>*\<^sup>* (?s ?p 1 TtStart TtStart []) (?s (Some (1, lost_new)) 2 (TtDone None) (TtAssign lost_root) [0])"
    by (meson converse_rtranclp_into_rtranclp rtranclp.rtrancl_refl)
  have last: "tt_step demo_db 0 (?s (Some (1, lost_new)) 2 (TtDone None) (TtAssign lost_root) [0]) (?s (Some (2, lost_root)) 3 (TtDone None) (TtDone None) [0])"
    using tt_assign[of 1 "?s (Some (1, lost_new)) 2 (TtDone None) (TtAssign lost_root) [0]" lost_root demo_db 0] by (simp add: goto)
  show ?thesis
  proof (intro exI conjI)
    show "(tt_step demo_db 0)\<^sup>*\<^sup>* (tt_start (Some (HashNode [1])) [TtUpdate [0x13] [8], TtGet [0x12]])
        (?s (Some (1, lost_new)) 2 (TtDone None) (TtAssign lost_root) [0])"
      using run by (simp add: tt_start_def)
    show "tt_step demo_db 0 (?s (Some (1, lost_new)) 2 (TtDone None) (TtAssign lost_root) [0]) (?s (Some (2, lost_root)) 3 (TtDone None) (TtDone None) [0])"
      by (rule last)
  qed (simp_all add: lost_values root_node_def)
qed

end
