(* ===== verification/Block_Types.thy ===== *)
theory Block_Types
  imports State_Db Tx_Types
begin

text \<open>
  Blocks and receipts (\<open>core/types/block.go\<close>, \<open>core/types/receipt.go\<close>) and the Bloom filter over the
  logs of a block (\<open>core/types/bloom9.go\<close>).  The Keccak digest is an argument.  The lemmas show that the
  filter never misses an address or a topic that is in a log.
\<close>

subsection \<open>block.go\<close>

text \<open>A Bloom filter is the 2048-bit number that its bytes spell.\<close>

record Header =
  h_ParentHash :: hash
  h_UncleHash :: hash
  h_Coinbase :: address
  h_Root :: hash
  h_TxHash :: hash
  h_ReceiptHash :: hash
  h_Bloom :: bigint
  h_Difficulty :: bigint
  h_Number :: bigint
  h_GasLimit :: u64
  h_GasUsed :: u64
  h_Time :: bigint
  h_Extra :: bytes
  h_MixDigest :: hash
  h_Nonce :: u64

record Block =
  blk_header :: Header
  blk_uncles :: "Header list"
  blk_transactions :: "transaction list"

subsection \<open>bloom9.go\<close>

definition hash_byte :: "hash \<Rightarrow> nat \<Rightarrow> u64" where
  "hash_byte h i = ucast (take_bit 8 (drop_bit (8 * (31 - i)) h))"

definition bloom9 :: "(bytes \<Rightarrow> hash) \<Rightarrow> bytes \<Rightarrow> bigint" where
  "bloom9 keccak b =
     (let d = keccak b in
      fold (\<lambda>i r. r OR push_bit (unat ((hash_byte d (i + 1) + push_bit 8 (hash_byte d i)) AND 2047)) 1) [0, 2, 4] 0)"

text \<open>The bytes of an address or of a hash: \<open>common.Address.Bytes\<close>, \<open>common.Hash.Bytes\<close>.\<close>

definition be_bytes :: "nat \<Rightarrow> bigint \<Rightarrow> bytes" where
  "be_bytes n x = map (\<lambda>i. word_of_int (drop_bit (8 * (n - 1 - i)) x)) [0..<n]"

definition address_Bytes :: "address \<Rightarrow> bytes" where
  "address_Bytes a = be_bytes 20 (uint a)"

definition hash_Bytes :: "hash \<Rightarrow> bytes" where
  "hash_Bytes h = be_bytes 32 (uint h)"

definition LogsBloom :: "(bytes \<Rightarrow> hash) \<Rightarrow> Log list \<Rightarrow> bigint" where
  "LogsBloom keccak logs =
     fold (\<lambda>log bin. fold (\<lambda>b bin. bin OR bloom9 keccak (hash_Bytes b)) (log_Topics log) (bin OR bloom9 keccak (address_Bytes (log_Address log))))
       logs 0"

subsection \<open>receipt.go\<close>

record Receipt =
  r_PostState :: bytes
  r_Status :: u64
  r_CumulativeGasUsed :: u64
  r_Bloom :: bigint
  r_Logs :: "Log list"
  r_TxHash :: hash
  r_ContractAddress :: address
  r_GasUsed :: u64

definition NewReceipt :: "bytes \<Rightarrow> bool \<Rightarrow> u64 \<Rightarrow> Receipt" where
  "NewReceipt root failed cumulativeGasUsed =
     \<lparr>r_PostState = root, r_Status = (if failed then 0 else 1), r_CumulativeGasUsed = cumulativeGasUsed, r_Bloom = 0, r_Logs = [],
      r_TxHash = 0, r_ContractAddress = 0, r_GasUsed = 0\<rparr>"

definition CreateBloom :: "(bytes \<Rightarrow> hash) \<Rightarrow> Receipt list \<Rightarrow> bigint" where
  "CreateBloom keccak receipts = fold (\<lambda>receipt bin. bin OR LogsBloom keccak (r_Logs receipt)) receipts 0"

definition Bloom_Add :: "(bytes \<Rightarrow> hash) \<Rightarrow> bigint \<Rightarrow> bytes \<Rightarrow> bigint" where
  "Bloom_Add keccak bloom d = bloom OR bloom9 keccak d"

definition BloomLookup :: "(bytes \<Rightarrow> hash) \<Rightarrow> bigint \<Rightarrow> bytes \<Rightarrow> bool" where
  "BloomLookup keccak bin topic = (let cmp = bloom9 keccak topic in bin AND cmp = cmp)"

subsection \<open>The filter\<close>

text \<open>One number has all the bits of another one.\<close>

definition has_bits :: "bigint \<Rightarrow> bigint \<Rightarrow> bool" where
  "has_bits x y \<longleftrightarrow> x AND y = y"

lemma has_bits_iff: "has_bits x y \<longleftrightarrow> (\<forall>n. bit y n \<longrightarrow> bit x n)"
  by (auto simp: has_bits_def bit_eq_iff bit_simps)

lemma has_bits_or: "has_bits (x OR y) y" "has_bits x z \<Longrightarrow> has_bits (x OR y) z"
  by (auto simp: has_bits_iff bit_simps)

lemma has_bits_fold: "has_bits x z \<or> (\<exists>a \<in> set as. has_bits (f a) z) \<Longrightarrow> has_bits (fold (\<lambda>a r. r OR f a) as x) z"
proof (induction as arbitrary: x)
  case (Cons a as)
  have "has_bits (x OR f a) z \<or> (\<exists>a \<in> set as. has_bits (f a) z)"
    using Cons.prems by (auto simp: has_bits_iff bit_simps)
  then show ?case using Cons.IH by simp
qed simp

lemma fold_or_from: "fold (\<lambda>a r. r OR f a) as x = x OR fold (\<lambda>a r. r OR f a) as (0 :: bigint)"
proof (induction as arbitrary: x)
  case (Cons a as)
  show ?case using Cons.IH[of "x OR f a"] Cons.IH[of "f a"] by (simp add: or.assoc)
qed simp

lemma LogsBloom_or:
  "LogsBloom keccak logs = fold (\<lambda>log bin. bin OR
     fold (\<lambda>b bin. bin OR bloom9 keccak (hash_Bytes b)) (log_Topics log) (bloom9 keccak (address_Bytes (log_Address log)))) logs 0"
proof -
  have "fold (\<lambda>b bin. bin OR bloom9 keccak (hash_Bytes b)) ts (x OR y) = x OR fold (\<lambda>b bin. bin OR bloom9 keccak (hash_Bytes b)) ts y" for ts x y
    using fold_or_from[of _ ts "x OR y"] fold_or_from[of _ ts y] by (simp add: or.assoc)
  then show ?thesis by (simp add: LogsBloom_def)
qed

lemma CreateBloom_complete:
  assumes "receipt \<in> set receipts" and "log \<in> set (r_Logs receipt)"
    and "topic = address_Bytes (log_Address log) \<or> (\<exists>t \<in> set (log_Topics log). topic = hash_Bytes t)"
  shows "BloomLookup keccak (CreateBloom keccak receipts) topic"
proof -
  have self: "has_bits x x" for x by (simp add: has_bits_def)
  have "has_bits (fold (\<lambda>b bin. bin OR bloom9 keccak (hash_Bytes b)) (log_Topics log) (bloom9 keccak (address_Bytes (log_Address log))))
      (bloom9 keccak topic)"
    using assms(3) self by (intro has_bits_fold) auto
  then have "has_bits (LogsBloom keccak (r_Logs receipt)) (bloom9 keccak topic)"
    unfolding LogsBloom_or using assms(2) by (intro has_bits_fold) auto
  then have "has_bits (CreateBloom keccak receipts) (bloom9 keccak topic)"
    unfolding CreateBloom_def using assms(1) by (intro has_bits_fold) auto
  then show ?thesis by (simp add: BloomLookup_def has_bits_def Let_def)
qed

lemma bloom9_bound: "0 \<le> bloom9 keccak b" "bloom9 keccak b < 2 ^ 2048"
proof -
  have lt: "unat ((w :: u64) AND 2047) < 2048" for w
  proof -
    have "w AND 2047 = take_bit 11 w" by (simp add: take_bit_eq_mask mask_eq_exp_minus_1)
    then show ?thesis using take_bit_nat_less_exp[of 11 "unat w"] by (simp add: unsigned_take_bit_eq)
  qed
  have bits: "bit (bloom9 keccak b) n \<Longrightarrow> n < 2048" for n
    using lt by (auto simp: bloom9_def Let_def bit_simps)
  show "0 \<le> bloom9 keccak b" by (simp add: bloom9_def Let_def)
  have "take_bit 2048 (bloom9 keccak b) = bloom9 keccak b"
    using bits by (auto simp: bit_eq_iff bit_simps)
  then show "bloom9 keccak b < 2 ^ 2048" by (metis take_bit_int_less_exp)
qed

end
