(* ===== verification/Ethash_Rules.thy ===== *)
theory Ethash_Rules
  imports Block_Types Chain_Config
begin

text \<open>
  The rules of the proof-of-work engine for headers and uncles: \<open>consensus/ethash/consensus.go\<close> with the checks of
  \<open>consensus/misc\<close> that it calls.  The hash of a header, the current time and the check of the seal are arguments.
  The lemmas bound what an accepted header can do to difficulty and gas limit, and where an accepted uncle can be.
\<close>

subsection \<open>Constants\<close>

abbreviation DifficultyBoundDivisor :: bigint where "DifficultyBoundDivisor \<equiv> 2048"
abbreviation MinimumDifficulty :: bigint where "MinimumDifficulty \<equiv> 131072"
abbreviation DurationLimit :: bigint where "DurationLimit \<equiv> 13"
abbreviation MaximumExtraDataSize :: nat where "MaximumExtraDataSize \<equiv> 32"
abbreviation GasLimitBoundDivisor :: u64 where "GasLimitBoundDivisor \<equiv> 1024"
abbreviation MinGasLimit :: u64 where "MinGasLimit \<equiv> 5000"
abbreviation expDiffPeriod :: bigint where "expDiffPeriod \<equiv> 100000"

definition DAOForkBlockExtra :: bytes where
  "DAOForkBlockExtra = [0x64, 0x61, 0x6f, 0x2d, 0x68, 0x61, 0x72, 0x64, 0x2d, 0x66, 0x6f, 0x72, 0x6b]"

abbreviation DAOForkExtraRange :: bigint where "DAOForkExtraRange \<equiv> 10"

subsection \<open>Difficulty\<close>

text \<open>The term that grows with the number of the block.\<close>

definition difficulty_bomb :: "bigint \<Rightarrow> bigint \<Rightarrow> bigint" where
  "difficulty_bomb periodCount x = (if periodCount > 1 then x + 2 ^ nat (periodCount - 2) else x)"

definition makeDifficultyCalculator :: "hash \<Rightarrow> bigint \<Rightarrow> u64 \<Rightarrow> Header \<Rightarrow> bigint" where
  "makeDifficultyCalculator EmptyUncleHash bombDelay time parent =
     (let bombDelayFromParent = bombDelay - 1;
          x = (uint time - h_Time parent) div 9;
          x = (if h_UncleHash parent = EmptyUncleHash then 1 - x else 2 - x);
          x = (if x < -99 then -99 else x);
          y = h_Difficulty parent div DifficultyBoundDivisor;
          x = h_Difficulty parent + y * x;
          x = (if x < MinimumDifficulty then MinimumDifficulty else x);
          fakeBlockNumber = (if h_Number parent \<ge> bombDelayFromParent then h_Number parent - bombDelayFromParent else 0)
      in difficulty_bomb (fakeBlockNumber div expDiffPeriod) x)"

definition calcDifficultyConstantinople :: "hash \<Rightarrow> u64 \<Rightarrow> Header \<Rightarrow> bigint" where
  "calcDifficultyConstantinople EmptyUncleHash = makeDifficultyCalculator EmptyUncleHash 5000000"

definition calcDifficultyByzantium :: "hash \<Rightarrow> u64 \<Rightarrow> Header \<Rightarrow> bigint" where
  "calcDifficultyByzantium EmptyUncleHash = makeDifficultyCalculator EmptyUncleHash 3000000"

definition calcDifficultyHomestead :: "u64 \<Rightarrow> Header \<Rightarrow> bigint" where
  "calcDifficultyHomestead time parent =
     (let x = 1 - (uint time - h_Time parent) div 10;
          x = (if x < -99 then -99 else x);
          y = h_Difficulty parent div DifficultyBoundDivisor;
          x = h_Difficulty parent + y * x;
          x = (if x < MinimumDifficulty then MinimumDifficulty else x)
      in difficulty_bomb ((h_Number parent + 1) div expDiffPeriod) x)"

definition calcDifficultyFrontier :: "u64 \<Rightarrow> Header \<Rightarrow> bigint" where
  "calcDifficultyFrontier time parent =
     (let adjust = h_Difficulty parent div DifficultyBoundDivisor;
          diff = (if uint time - h_Time parent < DurationLimit then h_Difficulty parent + adjust else h_Difficulty parent - adjust);
          diff = (if diff < MinimumDifficulty then MinimumDifficulty else diff);
          periodCount = (h_Number parent + 1) div expDiffPeriod
      in if periodCount > 1 then max (diff + 2 ^ nat (periodCount - 2)) MinimumDifficulty else diff)"

definition CalcDifficulty :: "hash \<Rightarrow> ChainConfig \<Rightarrow> u64 \<Rightarrow> Header \<Rightarrow> bigint" where
  "CalcDifficulty EmptyUncleHash config time parent =
     (let nxt = Some (h_Number parent + 1) in
      if IsConstantinople config nxt then calcDifficultyConstantinople EmptyUncleHash time parent
      else if IsByzantium config nxt then calcDifficultyByzantium EmptyUncleHash time parent
      else if IsHomestead config nxt then calcDifficultyHomestead time parent
      else calcDifficultyFrontier time parent)"

subsection \<open>Headers\<close>

datatype header_error =
    ErrExtraTooLong | errLargeBlockTime | ErrFutureBlock | errZeroBlockTime | ErrDifficultyMismatch | ErrGasLimitCap | ErrGasUsed
  | ErrGasLimitBounds | ErrInvalidNumber | ErrUnknownAncestor | errInvalidDifficulty | errInvalidMixDigest | errInvalidPoW
  | ErrBadProDAOExtra | ErrBadNoDAOExtra | ErrForkHash
  | errTooManyUncles | errDuplicateUncle | errUncleIsAncestor | errDanglingUncle

definition VerifyDAOHeaderExtraData :: "ChainConfig \<Rightarrow> Header \<Rightarrow> header_error option" where
  "VerifyDAOHeaderExtraData config header =
     (case DAOForkBlock config of
        None \<Rightarrow> None
      | Some fork \<Rightarrow>
          if h_Number header < fork \<or> h_Number header \<ge> fork + DAOForkExtraRange then None
          else if DAOForkSupport config then (if h_Extra header \<noteq> DAOForkBlockExtra then Some ErrBadProDAOExtra else None)
          else if h_Extra header = DAOForkBlockExtra then Some ErrBadNoDAOExtra
          else None)"

definition VerifyForkHashes :: "(Header \<Rightarrow> hash) \<Rightarrow> ChainConfig \<Rightarrow> Header \<Rightarrow> bool \<Rightarrow> header_error option" where
  "VerifyForkHashes hHash config header uncle =
     (if uncle then None
      else if EIP150Block config = Some (h_Number header) \<and> EIP150Hash config \<noteq> 0 \<and> EIP150Hash config \<noteq> hHash header
      then Some ErrForkHash else None)"

text \<open>What the checks take from outside: hashing, the hash of no uncles, the clock and the check of the seal.\<close>

record ethash_env =
  ee_Hash :: "Header \<Rightarrow> hash"
  ee_EmptyUncleHash :: hash
  ee_Now :: bigint
  ee_VerifySeal :: "Header \<Rightarrow> header_error option"
  ee_FullFake :: bool

text \<open>\<open>int64(parent.GasLimit) - int64(header.GasLimit)\<close>, negated if it is negative, read as an unsigned number again.\<close>

definition gasLimit_diff :: "u64 \<Rightarrow> u64 \<Rightarrow> u64" where
  "gasLimit_diff p g = (let diff = p - g in if sint diff < 0 then - diff else diff)"

definition verifyHeader :: "ethash_env \<Rightarrow> ChainConfig \<Rightarrow> Header \<Rightarrow> Header \<Rightarrow> bool \<Rightarrow> bool \<Rightarrow> header_error option" where
  "verifyHeader ee config header parent uncle seal =
     (if length (h_Extra header) > MaximumExtraDataSize then Some ErrExtraTooLong
      else if uncle \<and> h_Time header > 2 ^ 256 - 1 then Some errLargeBlockTime
      else if \<not> uncle \<and> h_Time header > ee_Now ee + 15 then Some ErrFutureBlock
      else if h_Time header \<le> h_Time parent then Some errZeroBlockTime
      else if CalcDifficulty (ee_EmptyUncleHash ee) config (Uint64 (h_Time header)) parent \<noteq> h_Difficulty header then Some ErrDifficultyMismatch
      else if h_GasLimit header > 0x7fffffffffffffff then Some ErrGasLimitCap
      else if h_GasUsed header > h_GasLimit header then Some ErrGasUsed
      else if gasLimit_diff (h_GasLimit parent) (h_GasLimit header) \<ge> h_GasLimit parent div GasLimitBoundDivisor \<or>
              h_GasLimit header < MinGasLimit then Some ErrGasLimitBounds
      else if h_Number header - h_Number parent \<noteq> 1 then Some ErrInvalidNumber
      else case (if seal then ee_VerifySeal ee header else None) of
             Some err \<Rightarrow> Some err
           | None \<Rightarrow> (case VerifyDAOHeaderExtraData config header of
               Some err \<Rightarrow> Some err
             | None \<Rightarrow> VerifyForkHashes (ee_Hash ee) config header uncle))"

definition VerifyHeader ::
  "ethash_env \<Rightarrow> ChainConfig \<Rightarrow> (hash \<Rightarrow> u64 \<Rightarrow> Header option) \<Rightarrow> Header \<Rightarrow> bool \<Rightarrow> header_error option" where
  "VerifyHeader ee config GetHeader header seal =
     (if ee_FullFake ee then None
      else let number = Uint64 (h_Number header) in
        if GetHeader (ee_Hash ee header) number \<noteq> None then None
        else case GetHeader (h_ParentHash header) (number - 1) of
               None \<Rightarrow> Some ErrUnknownAncestor
             | Some parent \<Rightarrow> verifyHeader ee config header parent False seal)"

subsection \<open>Uncles\<close>

abbreviation maxUncles :: nat where "maxUncles \<equiv> 2"

text \<open>The last seven ancestors by their hash, and the hashes of their uncles.\<close>

fun gather_ancestors ::
  "nat \<Rightarrow> (Header \<Rightarrow> hash) \<Rightarrow> (hash \<Rightarrow> u64 \<Rightarrow> Block option) \<Rightarrow> hash \<Rightarrow> u64 \<Rightarrow> (hash, Header) gomap \<times> hash list \<Rightarrow>
   (hash, Header) gomap \<times> hash list" where
  "gather_ancestors 0 hHash GetBlock parent number acc = acc"
| "gather_ancestors (Suc i) hHash GetBlock parent number (ancestors, uncles) =
     (case GetBlock parent number of
        None \<Rightarrow> (ancestors, uncles)
      | Some ancestor \<Rightarrow> gather_ancestors i hHash GetBlock (h_ParentHash (blk_header ancestor)) (number - 1)
          (gm_set (hHash (blk_header ancestor)) (blk_header ancestor) ancestors, map hHash (blk_uncles ancestor) @ uncles))"

fun verify_uncle_list ::
  "ethash_env \<Rightarrow> ChainConfig \<Rightarrow> Header \<Rightarrow> (hash, Header) gomap \<Rightarrow> hash list \<Rightarrow> Header list \<Rightarrow> header_error option" where
  "verify_uncle_list ee config header ancestors uncles [] = None"
| "verify_uncle_list ee config header ancestors uncles (uncle # us) =
     (let hash = ee_Hash ee uncle in
      if hash \<in> set uncles then Some errDuplicateUncle
      else if gm_get ancestors hash \<noteq> None then Some errUncleIsAncestor
      else case gm_get ancestors (h_ParentHash uncle) of
             None \<Rightarrow> Some errDanglingUncle
           | Some parent \<Rightarrow>
               if h_ParentHash uncle = h_ParentHash header then Some errDanglingUncle
               else case verifyHeader ee config uncle parent True True of
                      Some err \<Rightarrow> Some err
                    | None \<Rightarrow> verify_uncle_list ee config header ancestors (hash # uncles) us)"

definition VerifyUncles ::
  "ethash_env \<Rightarrow> ChainConfig \<Rightarrow> (hash \<Rightarrow> u64 \<Rightarrow> Block option) \<Rightarrow> Block \<Rightarrow> header_error option" where
  "VerifyUncles ee config GetBlock block =
     (if ee_FullFake ee then None
      else if length (blk_uncles block) > maxUncles then Some errTooManyUncles
      else
        let header = blk_header block;
            (ancestors, uncles) = gather_ancestors 7 (ee_Hash ee) GetBlock (h_ParentHash header) (Uint64 (h_Number header) - 1) ([], [])
        in verify_uncle_list ee config header (gm_set (ee_Hash ee header) header ancestors) (ee_Hash ee header # uncles) (blk_uncles block))"

subsection \<open>What an accepted header can do\<close>

lemma difficulty_bomb_ge: "x \<le> difficulty_bomb n x"
  by (simp add: difficulty_bomb_def)

lemma clamped:
  fixes y :: bigint
  assumes "0 \<le> y"
  shows "max m (d - 99 * y) \<le> (if d + y * (if x < -99 then -99 else x) < m then m else d + y * (if x < -99 then -99 else x))"
proof -
  have "d - 99 * y \<le> d + y * (if x < -99 then -99 else x)"
    using mult_left_mono[of "-99" x y] assms by (simp add: mult.commute)
  then show ?thesis by simp
qed

lemma CalcDifficulty_bounds:
  assumes "0 \<le> h_Difficulty parent"
  shows "MinimumDifficulty \<le> CalcDifficulty nouncles config time parent"
    and "h_Difficulty parent - 99 * (h_Difficulty parent div 2048) \<le> CalcDifficulty nouncles config time parent"
proof -
  let ?d = "h_Difficulty parent" and ?y = "h_Difficulty parent div 2048"
  have y: "0 \<le> ?y" using assms by simp
  have calc: "max MinimumDifficulty (?d - 99 * ?y) \<le> makeDifficultyCalculator nouncles bombDelay time parent" for bombDelay
    unfolding makeDifficultyCalculator_def Let_def
    by (rule order_trans[OF clamped[OF y] difficulty_bomb_ge])
  have home: "max MinimumDifficulty (?d - 99 * ?y) \<le> calcDifficultyHomestead time parent"
    unfolding calcDifficultyHomestead_def Let_def
    by (rule order_trans[OF clamped[OF y] difficulty_bomb_ge])
  have front: "max MinimumDifficulty (?d - 99 * ?y) \<le> calcDifficultyFrontier time parent"
  proof -
    have bombed: "z \<le> (if c then max (d1 + 2 ^ n) MinimumDifficulty else d1)" if "z \<le> d1" for z d1 :: bigint and c n
      using that by (simp add: le_max_iff_disj add_increasing2)
    show ?thesis unfolding calcDifficultyFrontier_def Let_def by (rule bombed) (use y in auto)
  qed
  have "max MinimumDifficulty (?d - 99 * ?y) \<le> CalcDifficulty nouncles config time parent"
    using calc home front
    by (simp add: CalcDifficulty_def calcDifficultyConstantinople_def calcDifficultyByzantium_def Let_def)
  then show "MinimumDifficulty \<le> CalcDifficulty nouncles config time parent"
    "?d - 99 * ?y \<le> CalcDifficulty nouncles config time parent" by simp_all
qed

lemma gasLimit_diff_abs:
  assumes "uint p < 2 ^ 63" and "uint g < 2 ^ 63"
  shows "uint (gasLimit_diff p g) = \<bar>uint p - uint g\<bar>"
proof -
  have s: "sint (p - g) = uint p - uint g"
  proof -
    have "sint (p - g) = signed_take_bit 63 (uint p - uint g)"
      by (simp add: sint_uint uint_word_ariths signed_take_bit_eq_iff_take_bit_eq take_bit_eq_mod)
    also have "\<dots> = uint p - uint g"
      by (rule signed_take_bit_int_eq_self) (use assms uint_ge_0[of p] uint_ge_0[of g] in linarith)+
    finally show ?thesis .
  qed
  have "uint (p - g) = (uint p - uint g) mod 2 ^ 64" "uint (- (p - g)) = (uint g - uint p) mod 2 ^ 64"
    by (simp_all add: uint_word_ariths)
  moreover have "(uint v - uint w) mod 2 ^ 64 = uint v - uint w" if "uint w \<le> uint v" "uint v < 2 ^ 63" for v w :: u64
  proof (rule mod_pos_pos_trivial)
    have "uint v - uint w \<le> uint v" by simp
    also have "\<dots> < 2 ^ 64" using that(2) by simp
    finally show "uint v - uint w < 2 ^ 64" .
  qed (use that in simp)
  ultimately show ?thesis
    using assms by (cases "uint p < uint g") (simp_all add: gasLimit_diff_def s Let_def)
qed


definition demo_config :: ChainConfig where
  "demo_config = \<lparr>ChainID = Some 1, HomesteadBlock = Some 0, DAOForkBlock = None, DAOForkSupport = False, EIP150Block = Some 0, EIP150Hash = 0,
     EIP155Block = Some 0, EIP158Block = Some 0, ByzantiumBlock = Some 0, ConstantinopleBlock = Some 0, PetersburgBlock = None,
     EWASMBlock = None\<rparr>"

definition demo_ee :: ethash_env where
  "demo_ee = \<lparr>ee_Hash = (\<lambda>h. of_int (h_Number h) + 256 * ucast (h_Nonce h)), ee_EmptyUncleHash = 0, ee_Now = 1000, ee_VerifySeal = (\<lambda>h. None), ee_FullFake = False\<rparr>"

definition demo_parent :: Header where
  "demo_parent = \<lparr>h_ParentHash = 9, h_UncleHash = 0, h_Coinbase = 1, h_Root = 0, h_TxHash = 0, h_ReceiptHash = 0, h_Bloom = 0, h_Difficulty = 131072,
     h_Number = 10, h_GasLimit = 5120000, h_GasUsed = 0, h_Time = 100, h_Extra = [], h_MixDigest = 0, h_Nonce = 0\<rparr>"

definition demo_header :: Header where
  "demo_header = demo_parent\<lparr>h_ParentHash := 10, h_Number := 11, h_Time := 105, h_Difficulty := 131136, h_GasLimit := 5121000\<rparr>"


subsection \<open>Where an accepted uncle can be\<close>

text \<open>
  The chain that is looked up: a block found under a hash and a number has that hash and that number, and numbers are far below
  the range of 64 bits.
\<close>

definition chain_ok :: "(Header \<Rightarrow> hash) \<Rightarrow> (hash \<Rightarrow> u64 \<Rightarrow> Block option) \<Rightarrow> bool" where
  "chain_ok hHash GetBlock \<longleftrightarrow> (\<forall>h n b. GetBlock h n = Some b \<longrightarrow>
     hHash (blk_header b) = h \<and> h_Number (blk_header b) = uint n \<and> uint n < 2 ^ 63)"

lemma chain_ok_no_minus_1: "chain_ok hHash GetBlock \<Longrightarrow> GetBlock h (- 1) = None"
proof (rule ccontr)
  assume "chain_ok hHash GetBlock" "GetBlock h (- 1) \<noteq> None"
  then have "uint (- 1 :: u64) < 2 ^ 63" by (auto simp: chain_ok_def)
  then show False by (simp add: unsigned_minus_1_eq_mask mask_eq_exp_minus_1)
qed

lemma uint_pred: "w \<noteq> 0 \<Longrightarrow> uint (w - 1) = uint w - 1" for w :: u64
proof -
  assume "w \<noteq> 0"
  then have "uint w \<noteq> 0" by (simp add: uint_0_iff)
  then have "0 < uint w" using uint_ge_0[of w] by linarith
  then have "uint (1 :: u64) \<le> uint w" by simp
  then show ?thesis using uint_sub_lem[of 1 w] by simp
qed

lemma gather_ancestors_near:
  assumes "chain_ok hHash GetBlock" and "gm_get (fst (gather_ancestors i hHash GetBlock parent w (anc, unc))) h = Some hdr"
  shows "gm_get anc h = Some hdr \<or> uint w - int i < h_Number hdr \<and> h_Number hdr \<le> uint w \<and> (h = parent \<or> h_Number hdr < uint w)"
  using assms(2)
proof (induction i arbitrary: parent w anc unc)
  case (Suc i)
  show ?case
  proof (cases "GetBlock parent w")
    case (Some b)
    let ?anc = "gm_set (hHash (blk_header b)) (blk_header b) anc"
    have b: "hHash (blk_header b) = parent" "h_Number (blk_header b) = uint w"
      using assms(1) Some by (auto simp: chain_ok_def)
    have "gm_get ?anc h = Some hdr \<or> uint (w - 1) - int i < h_Number hdr \<and> h_Number hdr \<le> uint (w - 1) \<and> w \<noteq> 0"
    proof (cases "w = 0")
      case True
      then show ?thesis using Suc.prems Some chain_ok_no_minus_1[OF assms(1)] by (cases i) simp_all
    next
      case False
      then show ?thesis using Suc.prems Some Suc.IH[of "h_ParentHash (blk_header b)" "w - 1" ?anc] by auto
    qed
    then show ?thesis using b uint_pred[of w] by (auto simp: gm_get_set split: if_splits)
  qed (use Suc.prems in simp)
qed simp

lemma verify_uncle_list_accepts:
  assumes "verify_uncle_list ee config header anc unc us = None"
  shows "distinct (map (ee_Hash ee) us) \<and> set (map (ee_Hash ee) us) \<inter> set unc = {} \<and>
    (\<forall>u \<in> set us. h_ParentHash u \<noteq> h_ParentHash header \<and>
       (\<exists>p. gm_get anc (h_ParentHash u) = Some p \<and> verifyHeader ee config u p True True = None))"
  using assms
proof (induction us arbitrary: unc)
  case (Cons u us)
  then have "verify_uncle_list ee config header anc (ee_Hash ee u # unc) us = None" "ee_Hash ee u \<notin> set unc"
    "h_ParentHash u \<noteq> h_ParentHash header" "\<exists>p. gm_get anc (h_ParentHash u) = Some p \<and> verifyHeader ee config u p True True = None"
    by (auto simp: Let_def split: if_splits option.splits)
  with Cons.IH[OF this(1)] show ?case by auto
qed simp

lemma VerifyUncles_accepts:
  assumes "VerifyUncles ee config GetBlock block = None" and "\<not> ee_FullFake ee" and "chain_ok (ee_Hash ee) GetBlock"
    and N: "0 \<le> h_Number (blk_header block)" "h_Number (blk_header block) < 2 ^ 63"
    and self: "\<forall>u \<in> set (blk_uncles block). h_ParentHash u \<noteq> ee_Hash ee (blk_header block)"
  shows "length (blk_uncles block) \<le> 2 \<and> distinct (map (ee_Hash ee) (blk_uncles block)) \<and>
    (\<forall>u \<in> set (blk_uncles block). h_Number (blk_header block) - 6 \<le> h_Number u \<and> h_Number u < h_Number (blk_header block))"
proof -
  let ?h = "blk_header block" and ?w = "Uint64 (h_Number (blk_header block)) - 1"
  obtain anc unc where g: "gather_ancestors 7 (ee_Hash ee) GetBlock (h_ParentHash ?h) ?w ([], []) = (anc, unc)" by force
  have len: "length (blk_uncles block) \<le> 2" and
    v: "verify_uncle_list ee config ?h (gm_set (ee_Hash ee ?h) ?h anc) (ee_Hash ee ?h # unc) (blk_uncles block) = None"
    using assms(1,2) by (auto simp: VerifyUncles_def g not_less Let_def split: if_splits)
  note acc = verify_uncle_list_accepts[OF v]
  have "h_Number ?h - 6 \<le> h_Number u \<and> h_Number u < h_Number ?h" if u: "u \<in> set (blk_uncles block)" for u
  proof -
    obtain p where p: "gm_get anc (h_ParentHash u) = Some p" "verifyHeader ee config u p True True = None"
      using acc u self by (auto simp: gm_get_set)
    have num: "h_Number u = h_Number p + 1" using p(2) by (auto simp: verifyHeader_def split: if_splits)
    have near: "uint ?w - 7 < h_Number p" "h_Number p < uint ?w"
      using gather_ancestors_near[OF assms(3), of 7 "h_ParentHash ?h" ?w "[]" "[]" "h_ParentHash u" p] g p(1) acc u by auto
    show ?thesis
    proof (cases "h_Number ?h = 0")
      case True
      then have "anc = []" using g chain_ok_no_minus_1[OF assms(3)] by (simp add: eval_nat_numeral Uint64_def)
      then show ?thesis using p(1) by simp
    next
      case False
      have "uint (Uint64 (h_Number ?h)) = h_Number ?h" using N by (simp add: Uint64_def uint_word_of_int)
      moreover have "Uint64 (h_Number ?h) \<noteq> 0" using calculation False by auto
      ultimately have "uint ?w = h_Number ?h - 1" by (simp add: uint_pred)
      then show ?thesis using near num by simp
    qed
  qed
  then show ?thesis using len acc by auto
qed

end
