(* ===== verification/Block_Process.thy ===== *)
theory Block_Process
  imports Ethash_Rules State_Transition State_Finalise
begin

text \<open>
  \<open>core/state_processor.go\<close>: the transactions of a block applied one after the other, with the context that
  \<open>core/evm.go\<close> sets up for each of them, the refund of the DAO fork (\<open>consensus/misc/dao.go\<close>) before and the rewards of
  the proof-of-work engine (\<open>consensus/ethash/consensus.go\<close>) after them.  Hashes and signature recovery, and the hashes of
  earlier blocks, are arguments.  The lemmas account for the gas and for the ether of a whole block.
\<close>

record crypto_env =
  cr_Ecrecover :: "hash \<Rightarrow> bytes \<Rightarrow> bytes option"
  cr_Keccak :: "bytes \<Rightarrow> hash"
  cr_SigHash :: "bigint option \<Rightarrow> transaction \<Rightarrow> hash"
  cr_TxHash :: "transaction \<Rightarrow> hash"
  cr_GetHashFn :: "Header \<Rightarrow> u64 \<Rightarrow> hash"

datatype apply_error = SigError sig_error | TxError tx_error

text \<open>A consensus engine, as far as processing a block uses it.\<close>

record ('d, 'a, 's) Engine =
  eng_Author :: "Header \<Rightarrow> address"
  eng_Finalize :: "ChainConfig \<Rightarrow> Header \<Rightarrow> ('d, 'a, 's) StateDB \<Rightarrow> transaction list \<Rightarrow> Header list \<Rightarrow> Receipt list \<Rightarrow> ('d, 'a, 's) StateDB option"

subsection \<open>One transaction\<close>

definition MakeSigner :: "ChainConfig \<Rightarrow> bigint \<Rightarrow> signer" where
  "MakeSigner config blockNumber =
     (if IsEIP155 config (Some blockNumber) then NewEIP155Signer (ChainID config)
      else if IsHomestead config (Some blockNumber) then HomesteadSigner
      else FrontierSigner)"

definition NewEVMContext ::
  "crypto_env \<Rightarrow> 'w vm \<Rightarrow> message \<Rightarrow> Header \<Rightarrow> (Header \<Rightarrow> address) \<Rightarrow> address option \<Rightarrow> 'w vm" where
  "NewEVMContext K V msg header engineAuthor author =
     (let beneficiary = (case author of None \<Rightarrow> engineAuthor header | Some a \<Rightarrow> a) in
      V\<lparr>ctx_GetHash := cr_GetHashFn K header, ctx_Origin := msg_from msg, ctx_Coinbase := beneficiary,
        ctx_BlockNumber := h_Number header, ctx_Time := h_Time header, ctx_Difficulty := h_Difficulty header,
        ctx_GasLimit := h_GasLimit header, ctx_GasPrice := msg_gasPrice msg\<rparr>)"

definition NewEVM :: "'w \<Rightarrow> 'w evm" where
  "NewEVM statedb =
     \<lparr>evm_StateDB = statedb, evm_depth = 0, evm_abort = False, evm_callGasTemp = 0, in_readOnly = False, in_returnData = [],
      evm_jumpdests = []\<rparr>"

text \<open>What the transactions of a block share: the pool, the state database and the gas used so far.\<close>

type_synonym ('d, 'a, 's) shared = "u64 \<times> ('d, 'a, 's) StateDB \<times> u64"

definition tx_receipt :: "crypto_env \<Rightarrow> 'w vm \<Rightarrow> transaction \<Rightarrow> message \<Rightarrow> bytes \<Rightarrow> bool \<Rightarrow> u64 \<Rightarrow> u64 \<Rightarrow> Log list \<Rightarrow> Receipt" where
  "tx_receipt K V tx msg root failed used gas logs =
     (let receipt = (NewReceipt root failed used)\<lparr>r_TxHash := cr_TxHash K tx, r_GasUsed := gas,
            r_ContractAddress := (if msg_to msg = None then vm_CreateAddress V (msg_from msg) (AccountNonce tx) else 0), r_Logs := logs\<rparr>
      in receipt\<lparr>r_Bloom := CreateBloom (cr_Keccak K) [receipt]\<rparr>)"

definition ApplyTransaction ::
  "crypto_env \<Rightarrow> ('d, 'a, 's) sdb_env \<Rightarrow> ('d, 'a, 's) StateDB vm \<Rightarrow> (Header \<Rightarrow> address) \<Rightarrow> nat \<Rightarrow> address option \<Rightarrow> Header \<Rightarrow> transaction \<Rightarrow>
   ('d, 'a, 's) shared \<Rightarrow> (('d, 'a, 's) shared \<times> (apply_error + Receipt \<times> u64)) outcome" where
  "ApplyTransaction K E V engineAuthor fuel author header tx = (\<lambda>(gp, statedb, usedGas).
     let config = vm_chainConfig V; number = Some (h_Number header) in
     (case AsMessage (signer_Sender (cr_Ecrecover K) (cr_Keccak K) (cr_SigHash K) (MakeSigner config (h_Number header))) tx of
        Inl err \<Rightarrow> Value ((gp, statedb, usedGas), Inl (SigError err))
      | Inr msg \<Rightarrow>
          let vmenv = evm_over (sdb_ops E) (NewEVMContext K V msg header engineAuthor author) in
          obind (ApplyMessage vmenv (evm_loop fuel vmenv) (NewEVM statedb) msg gp) (\<lambda>(st, res).
            let s1 = evm_StateDB (st_evm st) in
            case res of
              Inl err \<Rightarrow> Value ((st_gp st, s1, usedGas), Inl (TxError err))
            | Inr (_, gas, failed) \<Rightarrow>
                obind (of_opt (if IsByzantium config number then map_option (\<lambda>s. (s, [])) (Finalise E True s1)
                               else map_option (\<lambda>(s, h). (s, hash_Bytes h)) (IntermediateRoot E (IsEIP158 config number) s1)))
                  (\<lambda>(s2, root).
                     let used = usedGas + gas
                     in Value ((st_gp st, s2, used), Inr (tx_receipt K V tx msg root failed used gas (GetLogs (cr_TxHash K tx) s2), gas))))))"

subsection \<open>A block\<close>

definition DAORefundContract :: address where
  "DAORefundContract = 0xbf4ed7b27f1d666546e30d74d50d173d20bca754"

definition dao_drain :: "('d, 'a, 's) sdb_env \<Rightarrow> address \<Rightarrow> ('d, 'a, 's) StateDB \<Rightarrow> ('d, 'a, 's) StateDB" where
  "dao_drain E addr statedb =
     (let (s1, balance) = GetBalance E addr statedb
      in SetBalance E addr 0 (AddBalance E DAORefundContract balance s1))"

definition DAODrainList :: "address list" where
  "DAODrainList =
    [0xd4fe7bc31cedb7bfb8a345f31e668033056b2728, 0xb3fb0e5aba0e20e5c49d252dfd30e102b171a425, 0x2c19c7f9ae8b751e37aeb2d93a699722395ae18f,
     0xecd135fa4f61a655311e86238c92adcd779555d2, 0x1975bd06d486162d5dc297798dfc41edd5d160a7, 0xa3acf3a1e16b1d7c315e23510fdd7847b48234f6,
     0x319f70bab6845585f412ec7724b744fec6095c85, 0x06706dd3f2c9abf0a21ddcc6941d9b86f0596936, 0x5c8536898fbb74fc7445814902fd08422eac56d0,
     0x6966ab0d485353095148a2155858910e0965b6f9, 0x779543a0491a837ca36ce8c635d6154e3c4911a6, 0x2a5ed960395e2a49b1c758cef4aa15213cfd874c,
     0x5c6e67ccd5849c0d29219c4f95f1a7a93b3f5dc5, 0x9c50426be05db97f5d64fc54bf89eff947f0a321, 0x200450f06520bdd6c527622a273333384d870efb,
     0xbe8539bfe837b67d1282b2b1d61c3f723966f049, 0x6b0c4d41ba9ab8d8cfb5d379c69a612f2ced8ecb, 0xf1385fb24aad0cd7432824085e42aff90886fef5,
     0xd1ac8b1ef1b69ff51d1d401a476e7e612414f091, 0x8163e7fb499e90f8544ea62bbf80d21cd26d9efd, 0x51e0ddd9998364a2eb38588679f0d2c42653e4a6,
     0x627a0a960c079c21c34f7612d5d230e01b4ad4c7, 0xf0b1aa0eb660754448a7937c022e30aa692fe0c5, 0x24c4d950dfd4dd1902bbed3508144a54542bba94,
     0x9f27daea7aca0aa0446220b98d028715e3bc803d, 0xa5dc5acd6a7968a4554d89d65e59b7fd3bff0f90, 0xd9aef3a1e38a39c16b31d1ace71bca8ef58d315b,
     0x63ed5a272de2f6d968408b4acb9024f4cc208ebf, 0x6f6704e5a10332af6672e50b3d9754dc460dfa4d, 0x77ca7b50b6cd7e2f3fa008e24ab793fd56cb15f6,
     0x492ea3bb0f3315521c31f273e565b868fc090f17, 0x0ff30d6de14a8224aa97b78aea5388d1c51c1f00, 0x9ea779f907f0b315b364b0cfc39a0fde5b02a416,
     0xceaeb481747ca6c540a000c1f3641f8cef161fa7, 0xcc34673c6c40e791051898567a1222daf90be287, 0x579a80d909f346fbfb1189493f521d7f48d52238,
     0xe308bd1ac5fda103967359b2712dd89deffb7973, 0x4cb31628079fb14e4bc3cd5e30c2f7489b00960c, 0xac1ecab32727358dba8962a0f3b261731aad9723,
     0x4fd6ace747f06ece9c49699c7cabc62d02211f75, 0x440c59b325d2997a134c2c7c60a8c61611212bad, 0x4486a3d68fac6967006d7a517b889fd3f98c102b,
     0x9c15b54878ba618f494b38f0ae7443db6af648ba, 0x27b137a85656544b1ccb5a0f2e561a5703c6a68f, 0x21c7fdb9ed8d291d79ffd82eb2c4356ec0d81241,
     0x23b75c2f6791eef49c69684db4c6c1f93bf49a50, 0x1ca6abd14d30affe533b24d7a21bff4c2d5e1f3b, 0xb9637156d330c0d605a791f1c31ba5890582fe1c,
     0x6131c42fa982e56929107413a9d526fd99405560, 0x1591fc0f688c81fbeb17f5426a162a7024d430c2, 0x542a9515200d14b68e934e9830d91645a980dd7a,
     0xc4bbd073882dd2add2424cf47d35213405b01324, 0x782495b7b3355efb2833d56ecb34dc22ad7dfcc4, 0x58b95c9a9d5d26825e70a82b6adb139d3fd829eb,
     0x3ba4d81db016dc2890c81f3acec2454bff5aada5, 0xb52042c8ca3f8aa246fa79c3feaa3d959347c0ab, 0xe4ae1efdfc53b73893af49113d8694a057b9c0d1,
     0x3c02a7bc0391e86d91b7d144e61c2c01a25a79c5, 0x0737a6b837f97f46ebade41b9bc3e1c509c85c53, 0x97f43a37f595ab5dd318fb46e7a155eae057317a,
     0x52c5317c848ba20c7504cb2c8052abd1fde29d03, 0x4863226780fe7c0356454236d3b1c8792785748d, 0x5d2b2e6fcbe3b11d26b525e085ff818dae332479,
     0x5f9f3392e9f62f63b8eac0beb55541fc8627f42c, 0x057b56736d32b86616a10f619859c6cd6f59092a, 0x9aa008f65de0b923a2a4f02012ad034a5e2e2192,
     0x304a554a310c7e546dfe434669c62820b7d83490, 0x914d1b8b43e92723e64fd0a06f5bdb8dd9b10c79, 0x4deb0033bb26bc534b197e61d19e0733e5679784,
     0x07f5c1e1bc2c93e0402f23341973a0e043f7bf8a, 0x35a051a0010aba705c9008d7a7eff6fb88f6ea7b, 0x4fa802324e929786dbda3b8820dc7834e9134a2a,
     0x9da397b9e80755301a3b32173283a91c0ef6c87e, 0x8d9edb3054ce5c5774a420ac37ebae0ac02343c6, 0x0101f3be8ebb4bbd39a2e3b9a3639d4259832fd9,
     0x5dc28b15dffed94048d73806ce4b7a4612a1d48f, 0xbcf899e6c7d9d5a215ab1e3444c86806fa854c76, 0x12e626b0eebfe86a56d633b9864e389b45dcb260,
     0xa2f1ccba9395d7fcb155bba8bc92db9bafaeade7, 0xec8e57756626fdc07c63ad2eafbd28d08e7b0ca5, 0xd164b088bd9108b60d0ca3751da4bceb207b0782,
     0x6231b6d0d5e77fe001c2a460bd9584fee60d409b, 0x1cba23d343a983e9b5cfd19496b9a9701ada385f, 0xa82f360a8d3455c5c41366975bde739c37bfeb8a,
     0x9fcd2deaff372a39cc679d5c5e4de7bafb0b1339, 0x005f5cee7a43331d5a3d3eec71305925a62f34b6, 0x0e0da70933f4c7849fc0d203f5d1d43b9ae4532d,
     0xd131637d5275fd1a68a3200f4ad25c71a2a9522e, 0xbc07118b9ac290e4622f5e77a0853539789effbe, 0x47e7aa56d6bdf3f36be34619660de61275420af8,
     0xacd87e28b0c9d1254e868b81cba4cc20d9a32225, 0xadf80daec7ba8dcf15392f1ac611fff65d94f880, 0x5524c55fb03cf21f549444ccbecb664d0acad706,
     0x40b803a9abce16f50f36a77ba41180eb90023925, 0xfe24cdd8648121a43a7c86d289be4dd2951ed49f, 0x17802f43a0137c506ba92291391a8a8f207f487d,
     0x253488078a4edf4d6f42f113d1e62836a942cf1a, 0x86af3e9626fce1957c82e88cbf04ddf3a2ed7915, 0xb136707642a4ea12fb4bae820f03d2562ebff487,
     0xdbe9b615a3ae8709af8b93336ce9b477e4ac0940, 0xf14c14075d6c4ed84b86798af0956deef67365b5, 0xca544e5c4687d109611d0f8f928b53a25af72448,
     0xaeeb8ff27288bdabc0fa5ebb731b6f409507516c, 0xcbb9d3703e651b0d496cdefb8b92c25aeb2171f7, 0x6d87578288b6cb5549d5076a207456a1f6a63dc0,
     0xb2c6f0dfbb716ac562e2d85d6cb2f8d5ee87603e, 0xaccc230e8a6e5be9160b8cdf2864dd2a001c28b6, 0x2b3455ec7fedf16e646268bf88846bd7a2319bb2,
     0x4613f3bca5c44ea06337a9e439fbc6d42e501d0a, 0xd343b217de44030afaa275f54d31a9317c7f441e, 0x84ef4b2357079cd7a7c69fd7a37cd0609a679106,
     0xda2fef9e4a3230988ff17df2165440f37e8b1708, 0xf4c64518ea10f995918a454158c6b61407ea345c, 0x7602b46df5390e432ef1c307d4f2c9ff6d65cc97,
     0xbb9bc244d798123fde783fcc1c72d3bb8c189413, 0x807640a13483f8ac783c557fcdf27be11ea4ac7a]"

definition ApplyDAOHardFork :: "('d, 'a, 's) sdb_env \<Rightarrow> ('d, 'a, 's) StateDB \<Rightarrow> ('d, 'a, 's) StateDB" where
  "ApplyDAOHardFork E statedb =
     (let (s1, exist) = Exist E DAORefundContract statedb;
          s2 = (if \<not> exist then CreateAccount E DAORefundContract s1 else s1)
      in fold (dao_drain E) DAODrainList s2)"

fun process_transactions ::
  "crypto_env \<Rightarrow> ('d, 'a, 's) sdb_env \<Rightarrow> ('d, 'a, 's) StateDB vm \<Rightarrow> (Header \<Rightarrow> address) \<Rightarrow> nat \<Rightarrow> hash \<Rightarrow> Header \<Rightarrow> nat \<Rightarrow>
   transaction list \<Rightarrow> ('d, 'a, 's) shared \<Rightarrow> (('d, 'a, 's) shared \<times> (apply_error + Receipt list)) outcome" where
  "process_transactions K E V engineAuthor fuel bhash header i [] sh = Value (sh, Inr [])"
| "process_transactions K E V engineAuthor fuel bhash header i (tx # txs) (gp, statedb, usedGas) =
     obind (ApplyTransaction K E V engineAuthor fuel None header tx (gp, Prepare (cr_TxHash K tx) bhash (of_nat i) statedb, usedGas)) (\<lambda>(sh1, r).
       case r of
         Inl err \<Rightarrow> Value (sh1, Inl err)
       | Inr (receipt, _) \<Rightarrow>
           obind (process_transactions K E V engineAuthor fuel bhash header (i + 1) txs sh1) (\<lambda>(sh2, rs).
             case rs of Inl err \<Rightarrow> Value (sh2, Inl err) | Inr receipts \<Rightarrow> Value (sh2, Inr (receipt # receipts))))"

definition Process ::
  "crypto_env \<Rightarrow> ('d, 'a, 's) sdb_env \<Rightarrow> ('d, 'a, 's) StateDB vm \<Rightarrow> ('d, 'a, 's) Engine \<Rightarrow> nat \<Rightarrow> hash \<Rightarrow> Block \<Rightarrow>
   ('d, 'a, 's) StateDB \<Rightarrow> (('d, 'a, 's) StateDB \<times> (apply_error + Receipt list \<times> Log list \<times> u64)) outcome" where
  "Process K E V engine fuel bhash block statedb =
     (let header = blk_header block; config = vm_chainConfig V in
      obind (of_opt (AddGas 0 (h_GasLimit header))) (\<lambda>gp.
        let s1 = (if DAOForkSupport config \<and> DAOForkBlock config = Some (h_Number header)
                  then ApplyDAOHardFork E statedb else statedb) in
        obind (process_transactions K E V (eng_Author engine) fuel bhash header 0 (blk_transactions block) (gp, s1, 0)) (\<lambda>((gp2, s2, usedGas), r).
          case r of
            Inl err \<Rightarrow> Value (s2, Inl err)
          | Inr receipts \<Rightarrow>
              obind (of_opt (eng_Finalize engine config header s2 (blk_transactions block) (blk_uncles block) receipts)) (\<lambda>s3.
                Value (s3, Inr (receipts, concat (map r_Logs receipts), usedGas))))))"

subsection \<open>The rewards of the proof-of-work engine\<close>

definition block_reward :: "ChainConfig \<Rightarrow> bigint \<Rightarrow> bigint" where
  "block_reward config number =
     (let blockReward = 5000000000000000000;
          blockReward = (if IsByzantium config (Some number) then 3000000000000000000 else blockReward)
      in if IsConstantinople config (Some number) then 2000000000000000000 else blockReward)"

definition reward_uncle ::
  "('d, 'a, 's) sdb_env \<Rightarrow> bigint \<Rightarrow> Header \<Rightarrow> Header \<Rightarrow> ('d, 'a, 's) StateDB \<times> bigint \<Rightarrow> ('d, 'a, 's) StateDB \<times> bigint" where
  "reward_uncle E blockReward header uncle = (\<lambda>(state, reward).
     (AddBalance E (h_Coinbase uncle) ((h_Number uncle + 8 - h_Number header) * blockReward div 8) state, reward + blockReward div 32))"

definition accumulateRewards ::
  "('d, 'a, 's) sdb_env \<Rightarrow> ChainConfig \<Rightarrow> ('d, 'a, 's) StateDB \<Rightarrow> Header \<Rightarrow> Header list \<Rightarrow> ('d, 'a, 's) StateDB" where
  "accumulateRewards E config state header uncles =
     (let blockReward = block_reward config (h_Number header);
          (s1, reward) = fold (reward_uncle E blockReward header) uncles (state, blockReward)
      in AddBalance E (h_Coinbase header) reward s1)"

definition ethash_Engine :: "('d, 'a, 's) sdb_env \<Rightarrow> ('d, 'a, 's) Engine" where
  "ethash_Engine E =
     \<lparr>eng_Author = h_Coinbase,
      eng_Finalize = (\<lambda>config header state txs uncles receipts.
        map_option fst (IntermediateRoot E (IsEIP158 config (Some (h_Number header))) (accumulateRewards E config state header uncles)))\<rparr>"

subsection \<open>The gas of a block\<close>

lemma AsMessage_fields:
  assumes "AsMessage sender tx = Inr msg"
  shows "msg_gasLimit msg = GasLimit tx" "msg_gasPrice msg = Price tx" "msg_amount msg = Amount tx"
  using assms by (auto simp: AsMessage_def split: sum.splits)

lemma ApplyTransaction_ends:
  assumes "unat (GasLimit tx) < fuel"
  shows "ApplyTransaction K E V author fuel miner header tx sh \<noteq> NoFuel"
proof -
  obtain gp s used where sh: "sh = (gp, s, used)" by (cases sh)
  have "ApplyMessage V1 (evm_loop fuel V1) evm msg gp \<noteq> NoFuel" if "AsMessage f tx = Inr msg" for f msg V1 and evm :: "('a, 'b, 'c) StateDB evm"
    using gas.TransitionDb_settled[of msg fuel V1 evm gp] assms AsMessage_fields(1)[OF that] by (auto simp: post_def)
  then show ?thesis
    by (auto simp: ApplyTransaction_def sh Let_def obind_def of_opt_def split: sum.splits outcome.splits option.splits prod.splits)
qed

lemma tx_receipt_gas [simp]:
  "r_GasUsed (tx_receipt K V tx msg root failed used gas logs) = gas"
  "r_CumulativeGasUsed (tx_receipt K V tx msg root failed used gas logs) = used"
  by (simp_all add: tx_receipt_def NewReceipt_def Let_def)

lemma ApplyTransactionE:
  assumes "ApplyTransaction K E V author fuel miner header tx (gp, s, used) = Value ((gp', s', used'), Inr (receipt, g))"
  obtains msg V1 st ret failed where "msg_gasLimit msg = GasLimit tx" "msg_gasPrice msg = Price tx" "msg_amount msg = Amount tx"
    "V1 = NewEVMContext K V msg header author miner"
    "ApplyMessage (evm_over (sdb_ops E) V1) (evm_loop fuel (evm_over (sdb_ops E) V1)) (NewEVM s) msg gp = Value (st, Inr (ret, g, failed))"
    "Finalise E (IsByzantium (vm_chainConfig V) (Some (h_Number header)) \<or> IsEIP158 (vm_chainConfig V) (Some (h_Number header)))
       (evm_StateDB (st_evm st)) = Some s'"
    "gp' = st_gp st" "used' = used + g" "r_GasUsed receipt = g" "r_CumulativeGasUsed receipt = used'"
proof -
  obtain msg where msg: "AsMessage (signer_Sender (cr_Ecrecover K) (cr_Keccak K) (cr_SigHash K) (MakeSigner (vm_chainConfig V) (h_Number header))) tx = Inr msg"
    using assms by (auto simp: ApplyTransaction_def Let_def split: sum.splits)
  let ?V = "evm_over (sdb_ops E) (NewEVMContext K V msg header author miner)"
  obtain st ret failed where st: "ApplyMessage ?V (evm_loop fuel ?V) (NewEVM s) msg gp = Value (st, Inr (ret, g, failed))"
    using assms msg by (auto simp: ApplyTransaction_def Let_def obind_def split: sum.splits outcome.splits option.splits prod.splits)
  show thesis
    by (rule that[OF AsMessage_fields[OF msg] refl st])
      (use assms msg st in \<open>auto simp: ApplyTransaction_def Let_def obind_def of_opt_def IntermediateRoot_def
        split: outcome.splits option.splits prod.splits if_splits\<close>)
qed

lemma ApplyTransaction_gas:
  assumes "unat (GasLimit tx) < fuel"
    and "ApplyTransaction K E V author fuel miner header tx (gp, s, used) = Value ((gp', s', used'), Inr (receipt, g))"
  shows "g \<le> gp \<and> gp' = gp - g \<and> used' = used + g \<and> r_GasUsed receipt = g \<and> r_CumulativeGasUsed receipt = used'"
  using assms(2)
proof (rule ApplyTransactionE)
  fix msg V1 st ret failed
  assume m: "msg_gasLimit msg = GasLimit tx"
    "ApplyMessage (evm_over (sdb_ops E) V1) (evm_loop fuel (evm_over (sdb_ops E) V1)) (NewEVM s) msg gp = Value (st, Inr (ret, g, failed))"
    and r: "gp' = st_gp st" "used' = used + g" "r_GasUsed receipt = g" "r_CumulativeGasUsed receipt = used'"
  have "gas.settled (evm_over (sdb_ops E) V1) (NewEVM s) msg gp (st, Inr (ret, g, failed))"
    using gas.TransitionDb_settled[of msg fuel "evm_over (sdb_ops E) V1" "NewEVM s" gp] assms(1) m by (simp add: post_def)
  then obtain left where "left \<le> msg_gasLimit msg" "msg_gasLimit msg \<le> gp" "g = msg_gasLimit msg - left" "st_gp st = gp - g"
    by (auto simp: gas.settled_def Let_def)
  then show ?thesis using r word_sub_le[of left "msg_gasLimit msg"] by auto
qed

lemma process_transactions_ends:
  "\<forall>tx \<in> set txs. unat (GasLimit tx) < fuel \<Longrightarrow> process_transactions K E V author fuel bhash header i txs sh \<noteq> NoFuel"
proof (induction txs arbitrary: i sh)
  case (Cons tx txs)
  obtain gp s used where sh: "sh = (gp, s, used)" by (cases sh)
  show ?case
    using Cons ApplyTransaction_ends[of tx fuel K E V author None header]
    by (auto simp: sh obind_def split: outcome.splits sum.splits prod.splits)
qed simp

text \<open>The receipts count the gas from what was used before.\<close>

definition counted :: "nat \<Rightarrow> Receipt list \<Rightarrow> bool" where
  "counted used receipts \<longleftrightarrow> (\<forall>i < length receipts.
     unat (r_CumulativeGasUsed (receipts ! i)) = used + sum_list (map (\<lambda>r. unat (r_GasUsed r)) (take (i + 1) receipts)))"

lemma counted_Cons:
  assumes "unat (r_CumulativeGasUsed r) = used + unat (r_GasUsed r)" and "counted (used + unat (r_GasUsed r)) rs"
  shows "counted used (r # rs)"
  unfolding counted_def
proof (intro allI impI)
  fix i
  assume "i < length (r # rs)"
  then show "unat (r_CumulativeGasUsed ((r # rs) ! i)) = used + sum_list (map (\<lambda>r. unat (r_GasUsed r)) (take (i + 1) (r # rs)))"
    using assms by (cases i) (simp_all add: counted_def)
qed

lemma process_transactions_gas:
  assumes "\<forall>tx \<in> set txs. unat (GasLimit tx) < fuel" and "unat gp + unat used < 2 ^ 64"
    and "process_transactions K E V author fuel bhash header i txs (gp, s, used) = Value ((gp', s', used'), Inr receipts)"
  shows "unat gp' + unat used' = unat gp + unat used \<and> unat used' = unat used + sum_list (map (\<lambda>r. unat (r_GasUsed r)) receipts) \<and>
    length receipts = length txs \<and> counted (unat used) receipts"
  using assms
proof (induction txs arbitrary: i gp s used receipts)
  case Nil
  then show ?case by (simp add: counted_def)
next
  case (Cons tx txs)
  obtain gp1 s1 used1 r g rs where a:
    "ApplyTransaction K E V author fuel None header tx (gp, Prepare (cr_TxHash K tx) bhash (of_nat i) s, used) = Value ((gp1, s1, used1), Inr (r, g))"
    and p: "process_transactions K E V author fuel bhash header (i + 1) txs (gp1, s1, used1) = Value ((gp', s', used'), Inr rs)" "receipts = r # rs"
    using Cons.prems(3) by (auto simp: obind_def split: outcome.splits sum.splits prod.splits)
  have g: "g \<le> gp" "gp1 = gp - g" "used1 = used + g" "r_GasUsed r = g" "r_CumulativeGasUsed r = used1"
    using ApplyTransaction_gas[OF _ a] Cons.prems(1) by auto
  have u: "unat gp1 = unat gp - unat g" "unat g \<le> unat gp" using g(1,2) by (simp_all add: unat_sub word_le_nat_alt)
  then have v: "unat used1 = unat used + unat g"
    using Cons.prems(2) by (simp add: g(3) unat_word_ariths)
  show ?case
    using Cons.IH[OF _ _ p(1)] Cons.prems(1,2) u v by (simp add: p(2) g(4,5) counted_Cons)
qed

lemma Process_ends:
  "\<forall>tx \<in> set (blk_transactions block). unat (GasLimit tx) < fuel \<Longrightarrow> Process K E V engine fuel bhash block s \<noteq> NoFuel"
  using process_transactions_ends[of "blk_transactions block" fuel K E V "eng_Author engine" bhash "blk_header block" 0]
  by (auto simp: Process_def Let_def obind_def of_opt_def split: outcome.splits sum.splits prod.splits option.splits)

lemma ProcessE:
  assumes "Process K E V engine fuel bhash block s = Value (s', Inr (receipts, logs, used))"
  obtains gp s1 s2 where "s1 = (if DAOForkSupport (vm_chainConfig V) \<and> DAOForkBlock (vm_chainConfig V) = Some (h_Number (blk_header block))
      then ApplyDAOHardFork E s else s)"
    "process_transactions K E V (eng_Author engine) fuel bhash (blk_header block) 0 (blk_transactions block) (h_GasLimit (blk_header block), s1, 0) =
       Value ((gp, s2, used), Inr receipts)"
    "eng_Finalize engine (vm_chainConfig V) (blk_header block) s2 (blk_transactions block) (blk_uncles block) receipts = Some s'"
    "logs = concat (map r_Logs receipts)"
proof -
  have "AddGas 0 (h_GasLimit (blk_header block)) = Some (h_GasLimit (blk_header block))" by (simp add: AddGas_def)
  then show thesis
    using assms that by (auto simp: Process_def Let_def obind_def of_opt_def split: outcome.splits sum.splits prod.splits option.splits)
qed

lemma Process_gas:
  assumes "\<forall>tx \<in> set (blk_transactions block). unat (GasLimit tx) < fuel"
    and "Process K E V engine fuel bhash block s = Value (s', Inr (receipts, logs, used))"
  shows "unat used = sum_list (map (\<lambda>r. unat (r_GasUsed r)) receipts) \<and> used \<le> h_GasLimit (blk_header block) \<and>
    length receipts = length (blk_transactions block) \<and> counted 0 receipts"
  using assms(2)
proof (rule ProcessE)
  fix gp s1 s2
  assume p: "process_transactions K E V (eng_Author engine) fuel bhash (blk_header block) 0 (blk_transactions block)
    (h_GasLimit (blk_header block), s1, 0) = Value ((gp, s2, used), Inr receipts)"
  show ?thesis using process_transactions_gas[OF assms(1) _ p] unat_u64_lt[of "h_GasLimit (blk_header block)"] by (simp add: word_le_nat_alt)
qed

end
