(* ===== verification/Block_Ether.thy ===== *)
theory Block_Ether
  imports Block_Process
begin

text \<open>
  The ether of a block.  Between transactions \<open>Finalise\<close> writes the accounts to the trie and deletes the dead ones; it needs the
  trie to behave like a map.  Over a whole block the ether grows by no more than the rewards for the miner and for
  the uncles that \<open>VerifyUncles\<close> lets pass.
\<close>

subsection \<open>Finalising\<close>

text \<open>The account trie, as long as no node is missing: an update or a deletion changes one key.\<close>

definition trie_laws :: "('d, 'a, 's) sdb_env \<Rightarrow> bool" where
  "trie_laws E \<longleftrightarrow> (\<forall>tr a b v.
     fst (at_TryGet E (fst (at_TryUpdate E tr b v)) a) = (if a = b then v else fst (at_TryGet E tr a)) \<and>
     fst (at_TryGet E (fst (at_TryDelete E tr b)) a) = (if a = b then [] else fst (at_TryGet E tr a)))"

lemma trie_account_other:
  assumes "trie_laws E" and "a \<noteq> b"
  shows "trie_account E (fst (at_TryUpdate E tr b v)) a = trie_account E tr a"
    and "trie_account E (fst (at_TryDelete E tr b)) a = trie_account E tr a"
  using assms by (simp_all add: trie_laws_def trie_account_def)

lemma trie_account_deleted: "trie_laws E \<Longrightarrow> trie_account E (fst (at_TryDelete E tr a)) a = None"
  by (simp add: trie_laws_def trie_account_def)

lemma balance_lookup:
  "balance_at E s a = (case gm_get (stateObjects s) a of
     Some obj \<Rightarrow> if deleted obj then 0 else acc_Balance (so_data obj)
   | None \<Rightarrow> (case trie_account E (sdb_trie s) a of None \<Rightarrow> 0 | Some d \<Rightarrow> acc_Balance d))"
  by (auto simp: balance_at_def GetBalance_def getStateObject_def trie_account_def newObject_def case_prod_unfold Let_def split: option.splits)

lemma balance_cong: "stateObjects t = stateObjects s \<Longrightarrow> sdb_trie t = sdb_trie s \<Longrightarrow> balance_at E t = balance_at E s"
  by (intro ext) (simp only: balance_lookup)

text \<open>One dirty account: its balance stays or, if it is deleted, becomes zero; every other balance stays.\<close>

lemma finalise_one_ether:
  assumes "trie_laws E" and "objs_ok E s" and "finalise_one E True a s = Some s'"
  shows "objs_ok E s' \<and> (balance_at E s' = balance_at E s \<or> balance_at E s' = (balance_at E s)(a := 0))"
proof -
  obtain p where p: "gm_get (stateObjects s) a = Some p" using assms(3) by (auto simp: finalise_one_def split: option.splits)
  have ad: "so_address p = a" and dead: "deleted p \<Longrightarrow> suicided p \<or> so_empty E p"
    using assms(2) p by (auto simp: objs_ok_def)
  show ?thesis
  proof (cases "suicided p \<or> so_empty E p")
    case True
    then have s': "stateObjects s' = gm_set a (p\<lparr>deleted := True\<rparr>) (stateObjects s)" "sdb_trie s' = fst (at_TryDelete E (sdb_trie s) a)"
      using assms(3) p ad by (auto simp: finalise_one_def deleteStateObject_def setStateObject_def sdb_setError_def case_prod_unfold Let_def)
    have "objs_ok E s'" unfolding objs_ok_def
    proof (intro allI impI)
      fix b q
      assume "gm_get (stateObjects s') b = Some q"
      then show "so_address q = b \<and> (deleted q \<longrightarrow> trie_account E (sdb_trie s') b = None \<and> (suicided q \<or> so_empty E q))"
        using assms(1,2) ad True trie_account_deleted[OF assms(1)] trie_account_other(2)[OF assms(1)]
        by (cases "b = a") (auto simp: s' gm_get_set objs_ok_def so_empty_def)
    qed
    moreover have "balance_at E s' = (balance_at E s)(a := 0)"
      using trie_account_other(2)[OF assms(1)] by (intro ext) (auto simp: balance_lookup s' gm_get_set split: option.split)
    ultimately show ?thesis by simp
  next
    case False
    let ?q = "updateRoot E (sdb_db s) p"
    have s': "stateObjects s' = gm_set a ?q (stateObjects s)" "sdb_trie s' = fst (at_TryUpdate E (sdb_trie s) a (enc_Account E (so_data ?q)))"
      using assms(3) p ad False by (auto simp: finalise_one_def updateStateObject_def setStateObject_def sdb_setError_def case_prod_unfold Let_def)
    have q: "\<not> deleted ?q" "so_address ?q = a" "acc_Balance (so_data ?q) = acc_Balance (so_data p)" "\<not> deleted p" using dead False ad by auto
    have "objs_ok E s'" unfolding objs_ok_def
    proof (intro allI impI)
      fix b r
      assume "gm_get (stateObjects s') b = Some r"
      then show "so_address r = b \<and> (deleted r \<longrightarrow> trie_account E (sdb_trie s') b = None \<and> (suicided r \<or> so_empty E r))"
        using assms(2) q trie_account_other(1)[OF assms(1)] by (cases "b = a") (auto simp: s' gm_get_set objs_ok_def)
    qed
    moreover have "balance_at E s' = balance_at E s"
      using trie_account_other(1)[OF assms(1)] q p by (intro ext) (auto simp: balance_lookup s' gm_get_set split: option.split)
    ultimately show ?thesis by simp
  qed
qed

text \<open>A sound state, and a step that keeps it sound and makes no ether.\<close>

definition sound :: "('d, 'a, 's) sdb_env \<Rightarrow> ('d, 'a, 's) StateDB \<Rightarrow> bool" where
  "sound E s \<longleftrightarrow> sdb_inv E s \<and> nonneg E s"

lemma zeroed:
  assumes "nonneg E s" and "balance_at E s' = balance_at E s \<or> balance_at E s' = (balance_at E s)(a := 0)"
  shows "nonneg E s' \<and> total_supply E s' \<le> total_supply E s"
  using assms(2)
proof
  assume "balance_at E s' = (balance_at E s)(a := 0)"
  then show ?thesis using assms(1) by (simp add: nonneg_def total_supply_def sum_upd del: fun_upd_apply) (simp add: nonneg_def)
qed (use assms(1) supply_same[of E s' s] in \<open>simp add: nonneg_def\<close>)

lemma finalise_loop_ether:
  assumes "trie_laws E"
  shows "objs_ok E s \<Longrightarrow> nonneg E s \<Longrightarrow> finalise_loop E True as s = Some s' \<Longrightarrow>
    objs_ok E s' \<and> nonneg E s' \<and> total_supply E s' \<le> total_supply E s"
proof (induction as arbitrary: s)
  case (Cons a as)
  obtain t where t: "finalise_one E True a s = Some t" "finalise_loop E True as t = Some s'"
    using Cons.prems(3) by (auto split: option.splits)
  note one = finalise_one_ether[OF assms Cons.prems(1) t(1)]
  then have "nonneg E t \<and> total_supply E t \<le> total_supply E s" using zeroed[OF Cons.prems(2)] by blast
  then show ?case using Cons.IH[OF _ _ t(2)] one by auto
qed simp

lemma Finalise_ether:
  assumes "trie_laws E" and "sound E s" and "Finalise E True s = Some s'"
  shows "sound E s' \<and> total_supply E s' \<le> total_supply E s"
proof -
  obtain t where t: "finalise_loop E True (gm_keys (dirties (sdb_journal s))) s = Some t" "s' = clearJournalAndRefund t"
    using assms(3) by (auto simp: Finalise_def)
  have "objs_ok E t \<and> nonneg E t \<and> total_supply E t \<le> total_supply E s"
    using finalise_loop_ether[OF assms(1) _ _ t(1)] assms(2) by (auto simp: sound_def sdb_inv_def sdb_ok_def)
  moreover have "balance_at E s' = balance_at E t" by (rule balance_cong) (simp_all add: t(2) clearJournalAndRefund_def)
  ultimately show ?thesis
    using supply_same[of E s' t]
    by (auto simp: sound_def sdb_inv_def sdb_ok_def objs_ok_def revs_ok_def nonneg_def t(2) clearJournalAndRefund_def newJournal_def)
qed

subsection \<open>The transactions\<close>

lemma Prepare_ether: "sound E (Prepare th bh ti s) = sound E s" "total_supply E (Prepare th bh ti s) = total_supply E s"
proof -
  have "balance_at E (Prepare th bh ti s) = balance_at E s" by (rule balance_cong) (simp_all add: Prepare_def)
  then show "sound E (Prepare th bh ti s) = sound E s" "total_supply E (Prepare th bh ti s) = total_supply E s"
    using supply_same[of E "Prepare th bh ti s" s]
    by (simp_all add: sound_def nonneg_def sdb_inv_def sdb_ok_def objs_ok_def revs_ok_def) (simp_all add: Prepare_def)
qed

lemma ApplyTransaction_ether:
  assumes "trie_laws E" and "sound E s" and "0 \<le> Price tx" and "0 \<le> Amount tx" and "unat (GasLimit tx) < fuel"
    and "IsEIP158 (vm_chainConfig V) (Some (h_Number header))"
    and "ApplyTransaction K E V author fuel miner header tx (gp, s, used) = Value ((gp', s', used'), Inr (receipt, g))"
  shows "sound E s' \<and> total_supply E s' \<le> total_supply E s"
  using assms(7)
proof (rule ApplyTransactionE)
  fix msg V1 st ret failed
  assume msg: "msg_gasLimit msg = GasLimit tx" "msg_gasPrice msg = Price tx" "msg_amount msg = Amount tx"
    and V1: "V1 = NewEVMContext K V msg header author miner"
    and run: "ApplyMessage (evm_over (sdb_ops E) V1) (evm_loop fuel (evm_over (sdb_ops E) V1)) (NewEVM s) msg gp = Value (st, Inr (ret, g, failed))"
    and fin: "Finalise E (IsByzantium (vm_chainConfig V) (Some (h_Number header)) \<or> IsEIP158 (vm_chainConfig V) (Some (h_Number header)))
       (evm_StateDB (st_evm st)) = Some s'"
  have "0 \<le> ctx_GasPrice V1" using assms(3) msg(2) by (simp add: V1 NewEVMContext_def Let_def)
  then have "sound E (evm_StateDB (st_evm st)) \<and> total_supply E (evm_StateDB (st_evm st)) \<le> total_supply E s"
    using ApplyMessage_ether[OF _ _ _ _ _ _ _ refl run] assms(2-5) msg by (simp add: sound_def sdb_inv_def NewEVM_def)
  then show ?thesis using Finalise_ether[OF assms(1) _ fin[simplified assms(6) simp_thms]] by auto
qed

lemma process_transactions_ether:
  assumes "trie_laws E" and "IsEIP158 (vm_chainConfig V) (Some (h_Number header))"
  shows "\<forall>tx \<in> set txs. 0 \<le> Price tx \<and> 0 \<le> Amount tx \<and> unat (GasLimit tx) < fuel \<Longrightarrow> sound E s \<Longrightarrow>
    process_transactions K E V author fuel bhash header i txs (gp, s, used) = Value ((gp', s', used'), Inr receipts) \<Longrightarrow>
    sound E s' \<and> total_supply E s' \<le> total_supply E s"
proof (induction txs arbitrary: i gp s used receipts)
  case (Cons tx txs)
  obtain gp1 s1 used1 r g rs where a:
    "ApplyTransaction K E V author fuel None header tx (gp, Prepare (cr_TxHash K tx) bhash (of_nat i) s, used) = Value ((gp1, s1, used1), Inr (r, g))"
    and p: "process_transactions K E V author fuel bhash header (i + 1) txs (gp1, s1, used1) = Value ((gp', s', used'), Inr rs)"
    using Cons.prems(3) by (auto simp: obind_def split: outcome.splits sum.splits prod.splits)
  have "sound E s1 \<and> total_supply E s1 \<le> total_supply E s"
    using ApplyTransaction_ether[OF assms(1) _ _ _ _ assms(2) a] Cons.prems(1,2) by (simp add: Prepare_ether)
  then show ?case using Cons.IH[OF _ _ p] Cons.prems(1) by auto
qed simp

subsection \<open>Rewards and the DAO fork\<close>

lemma sound_credit:
  assumes "sound E s" and "0 \<le> x"
  shows "sound E (AddBalance E a x s)" and "total_supply E (AddBalance E a x s) = total_supply E s + x"
  using assms moves_inv[OF moves_writes(2)] by (auto simp: sound_def nonneg_def sdb_inv_def balance_writes supply_AddBalance)

lemma sound_same:
  assumes "sdb_moves E s s'" and "balance_at E s' = balance_at E s" and "sound E s"
  shows "sound E s'" and "total_supply E s' = total_supply E s"
  using assms moves_inv[OF assms(1)] supply_same[OF assms(2)] by (auto simp: sound_def nonneg_def)

lemma dao_drain_ether:
  assumes "sound E s"
  shows "sound E (dao_drain E a s) \<and> total_supply E (dao_drain E a s) \<le> total_supply E s"
proof -
  let ?b = "balance_at E s a"
  define s1 where "s1 = fst (GetBalance E a s)"
  define s2 where "s2 = AddBalance E DAORefundContract ?b s1"
  have b: "0 \<le> ?b" using assms by (simp add: sound_def nonneg_def)
  have s1: "sound E s1" "total_supply E s1 = total_supply E s" "balance_at E s1 = balance_at E s"
    using sound_same[OF moves_reads(1) _ assms] by (simp_all add: s1_def)
  have s2: "sound E s2" "total_supply E s2 = total_supply E s + ?b" using sound_credit[OF s1(1) b] s1(2) by (simp_all add: s2_def)
  have ok: "sdb_ok E s1" "sdb_ok E s2" using s1(1) s2(1) by (simp_all add: sound_def sdb_inv_def)
  have "?b \<le> balance_at E s2 a" using b s1(3) by (auto simp: s2_def balance_writes[OF ok(1)])
  moreover have bal: "balance_at E (SetBalance E a 0 s2) = (balance_at E s2)(a := 0)" by (rule balance_writes(3)[OF ok(2)])
  moreover have "sdb_inv E (SetBalance E a 0 s2)"
    by (rule moves_inv[OF moves_undoable]) (use object_writes_undoable(3) s2(1) in \<open>auto simp: sound_def\<close>)
  ultimately have "sound E (SetBalance E a 0 s2) \<and> total_supply E (SetBalance E a 0 s2) \<le> total_supply E s"
    using s2 by (auto simp: sound_def nonneg_def total_supply_def sum_upd bal simp del: fun_upd_apply) (simp add: fun_upd_apply)
  moreover have "dao_drain E a s = SetBalance E a 0 s2"
    by (simp add: dao_drain_def s1_def s2_def balance_at_def case_prod_unfold Let_def)
  ultimately show ?thesis by simp
qed

lemma ApplyDAOHardFork_ether:
  assumes "sound E s"
  shows "sound E (ApplyDAOHardFork E s) \<and> total_supply E (ApplyDAOHardFork E s) \<le> total_supply E s"
proof -
  have drain: "sound E t \<Longrightarrow> sound E (fold (dao_drain E) as t) \<and> total_supply E (fold (dao_drain E) as t) \<le> total_supply E t" for as t
  proof (induction as arbitrary: t)
    case (Cons a as)
    then show ?case using dao_drain_ether[OF Cons.prems, of a] by fastforce
  qed simp
  note ex = sound_same[OF moves_reads(9) balance_reads(5) assms, of DAORefundContract]
  note new = sound_same[OF moves_writes(1) balance_CreateAccount ex(1), of DAORefundContract]
  show ?thesis using drain[OF ex(1)] drain[OF new(1)] ex(2) new(2)
    by (simp add: ApplyDAOHardFork_def case_prod_unfold Let_def)
qed

definition uncle_reward :: "bigint \<Rightarrow> Header \<Rightarrow> Header \<Rightarrow> bigint" where
  "uncle_reward R header uncle = (h_Number uncle + 8 - h_Number header) * R div 8"

lemma reward_uncles:
  assumes "0 \<le> R"
  shows "sound E s \<Longrightarrow> \<forall>u \<in> set us. h_Number header \<le> h_Number u + 8 \<Longrightarrow>
    (\<exists>s'. fold (reward_uncle E R header) us (s, r) = (s', r + int (length us) * (R div 32)) \<and> sound E s' \<and>
       total_supply E s' = total_supply E s + sum_list (map (uncle_reward R header) us))"
proof (induction us arbitrary: s r)
  case (Cons u us)
  have "0 \<le> uncle_reward R header u" using Cons.prems(2) assms by (simp add: uncle_reward_def pos_imp_zdiv_nonneg_iff)
  note c = sound_credit[OF Cons.prems(1) this, of "h_Coinbase u"]
  show ?case
    using Cons.IH[OF c(1), of "r + R div 32"] Cons.prems(2) c(2)
    by (auto simp: reward_uncle_def uncle_reward_def algebra_simps)
qed simp

lemma accumulateRewards_ether:
  assumes "sound E s" and "\<forall>u \<in> set us. h_Number header \<le> h_Number u + 8" and "R = block_reward config (h_Number header)"
  shows "sound E (accumulateRewards E config s header us)"
    and "total_supply E (accumulateRewards E config s header us) =
      total_supply E s + sum_list (map (uncle_reward R header) us) + R + int (length us) * (R div 32)"
proof -
  have R: "0 \<le> R" by (simp add: assms(3) block_reward_def)
  obtain s1 where s1: "fold (reward_uncle E R header) us (s, R) = (s1, R + int (length us) * (R div 32))" "sound E s1"
    "total_supply E s1 = total_supply E s + sum_list (map (uncle_reward R header) us)"
    using reward_uncles[OF R assms(1,2), of R] by auto
  have "0 \<le> R + int (length us) * (R div 32)" using R by simp
  from sound_credit[OF s1(2) this, of "h_Coinbase header"] s1
  show "sound E (accumulateRewards E config s header us)"
    "total_supply E (accumulateRewards E config s header us) =
      total_supply E s + sum_list (map (uncle_reward R header) us) + R + int (length us) * (R div 32)"
    by (simp_all add: accumulateRewards_def assms(3) Let_def)
qed

lemma uncle_rewards_bound:
  assumes "length us \<le> 2" and "\<forall>u \<in> set us. h_Number u < h_Number header" and "0 \<le> R"
  shows "sum_list (map (uncle_reward R header) us) + int (length us) * (R div 32) \<le> 2 * (7 * R div 8 + R div 32)"
proof -
  have one: "uncle_reward R header u \<le> 7 * R div 8" if "u \<in> set us" for u
  proof -
    have "h_Number u + 8 - h_Number header \<le> 7" using assms(2) that by force
    from mult_right_mono[OF this assms(3)] show ?thesis unfolding uncle_reward_def by (rule zdiv_mono1) simp
  qed
  have "sum_list (map (uncle_reward R header) us) \<le> int (length us) * (7 * R div 8)"
    using sum_list_mono[of us "uncle_reward R header" "\<lambda>_. 7 * R div 8"] one by (simp add: sum_list_triv)
  moreover have "int (length us) * (7 * R div 8 + R div 32) \<le> 2 * (7 * R div 8 + R div 32)"
    by (rule mult_right_mono) (use assms(1,3) in simp_all)
  ultimately show ?thesis by (simp add: distrib_left)
qed

subsection \<open>The block\<close>

lemma Process_ether:
  assumes "trie_laws E" and "sound E s" and "IsEIP158 (vm_chainConfig V) (Some (h_Number (blk_header block)))"
    and "\<forall>tx \<in> set (blk_transactions block). 0 \<le> Price tx \<and> 0 \<le> Amount tx \<and> unat (GasLimit tx) < fuel"
    and "\<forall>u \<in> set (blk_uncles block). h_Number (blk_header block) \<le> h_Number u + 8"
    and "R = block_reward (vm_chainConfig V) (h_Number (blk_header block))"
    and "Process K E V (ethash_Engine E) fuel bhash block s = Value (s', Inr (receipts, logs, used))"
  shows "sound E s' \<and> total_supply E s' \<le> total_supply E s + sum_list (map (uncle_reward R (blk_header block)) (blk_uncles block)) + R +
    int (length (blk_uncles block)) * (R div 32)"
  using assms(7)
proof (rule ProcessE)
  fix gp s1 s2
  let ?h = "blk_header block" and ?c = "vm_chainConfig V" and ?us = "blk_uncles block"
  assume s1: "s1 = (if DAOForkSupport ?c \<and> DAOForkBlock ?c = Some (h_Number ?h) then ApplyDAOHardFork E s else s)"
    and p: "process_transactions K E V (eng_Author (ethash_Engine E)) fuel bhash ?h 0 (blk_transactions block) (h_GasLimit ?h, s1, 0) =
       Value ((gp, s2, used), Inr receipts)"
    and f: "eng_Finalize (ethash_Engine E) ?c ?h s2 (blk_transactions block) ?us receipts = Some s'"
  have dao: "sound E s1 \<and> total_supply E s1 \<le> total_supply E s"
    using ApplyDAOHardFork_ether[OF assms(2)] assms(2) by (simp add: s1)
  then have s2: "sound E s2 \<and> total_supply E s2 \<le> total_supply E s1"
    using process_transactions_ether[OF assms(1,3,4) _ p] by simp
  note reward = accumulateRewards_ether[OF conjunct1[OF s2] assms(5,6)]
  have "Finalise E True (accumulateRewards E ?c s2 ?h ?us) = Some s'"
    using f assms(3) by (auto simp: ethash_Engine_def IntermediateRoot_def)
  from Finalise_ether[OF assms(1) reward(1) this] dao s2 reward(2) show ?thesis by simp
qed

text \<open>
  C12: Every unit of gas of a block is accounted for, whatever the engine: processing ends; if it succeeds there is one receipt for
  each transaction, the gas used is the sum of the gas of the receipts and within the limit of the block, and every receipt
  carries the sum up to and including its own transaction, none of the 64-bit sums wrapping around.
\<close>

theorem block_gas_accounted:
  assumes "\<forall>tx \<in> set (blk_transactions block). unat (GasLimit tx) < fuel"
  shows "case Process K E V engine fuel bhash block s of
      NoFuel \<Rightarrow> False
    | Panics \<Rightarrow> True
    | Value (s', Inl err) \<Rightarrow> True
    | Value (s', Inr (receipts, logs, used)) \<Rightarrow>
        length receipts = length (blk_transactions block) \<and> unat used = sum_list (map (\<lambda>r. unat (r_GasUsed r)) receipts) \<and>
        used \<le> h_GasLimit (blk_header block) \<and>
        (\<forall>i < length receipts. unat (r_CumulativeGasUsed (receipts ! i)) = sum_list (map (\<lambda>r. unat (r_GasUsed r)) (take (i + 1) receipts)))"
  using Process_ends[OF assms, of K E V engine bhash s] Process_gas[OF assms, of K E V engine bhash s]
  by (auto simp: counted_def split: outcome.splits sum.splits)

text \<open>
  C1: A block creates no more ether than its rewards: if the uncles pass \<open>VerifyUncles\<close> and the block is processed without
  an error, no balance is negative and the sum of all balances has grown by at most the block reward and, for each of at most two
  uncles, seven eighths of it for the uncle and a 32nd for including it.  The block is after the fork that deletes
  empty accounts, the account trie acts as a map, and amounts and prices are not negative.
\<close>

theorem block_ether_bounded:
  assumes "trie_laws E" and "sdb_ok E s" and "revs_ok s" and "nonneg E s"
    and "IsEIP158 (vm_chainConfig V) (Some (h_Number (blk_header block)))"
    and "\<forall>tx \<in> set (blk_transactions block). 0 \<le> Price tx \<and> 0 \<le> Amount tx \<and> unat (GasLimit tx) < fuel"
    and "VerifyUncles ee (vm_chainConfig V) GetBlock block = None" and "\<not> ee_FullFake ee" and "chain_ok (ee_Hash ee) GetBlock"
    and "0 \<le> h_Number (blk_header block)" and "h_Number (blk_header block) < 2 ^ 63"
    and "\<forall>u \<in> set (blk_uncles block). h_ParentHash u \<noteq> ee_Hash ee (blk_header block)"
    and "R = block_reward (vm_chainConfig V) (h_Number (blk_header block))"
    and "Process K E V (ethash_Engine E) fuel bhash block s = Value (s', Inr (receipts, logs, used))"
  shows "total_supply E s' \<le> total_supply E s + R + 2 * (7 * R div 8 + R div 32) \<and> nonneg E s'"
proof -
  note u = VerifyUncles_accepts[OF assms(7-12)]
  have R: "0 \<le> R" by (simp add: assms(13) block_reward_def)
  have "\<forall>u \<in> set (blk_uncles block). h_Number (blk_header block) \<le> h_Number u + 8" using u by force
  moreover have "sound E s" using assms(2-4) by (simp add: sound_def sdb_inv_def)
  ultimately have "sound E s' \<and> total_supply E s' \<le> total_supply E s +
      sum_list (map (uncle_reward R (blk_header block)) (blk_uncles block)) + R + int (length (blk_uncles block)) * (R div 32)"
    using Process_ether[OF assms(1) _ assms(5,6) _ assms(13,14)] by blast
  then show ?thesis using uncle_rewards_bound[of "blk_uncles block" "blk_header block" R] u R by (auto simp: sound_def)
qed

subsection \<open>A block to process\<close>

text \<open>Block 11 with a transfer of 5 from account 7 and an uncle at height 10; its parent and grandparent are known.\<close>

definition demo_crypto :: crypto_env where
  "demo_crypto = \<lparr>cr_Ecrecover = (\<lambda>h sig. Some [4]), cr_Keccak = (\<lambda>b. 7), cr_SigHash = (\<lambda>c tx. 0), cr_TxHash = (\<lambda>tx. 1),
     cr_GetHashFn = (\<lambda>h n. 0)\<rparr>"

definition demo_grandparent :: Header where
  "demo_grandparent = demo_parent\<lparr>h_ParentHash := 8, h_Number := 9, h_Time := 95\<rparr>"

definition demo_uncle :: Header where
  "demo_uncle = demo_header\<lparr>h_ParentHash := 9, h_Number := 10, h_Time := 99, h_Coinbase := 3, h_Nonce := 1\<rparr>"

definition demo_GetBlock :: "hash \<Rightarrow> u64 \<Rightarrow> Block option" where
  "demo_GetBlock h n =
     (if h = 10 \<and> n = 10 then Some \<lparr>blk_header = demo_parent, blk_uncles = [], blk_transactions = []\<rparr>
      else if h = 9 \<and> n = 9 then Some \<lparr>blk_header = demo_grandparent, blk_uncles = [], blk_transactions = []\<rparr>
      else None)"

definition demo_block :: Block where
  "demo_block = \<lparr>blk_header = demo_header, blk_uncles = [demo_uncle],
     blk_transactions = [\<lparr>AccountNonce = 1, Price = 0, GasLimit = 21000, Recipient = Some 8, Amount = 5, Payload = [], sigV = 37, sigR = 1, sigS = 1\<rparr>]\<rparr>"

definition block_vm :: "(unit, (address, bytes) gomap, (hash, bytes) gomap) StateDB vm" where
  "block_vm = demo_base\<lparr>vm_chainConfig := demo_config\<rparr>"

lemma demo_laws: "trie_laws demo_env"
  by (auto simp: trie_laws_def demo_env_def gm_get_set gm_get_del)

lemma demo_chain: "chain_ok (ee_Hash demo_ee) demo_GetBlock"
  by (auto simp: chain_ok_def demo_GetBlock_def demo_ee_def demo_parent_def demo_grandparent_def split: if_splits)

lemma demo_uncle_accepted: "VerifyUncles demo_ee demo_config demo_GetBlock demo_block = None"
  by code_simp

lemma demo_processed:
  "\<not> (case Process demo_crypto demo_env block_vm (ethash_Engine demo_env) 21001 0 demo_block (evm_StateDB demo_evm) of
     Value (s', Inr (receipts, logs, used)) \<Rightarrow> used \<noteq> 21000 \<or> balance_at demo_env s' 8 \<noteq> 5 \<or> balance_at demo_env s' 3 \<noteq> 1750000000000000000 | _ \<Rightarrow> True)"
  by code_simp

theorem block_ether_bounded_witness:
  "\<exists>s' receipts logs. Process demo_crypto demo_env block_vm (ethash_Engine demo_env) 21001 0 demo_block (evm_StateDB demo_evm) =
       Value (s', Inr (receipts, logs, 21000)) \<and> balance_at demo_env s' 3 = 1750000000000000000 \<and>
     total_supply demo_env s' \<le> total_supply demo_env (evm_StateDB demo_evm) + 5625000000000000000 \<and> nonneg demo_env s'"
proof -
  obtain s' receipts logs where
    r: "Process demo_crypto demo_env block_vm (ethash_Engine demo_env) 21001 0 demo_block (evm_StateDB demo_evm) = Value (s', Inr (receipts, logs, 21000))"
    "balance_at demo_env s' 3 = 1750000000000000000"
    using demo_processed by (auto split: outcome.splits prod.splits sum.splits)
  have cfg: "vm_chainConfig block_vm = demo_config" by (simp add: block_vm_def)
  have e: "IsEIP158 (vm_chainConfig block_vm) (Some (h_Number (blk_header demo_block)))" by code_simp
  have t: "\<forall>tx \<in> set (blk_transactions demo_block). 0 \<le> Price tx \<and> 0 \<le> Amount tx \<and> unat (GasLimit tx) < 21001"
    by (simp add: demo_block_def)
  have n: "0 \<le> h_Number (blk_header demo_block)" "h_Number (blk_header demo_block) < 2 ^ 63"
    "\<forall>u \<in> set (blk_uncles demo_block). h_ParentHash u \<noteq> ee_Hash demo_ee (blk_header demo_block)" "\<not> ee_FullFake demo_ee"
    by (simp_all add: demo_block_def demo_header_def demo_uncle_def demo_ee_def demo_parent_def)
  have "2000000000000000000 = block_reward (vm_chainConfig block_vm) (h_Number (blk_header demo_block))" by code_simp
  from block_ether_bounded[OF demo_laws demo_evm_ok demo_nonneg e t demo_uncle_accepted[folded cfg] n(4) demo_chain n(1-3) this r(1)] r
  show ?thesis by simp
qed

theorem block_gas_accounted_witness:
  "case Process demo_crypto demo_env block_vm (ethash_Engine demo_env) 21001 0 demo_block (evm_StateDB demo_evm) of
     Value (s', Inr (receipts, logs, used)) \<Rightarrow> length receipts = 1 \<and> unat used = sum_list (map (\<lambda>r. unat (r_GasUsed r)) receipts) \<and> used \<le> 5121000
   | _ \<Rightarrow> False"
  using block_gas_accounted[of demo_block 21001 demo_crypto demo_env block_vm "ethash_Engine demo_env" 0 "evm_StateDB demo_evm"] demo_processed
  by (auto simp: demo_block_def demo_header_def split: outcome.splits prod.splits sum.splits)

end
