(* ===== verification/Spec2Isabelle.thy ===== *)
theory Spec2Isabelle
  imports Common_Math Tx_Types Tx_Sorted_Map Tx_List Tx_Priced Gas_Pool Transfer_Lock Tx_Set_Workers State_Finalise Chain_Config State_Transition
    Evm_Arith Evm_Jumpdest Evm_Memory Mpt_Concurrent Block_Ether
begin

text \<open>
  A verification development for \<open>concurrent_geth\<close>, a fork of go-ethereum whose miner executes the transactions of a block by
  several worker threads.  File and function names are those under \<open>src/\<close>.

  \<^bold>\<open>The program.\<close>  Transactions wait in the pool in per-account lists (\<open>core/tx_list.go\<close>).  The workers of the miner take
  them from a shared set (\<open>TransactionsByPriceAndNonce\<close> of \<open>core/types/transaction.go\<close>), at most one transaction of a sender at a
  time, and apply them (\<open>core/state_processor.go\<close>, \<open>core/state_transition.go\<close>): gas is bought from the pool of the block
  (\<open>core/gaspool.go\<close>), the virtual machine runs (\<open>core/vm\<close>), ether is transferred under locks of the two accounts (\<open>core/evm.go\<close>),
  and the journaled state database (\<open>core/state\<close>) undoes what fails.  Between transactions the accounts are written to a Merkle
  Patricia trie (\<open>trie\<close>) whose root the threads swap; after the last one the consensus engine (\<open>consensus/ethash\<close>) pays the rewards.

  \<^bold>\<open>Conventions.\<close>  \<open>Go_Prelude\<close> has the Go types: machine integers are words that wrap around, \<open>*big.Int\<close> is \<open>int\<close>, a Go map is an
  association list, addresses and hashes are words.  An error is \<open>Inl\<close> or \<open>Some\<close>; a panic is \<open>None\<close>, or \<open>Panics\<close> of the type \<open>outcome\<close>
  where a computation has fuel.  Goroutines are step relations whose steps are single atomic actions (\<open>Go_Threads\<close>: the locale
  \<open>step_invariant\<close> carries an invariant to every state of every interleaving).  Code outside the sources that are modelled
  (Keccak, secp256k1, RLP, LevelDB, the hash map of a vendored package) is an argument; what is assumed of it is a hypothesis.

  \<^bold>\<open>Theories.\<close>
  \<^item> \<open>Common_Math\<close> (\<open>common/math\<close>): 256-bit arithmetic on unbounded integers and checked 64-bit arithmetic.
  \<^item> \<open>Tx_Types\<close> (\<open>core/types/transaction.go\<close>, \<open>transaction_signing.go\<close>): transactions, signers, recovery of the sender.
  \<^item> \<open>Go_Heap\<close> (\<open>container/heap\<close>), \<open>Tx_Sorted_Map\<close>, \<open>Tx_List\<close>, \<open>Tx_Priced\<close> (\<open>core/tx_list.go\<close>, the tables of \<open>core/tx_pool.go\<close>): the lists of
    the pool, with what each operation removes and returns and the invariants of heap and cache.
  \<^item> \<open>Tx_Set\<close>, \<open>Tx_Set_Workers\<close>: the set of the miner, as sequential operations and as atomic actions; one worker per sender,
    nonces in order, and the one panic that is possible.
  \<^item> \<open>Gas_Pool\<close>, \<open>Transfer_Lock\<close>: the gas pool and the account locks under interleaving; conservation, mutual exclusion, serializability.
  \<^item> \<open>State_Db\<close> (\<open>core/state/statedb.go\<close>, \<open>state_object.go\<close>, \<open>journal.go\<close>) with \<open>State_View\<close> (what is observable and the
    invariant \<open>sdb_ok\<close>), \<open>State_Revert\<close> (reverting restores), \<open>State_Finalise\<close> (finalising, copying, committing) and \<open>State_Supply\<close> (balances).
  \<^item> \<open>Chain_Config\<close> (\<open>params/config.go\<close>): forks, gas tables and the compatibility of configurations.
  \<^item> \<open>Evm_Data\<close>, \<open>Evm_Gas\<close>, \<open>Evm_Ops\<close>, \<open>Evm_Table\<close>, \<open>Evm_Run\<close> (\<open>core/vm\<close>): stack, memory, contracts, the gas and the effect of every
    instruction, the four instruction sets, the interpreter and the calls.  \<open>Evm_Arith\<close>, \<open>Evm_Jumpdest\<close>, \<open>Evm_Memory\<close> show single
    instructions right.  The locale \<open>vm_rel\<close> of \<open>Evm_Frame\<close>, extended in \<open>Evm_Pay\<close> and \<open>Evm_Termination\<close>, lifts a relation that all
    operations of a state database keep to every run of the machine; \<open>vm_revert\<close> adds snapshots.  Their interpretations are \<open>gas\<close>
    (any database: termination), \<open>sdb\<close> (\<open>Evm_State\<close>: a failed call leaves no trace) and \<open>eth\<close> (\<open>Evm_Supply\<close>: no ether from nothing).
  \<^item> \<open>State_Transition\<close> (\<open>core/state_transition.go\<close>): one message; its gas and its ether are accounted for.
  \<^item> \<open>Block_Types\<close>, \<open>Ethash_Rules\<close>, \<open>Block_Process\<close>, \<open>Block_Ether\<close> (\<open>core/state_processor.go\<close>, \<open>consensus/ethash/consensus.go\<close>,
    \<open>consensus/misc\<close>, \<open>core/types/bloom9.go\<close>): headers, uncles, rewards, receipts and the processing of a block.
  \<^item> \<open>Mpt_Encoding\<close>, \<open>Mpt_Trie\<close>, \<open>Mpt_Map\<close>, \<open>Mpt_Delete\<close>, \<open>Mpt_Ops\<close>, \<open>Mpt_Concurrent\<close> (\<open>trie/encoding.go\<close>, \<open>node.go\<close>, \<open>trie.go\<close>,
    \<open>secure_trie.go\<close>): the trie is a map, its updates are linearizable, and a lookup can undo one.

  \<^bold>\<open>Fuel.\<close>  The interpreter takes one unit of fuel for each instruction, and a nested call gets what is left of it; every turn of the loop pays gas or ends
  it, so that more fuel than gas is enough, which \<open>Evm_Termination\<close> proves.  The recursion of the trie could follow a cycle in a broken
  node database; on a well-formed trie twice the length of the key and two is enough, which \<open>Mpt_Map\<close> and \<open>Mpt_Delete\<close> prove.

  \<^bold>\<open>Not modelled.\<close>  Networking, RPC, wallets, command lines, databases on disk and the event loops around the components above are
  input and output.  RLP works by reflection on Go types.  The cryptographic functions, the precompiled contracts that call them, the
  hashing of tries and the proof of work are arguments.  The transaction pool itself and the worker of the miner are event loops
  over channels and timers; the data structures that they share are modelled.  A block is processed sequentially, as
  \<open>Process\<close> does; what the parallel miner adds is covered for each shared structure separately, not for whole transactions that
  interleave on one state database.  Memory reuse (the pool of integers, the cache generations of the trie) has no effect on
  results and is left out.
\<close>

end
